(* ===== verification/Prelude.thy ===== *)
theory Prelude
  imports Complex_Main "HOL-Library.Word" "HOL-Library.Signed_Division" "HOL-Library.Multiset"
begin

text \<open>
  Shared vocabulary of the development.

  \<^item> Machine integers: \<open>u8\<close>, \<open>u16\<close>, \<open>u32\<close>, \<open>u64\<close> are the C types \<open>uint8_t\<close> .. \<open>uint64_t\<close>
    and wrap as in C. A C \<open>int\<close> or \<open>long\<close> is an \<open>int\<close>: signed overflow is undefined in C, so a
    signed expression stands for its mathematical value; every conversion that the source performs
    between widths or signedness is written out (\<open>long_of\<close>, \<open>int_of_u64\<close>, \<open>int_of_long\<close>,
    \<open>of_int\<close>).
  \<^item> A \<open>double\<close> is a \<open>real\<close>: rounding is not modelled; comparisons and copies are exact.
  \<^item> Failures: \<open>'a res\<close> is either the failure that stops the C++ program (an access outside an
    array, a null dereference, a division by zero, a failed \<open>assert\<close>, \<open>exit\<close>, an exception that
    nothing catches) or a value.
  \<^item> Loops over an index range are \<open>for_each\<close> over the list of indices.
\<close>

type_synonym u8 = "8 word"
type_synonym u16 = "16 word"
type_synonym u32 = "32 word"
type_synonym u64 = "64 word"

named_theorems res_simps \<open>equations of the failure monad and of checked array accesses\<close>
named_theorems c_int_simps \<open>conversions between C integer types\<close>


section \<open>Failures as values\<close>

datatype c_error =
    OutOfBounds
  | NullDeref
  | UninitRead
  | DivByZero
  | AssertFailed
  | ExitFailure
  | UncaughtException

type_synonym 'a res = "c_error + 'a"

fun bindE :: "'a res \<Rightarrow> ('a \<Rightarrow> 'b res) \<Rightarrow> 'b res" where
  "bindE (Inl e) f = Inl e"
| "bindE (Inr x) f = f x"

lemma bindE_eq_Inr [res_simps]:
  "bindE m f = Inr y \<longleftrightarrow> (\<exists>x. m = Inr x \<and> f x = Inr y)"
  by (cases m) auto

lemma bindE_eq_Inl [res_simps]:
  "bindE m f = Inl e \<longleftrightarrow> m = Inl e \<or> (\<exists>x. m = Inr x \<and> f x = Inl e)"
  by (cases m) auto

lemma bindE_assoc: "bindE (bindE m f) g = bindE m (\<lambda>x. bindE (f x) g)"
  by (cases m) auto

lemma bindE_Inr_right [simp]: "bindE m Inr = m"
  by (cases m) auto

lemma bindE_cong [fundef_cong]:
  "m = m' \<Longrightarrow> (\<And>x. m' = Inr x \<Longrightarrow> f x = f' x) \<Longrightarrow> bindE m f = bindE m' f'"
  by (cases m') auto

text \<open>\<open>guardE\<close>: a failure when the condition does not hold.\<close>

definition guardE :: "bool \<Rightarrow> c_error \<Rightarrow> unit res" where
  "guardE b e = (if b then Inr () else Inl e)"

lemma guardE_simps [simp]: "guardE True e = Inr ()" "guardE False e = Inl e"
  by (simp_all add: guardE_def)

lemma guardE_eq_Inr [res_simps]: "guardE b e = Inr u \<longleftrightarrow> b"
  by (simp add: guardE_def)

lemma guardE_eq_Inl [res_simps]: "guardE b e = Inl e' \<longleftrightarrow> \<not> b \<and> e = e'"
  by (auto simp: guardE_def)


text \<open>A chain of conditionals, taken apart one condition at a time.\<close>

lemma ex_Inr_if:
  "\<exists>x. m = Inr x \<Longrightarrow> \<exists>x. n = Inr x \<Longrightarrow> \<exists>x. (if b then m else n) = Inr x"
  by simp

lemma if_InrE:
  "(if b then m else n) = Inr x \<Longrightarrow> (m = Inr x \<Longrightarrow> P) \<Longrightarrow> (n = Inr x \<Longrightarrow> P) \<Longrightarrow> P"
  by (cases b) auto


section \<open>Arrays\<close>

text \<open>A checked read and a checked write of an array held as a list.\<close>

definition aget :: "'a list \<Rightarrow> int \<Rightarrow> 'a res" where
  "aget xs i = (if 0 \<le> i \<and> nat i < length xs then Inr (xs ! nat i) else Inl OutOfBounds)"

definition aset :: "'a list \<Rightarrow> int \<Rightarrow> 'a \<Rightarrow> 'a list res" where
  "aset xs i v = (if 0 \<le> i \<and> nat i < length xs then Inr (xs[nat i := v]) else Inl OutOfBounds)"

lemma aget_eq_Inr [res_simps]:
  "aget xs i = Inr x \<longleftrightarrow> 0 \<le> i \<and> nat i < length xs \<and> xs ! nat i = x"
  by (auto simp: aget_def)

lemma aget_eq_Inl [res_simps]:
  "aget xs i = Inl e \<longleftrightarrow> e = OutOfBounds \<and> \<not> (0 \<le> i \<and> nat i < length xs)"
  by (auto simp: aget_def)

lemma aset_eq_Inr [res_simps]:
  "aset xs i v = Inr ys \<longleftrightarrow> 0 \<le> i \<and> nat i < length xs \<and> ys = xs[nat i := v]"
  by (auto simp: aset_def)

lemma aset_eq_Inl [res_simps]:
  "aset xs i v = Inl e \<longleftrightarrow> e = OutOfBounds \<and> \<not> (0 \<le> i \<and> nat i < length xs)"
  by (auto simp: aset_def)

lemma aget_nat [simp]: "i < length xs \<Longrightarrow> aget xs (int i) = Inr (xs ! i)"
  by (simp add: aget_def)

lemma aset_nat [simp]: "i < length xs \<Longrightarrow> aset xs (int i) v = Inr (xs[i := v])"
  by (simp add: aset_def)

text \<open>The first \<open>n\<close> elements of an array (none for a negative count).\<close>

definition prefixE :: "int \<Rightarrow> 'a list \<Rightarrow> 'a list res" where
  "prefixE n xs = (if n \<le> int (length xs) then Inr (take (nat n) xs) else Inl OutOfBounds)"

lemma prefixE_eq_Inr [res_simps]:
  "prefixE n xs = Inr ys \<longleftrightarrow> n \<le> int (length xs) \<and> ys = take (nat n) xs"
  by (auto simp: prefixE_def)

lemma prefixE_nat [simp]: "n \<le> length xs \<Longrightarrow> prefixE (int n) xs = Inr (take n xs)"
  by (simp add: prefixE_def)


section \<open>Loops with failure\<close>

fun for_each :: "('a \<Rightarrow> 's \<Rightarrow> 's res) \<Rightarrow> 'a list \<Rightarrow> 's \<Rightarrow> 's res" where
  "for_each f [] s = Inr s"
| "for_each f (x # xs) s = bindE (f x s) (for_each f xs)"

lemma for_each_append:
  "for_each f (xs @ ys) s = bindE (for_each f xs s) (for_each f ys)"
  by (induction xs arbitrary: s) (auto simp: bindE_assoc cong: bindE_cong)

lemma for_each_pure:
  "(\<And>x s. x \<in> set xs \<Longrightarrow> f x s = Inr (g x s)) \<Longrightarrow> for_each f xs s = Inr (fold g xs s)"
  by (induction xs arbitrary: s) auto

text \<open>Partial correctness of a loop: an invariant that each successful body keeps.\<close>

lemma for_each_inv:
  assumes "for_each f xs s = Inr s'" and "P s"
    and "\<And>x s s'. x \<in> set xs \<Longrightarrow> P s \<Longrightarrow> f x s = Inr s' \<Longrightarrow> P s'"
  shows "P s'"
  using assms
proof (induction xs arbitrary: s)
  case (Cons x xs)
  from Cons.prems(1) obtain t where t: "f x s = Inr t" "for_each f xs t = Inr s'"
    by (auto simp: res_simps)
  have "P t" using Cons.prems(2,3) t(1) by (meson list.set_intros(1))
  with t(2) show ?case using Cons.IH Cons.prems(3) by (meson list.set_intros(2))
qed simp

text \<open>Total correctness of a loop: each body succeeds under the invariant and keeps it.\<close>

lemma for_each_total:
  assumes "P s" and "\<And>x s. x \<in> set xs \<Longrightarrow> P s \<Longrightarrow> \<exists>s'. f x s = Inr s' \<and> P s'"
  shows "\<exists>s'. for_each f xs s = Inr s' \<and> P s'"
  using assms
proof (induction xs arbitrary: s)
  case (Cons x xs)
  from Cons.prems obtain t where t: "f x s = Inr t" "P t"
    by (meson list.set_intros(1))
  then obtain s' where "for_each f xs t = Inr s'" "P s'"
    using Cons.IH Cons.prems(2) by (meson list.set_intros(2))
  with t show ?case by simp
qed simp

text \<open>The indices of a C loop \<open>for (int i = a; i < b; i++)\<close>.\<close>

definition range_int :: "int \<Rightarrow> int \<Rightarrow> int list" where
  "range_int a b = [a..b - 1]"

lemma set_range_int [simp]: "set (range_int a b) = {a..<b}"
  by (auto simp: range_int_def)

lemma range_int_empty [simp]: "b \<le> a \<Longrightarrow> range_int a b = []"
  by (simp add: range_int_def)

lemma range_int_Cons: "a < b \<Longrightarrow> range_int a b = a # range_int (a + 1) b"
  by (simp add: range_int_def upto.simps)

lemma range_int_nat: "range_int 0 (int n) = map int [0..<n]"
proof (induction n)
  case (Suc n)
  have "range_int 0 (int (Suc n)) = [0..int n]" by (simp add: range_int_def)
  also have "\<dots> = [0..int n - 1] @ [int n]" by (simp add: upto_rec2)
  also have "\<dots> = map int [0..<Suc n]" using Suc by (simp add: range_int_def)
  finally show ?case .
qed simp


section \<open>C integer conversions\<close>

text \<open>
  \<open>(long)x\<close> for a \<open>uint64_t\<close>, \<open>(int)x\<close> for a \<open>uint64_t\<close> and \<open>(int)x\<close> for a \<open>long\<close>
  (two's complement, as on every platform the code targets).
\<close>

definition long_of :: "u64 \<Rightarrow> int" where
  "long_of x = sint x"

definition int_of_u64 :: "u64 \<Rightarrow> int" where
  "int_of_u64 x = sint (ucast x :: u32)"

definition int_of_long :: "int \<Rightarrow> int" where
  "int_of_long x = signed_take_bit 31 x"

lemma long_of_small [c_int_simps]:
  assumes "uint x < 2 ^ 63" shows "long_of x = uint x"
proof -
  have "- (2 ^ 63) \<le> uint x" by (rule order_trans [OF _ uint_ge_0]) simp
  with assms show ?thesis
    using signed_take_bit_int_eq_self [of 63 "uint x"] by (simp add: long_of_def sint_uint)
qed

lemma int_of_long_small [c_int_simps]:
  assumes "- (2 ^ 31) \<le> x" and "x < 2 ^ 31" shows "int_of_long x = x"
  using assms by (simp add: int_of_long_def signed_take_bit_int_eq_self)

lemma int_of_u64_small [c_int_simps]:
  assumes "uint x < 2 ^ 31" shows "int_of_u64 x = uint x"
proof -
  have "uint (ucast x :: u32) = uint x"
    using assms by (simp add: uint_up_ucast unsigned_ucast_eq take_bit_int_eq_self)
  moreover have "- (2 ^ 31) \<le> uint x" by (rule order_trans [OF _ uint_ge_0]) simp
  ultimately show ?thesis
    using assms signed_take_bit_int_eq_self [of 31 "uint x"]
    by (simp add: int_of_u64_def sint_uint)
qed

text \<open>C's \<open>%\<close> truncates towards zero (\<open>smod\<close>).\<close>

lemma smod_nonneg [c_int_simps]: "0 \<le> (a::int) \<Longrightarrow> 0 < b \<Longrightarrow> a smod b = a mod b"
  by (cases "a = 0") (simp_all add: signed_modulo_int_def)

lemma smod_minus_one [c_int_simps]: "1 < b \<Longrightarrow> (- 1 :: int) smod b = - 1"
  by (simp add: signed_modulo_int_def)


text \<open>The conversion of a \<open>double\<close> to an integer truncates towards zero.\<close>

definition trunc_real :: "real \<Rightarrow> int" where
  "trunc_real x = (if 0 \<le> x then \<lfloor>x\<rfloor> else \<lceil>x\<rceil>)"

lemma trunc_real_mono:
  assumes "x \<le> y" shows "trunc_real x \<le> trunc_real y"
proof -
  have "\<lceil>x\<rceil> \<le> \<lfloor>y\<rfloor>" if "\<not> 0 \<le> x" "0 \<le> y"
  proof -
    have "\<lceil>x\<rceil> \<le> 0" using that(1) by (simp add: ceiling_le_zero)
    also have "0 \<le> \<lfloor>y\<rfloor>" using that(2) by simp
    finally show ?thesis .
  qed
  then show ?thesis using assms by (auto simp: trunc_real_def intro: floor_mono ceiling_mono)
qed


section \<open>Lists\<close>

text \<open>The last \<open>n\<close> elements of a list: what a ring buffer of capacity \<open>n\<close> holds.\<close>

definition lastn :: "nat \<Rightarrow> 'a list \<Rightarrow> 'a list" where
  "lastn n xs = drop (length xs - n) xs"

lemma length_lastn [simp]: "length (lastn n xs) = min n (length xs)"
  by (simp add: lastn_def)

lemma lastn_Nil [simp]: "lastn n [] = []"
  by (simp add: lastn_def)

lemma lastn_short: "length xs \<le> n \<Longrightarrow> lastn n xs = xs"
  by (simp add: lastn_def)

lemma lastn_snoc:
  assumes "0 < n"
  shows "lastn n (lastn n xs @ [x]) = lastn n (xs @ [x])"
proof (cases "length xs < n")
  case True
  then show ?thesis by (simp add: lastn_def)
next
  case False
  with assms show ?thesis by (simp add: lastn_def Suc_diff_le)
qed

text \<open>The position of the first element with the least key.\<close>

definition first_argmin :: "('a \<Rightarrow> 'b::linorder) \<Rightarrow> 'a list \<Rightarrow> nat \<Rightarrow> bool" where
  "first_argmin d xs k \<longleftrightarrow> k < length xs \<and>
     (\<forall>j < length xs. d (xs ! k) \<le> d (xs ! j)) \<and> (\<forall>j < k. d (xs ! k) < d (xs ! j))"

lemma first_argmin_unique:
  assumes "first_argmin d xs k" and "first_argmin d xs l" shows "k = l"
  using assms unfolding first_argmin_def by (metis leD linorder_neqE_nat)

lemma first_argmin_min:
  "first_argmin d xs k \<Longrightarrow> d (xs ! k) = Min (d ` set xs)"
  by (rule Min_eqI [symmetric]) (auto simp: first_argmin_def in_set_conv_nth intro: nth_mem)

end
