(* ===== verification/Ngscope_Util.thy ===== *)
theory Ngscope_Util
  imports Prelude
begin

text \<open>
  Model of \<open>src/ngscope_util.cc\<close>: sorting, averages and extrema of arrays, arithmetic on
  transmission time intervals (TTIs count milliseconds modulo \<open>MAX_TTI = 10240\<close>), nearest
  neighbours and the correlation of two timestamp vectors.
  An array argument together with its size is one list. A scan that reads \<open>array[0]\<close> of an empty
  array fails with \<open>OutOfBounds\<close>.
\<close>

abbreviation MAX_TTI :: int where "MAX_TTI \<equiv> 10240"


section \<open>Sorting\<close>

text \<open>The comparators hand the difference of the elements to \<open>qsort\<close> as an \<open>int\<close>.\<close>

definition cmpfunc_uint64 :: "u64 \<Rightarrow> u64 \<Rightarrow> int" where
  "cmpfunc_uint64 a b = int_of_u64 (a - b)"

definition cmpfunc_uint16 :: "u16 \<Rightarrow> u16 \<Rightarrow> int" where
  "cmpfunc_uint16 a b = uint a - uint b"

text \<open>
  The C library's \<open>qsort\<close>, as a stable insertion sort by the comparator: any implementation gives
  this result on elements that the comparator orders totally.
\<close>

fun qsort_insert :: "('a \<Rightarrow> 'a \<Rightarrow> int) \<Rightarrow> 'a \<Rightarrow> 'a list \<Rightarrow> 'a list" where
  "qsort_insert cmp x [] = [x]"
| "qsort_insert cmp x (y # ys) =
     (if cmp x y \<le> 0 then x # y # ys else y # qsort_insert cmp x ys)"

definition qsort :: "('a \<Rightarrow> 'a \<Rightarrow> int) \<Rightarrow> 'a list \<Rightarrow> 'a list" where
  "qsort cmp xs = foldr (qsort_insert cmp) xs []"

definition quick_sort_uint64 :: "u64 list \<Rightarrow> u64 list" where
  "quick_sort_uint64 xs = qsort cmpfunc_uint64 xs"

definition quick_sort_uint16 :: "u16 list \<Rightarrow> u16 list" where
  "quick_sort_uint16 xs = qsort cmpfunc_uint16 xs"

lemma mset_qsort_insert [simp]: "mset (qsort_insert cmp x ys) = add_mset x (mset ys)"
  by (induction ys) auto

lemma mset_qsort [simp]: "mset (qsort cmp xs) = mset xs"
  by (induction xs) (auto simp: qsort_def)

lemma set_qsort [simp]: "set (qsort cmp xs) = set xs"
  by (metis mset_qsort set_mset_mset)

lemma length_qsort [simp]: "length (qsort cmp xs) = length xs"
  by (metis mset_qsort size_mset)

lemma sorted_qsort_insert:
  fixes x :: "'a::linorder"
  assumes "\<forall>a \<in> set (x # ys). \<forall>b \<in> set (x # ys). cmp a b \<le> 0 \<longleftrightarrow> a \<le> b" and "sorted ys"
  shows "sorted (qsort_insert cmp x ys)"
  using assms
proof (induction ys)
  case (Cons y ys)
  have set_eq: "set (qsort_insert cmp x ys) = insert x (set ys)"
    by (metis mset_qsort_insert set_mset_add_mset_insert set_mset_mset)
  show ?case
  proof (cases "cmp x y \<le> 0")
    case True
    with Cons.prems have "x \<le> y" by simp
    with True Cons.prems(2) show ?thesis by auto
  next
    case False
    with Cons.prems have "\<not> x \<le> y" by simp
    then have "y \<le> x" by simp
    moreover have "sorted (qsort_insert cmp x ys)" using Cons by simp
    ultimately show ?thesis using False Cons.prems(2) by (auto simp: set_eq)
  qed
qed simp

lemma sorted_qsort:
  fixes xs :: "'a::linorder list"
  assumes "\<forall>a \<in> set xs. \<forall>b \<in> set xs. cmp a b \<le> 0 \<longleftrightarrow> a \<le> b"
  shows "sorted (qsort cmp xs)"
  using assms
proof (induction xs)
  case (Cons x xs)
  have "sorted (qsort cmp xs)" using Cons by simp
  moreover have "\<forall>a \<in> set (x # qsort cmp xs). \<forall>b \<in> set (x # qsort cmp xs). cmp a b \<le> 0 \<longleftrightarrow> a \<le> b"
    using Cons.prems by simp
  ultimately show ?case by (simp add: qsort_def sorted_qsort_insert)
qed (simp add: qsort_def)

text \<open>The 16-bit comparator is exact; the 64-bit one only for differences below \<open>2\<^sup>3\<^sup>1\<close>.\<close>

lemma cmpfunc_uint16_le: "cmpfunc_uint16 a b \<le> 0 \<longleftrightarrow> a \<le> b"
  by (simp add: cmpfunc_uint16_def word_le_def)

lemma cmpfunc_uint64_le:
  assumes "\<bar>uint a - uint b\<bar> < 2 ^ 31"
  shows "cmpfunc_uint64 a b \<le> 0 \<longleftrightarrow> a \<le> b"
proof -
  define d where "d = uint a - uint b"
  have d: "- (2 ^ 31) \<le> d" "d < 2 ^ 31" using assms by (auto simp: d_def)
  have "uint (ucast (a - b) :: u32) = take_bit 32 (uint (a - b))"
    by (simp add: unsigned_ucast_eq)
  also have "\<dots> = take_bit 32 d"
    by (simp add: d_def uint_word_ariths take_bit_eq_mod mod_mod_cancel)
  finally have "cmpfunc_uint64 a b = signed_take_bit 31 d"
    by (simp add: cmpfunc_uint64_def int_of_u64_def sint_uint signed_take_bit_take_bit)
  also have "\<dots> = d" using d by (intro signed_take_bit_int_eq_self) auto
  finally show ?thesis by (simp add: d_def word_le_def)
qed

lemma quick_sort_uint16_sorted: "sorted (quick_sort_uint16 xs)"
  by (simp add: quick_sort_uint16_def sorted_qsort cmpfunc_uint16_le)

text \<open>
  \<open>quick_sort_uint64\<close> returns its elements in ascending order whenever any two of them are less
  than \<open>2\<^sup>3\<^sup>1\<close> apart (microseconds: some 35 minutes), the range in which the comparator's
  truncation to \<open>int\<close> keeps the sign.
\<close>

theorem quick_sort_uint64_sorts:
  assumes "\<forall>a \<in> set xs. \<forall>b \<in> set xs. \<bar>uint a - uint b\<bar> < 2 ^ 31"
  shows "sorted (quick_sort_uint64 xs) \<and> mset (quick_sort_uint64 xs) = mset xs"
  using assms by (simp add: quick_sort_uint64_def sorted_qsort cmpfunc_uint64_le)

theorem quick_sort_uint64_sorts_witness: "sorted (quick_sort_uint64 [30, 10, 20])"
  using quick_sort_uint64_sorts [of "[30, 10, 20]"] by simp


section \<open>Sums, averages, extrema\<close>

definition sum_array_uint16 :: "u16 list \<Rightarrow> u16" where
  "sum_array_uint16 xs = foldl (+) 0 xs"

definition sum_array_uint64 :: "u64 list \<Rightarrow> u64" where
  "sum_array_uint64 xs = foldl (+) 0 xs"

text \<open>Both averages divide by the size of the array; an empty array traps.\<close>

definition mean_array_uint16 :: "u16 list \<Rightarrow> u16 res" where
  "mean_array_uint16 xs =
     (if xs = [] then Inl DivByZero
      else Inr (of_int (uint (sum_array_uint16 xs) div int (length xs))))"

definition mean_array_uint64 :: "u64 list \<Rightarrow> u64 res" where
  "mean_array_uint64 xs =
     (if xs = [] then Inl DivByZero else Inr (sum_array_uint64 xs div of_nat (length xs)))"

text \<open>
  The scans for an extreme value: \<open>v\<close> and \<open>k\<close> are the value and its index found so far, \<open>i\<close> is the
  loop variable.
\<close>

fun ext_scan :: "('a \<Rightarrow> 'a \<Rightarrow> bool) \<Rightarrow> 'a list \<Rightarrow> int \<Rightarrow> 'a \<times> int \<Rightarrow> 'a \<times> int" where
  "ext_scan lt [] i (v, k) = (v, k)"
| "ext_scan lt (x # xs) i (v, k) = ext_scan lt xs (i + 1) (if lt x v then (x, i) else (v, k))"

definition ext_in_array_vi :: "('a \<Rightarrow> 'a \<Rightarrow> bool) \<Rightarrow> 'a list \<Rightarrow> ('a \<times> int) res" where
  "ext_in_array_vi lt xs = bindE (aget xs 0) (\<lambda>x. Inr (ext_scan lt xs 0 (x, 0)))"

definition min_in_array_uint64_vi :: "u64 list \<Rightarrow> (u64 \<times> int) res" where
  "min_in_array_uint64_vi xs = ext_in_array_vi (\<lambda>x v. x < v) xs"

definition max_in_array_uint64_vi :: "u64 list \<Rightarrow> (u64 \<times> int) res" where
  "max_in_array_uint64_vi xs = ext_in_array_vi (\<lambda>x v. x > v) xs"

definition min_in_array_uint16_vi :: "u16 list \<Rightarrow> (u16 \<times> int) res" where
  "min_in_array_uint16_vi xs = ext_in_array_vi (\<lambda>x v. x < v) xs"

definition max_in_array_uint16_vi :: "u16 list \<Rightarrow> (u16 \<times> int) res" where
  "max_in_array_uint16_vi xs = ext_in_array_vi (\<lambda>x v. x > v) xs"

text \<open>The variants without an index.\<close>

fun ext_scan_v :: "('a \<Rightarrow> 'a \<Rightarrow> bool) \<Rightarrow> 'a list \<Rightarrow> 'a \<Rightarrow> 'a" where
  "ext_scan_v lt [] v = v"
| "ext_scan_v lt (x # xs) v = ext_scan_v lt xs (if lt x v then x else v)"

definition ext_in_array_v :: "('a \<Rightarrow> 'a \<Rightarrow> bool) \<Rightarrow> 'a list \<Rightarrow> 'a res" where
  "ext_in_array_v lt xs = bindE (aget xs 0) (\<lambda>x. Inr (ext_scan_v lt xs x))"

definition min_in_array_uint64_v :: "u64 list \<Rightarrow> u64 res" where
  "min_in_array_uint64_v xs = ext_in_array_v (\<lambda>x v. x < v) xs"

definition max_in_array_uint64_v :: "u64 list \<Rightarrow> u64 res" where
  "max_in_array_uint64_v xs = ext_in_array_v (\<lambda>x v. x > v) xs"

definition min_in_array_uint16_v :: "u16 list \<Rightarrow> u16 res" where
  "min_in_array_uint16_v xs = ext_in_array_v (\<lambda>x v. x < v) xs"

definition max_in_array_uint16_v :: "u16 list \<Rightarrow> u16 res" where
  "max_in_array_uint16_v xs = ext_in_array_v (\<lambda>x v. x > v) xs"

text \<open>\<open>find_element_in_array\<close>: the first index that holds the element, or \<open>-1\<close>.\<close>

fun find_from :: "'a list \<Rightarrow> int \<Rightarrow> 'a \<Rightarrow> int" where
  "find_from [] i ele = - 1"
| "find_from (x # xs) i ele = (if ele = x then i else find_from xs (i + 1) ele)"

definition find_element_in_array_uint16 :: "u16 list \<Rightarrow> u16 \<Rightarrow> int" where
  "find_element_in_array_uint16 xs ele = find_from xs 0 ele"

definition find_element_in_array_uint64 :: "u64 list \<Rightarrow> u64 \<Rightarrow> int" where
  "find_element_in_array_uint64 xs ele = find_from xs 0 ele"

text \<open>
  All scans are one: with a key \<open>d\<close> that the comparison orders by, the scan finds the first element
  with the least key. (A maximum is the least negated value.)
\<close>

lemma ext_scan_argmin:
  fixes d :: "'a \<Rightarrow> 'b::linorder"
  assumes lt: "\<And>x v. lt x v \<longleftrightarrow> d x < d v"
    and "first_argmin d ys k" and "ext_scan lt xs (int (length ys)) (ys ! k, int k) = (v, i)"
  shows "\<exists>l. i = int l \<and> v = (ys @ xs) ! l \<and> first_argmin d (ys @ xs) l"
  using assms(2,3)
proof (induction xs arbitrary: ys k)
  case Nil
  then show ?case by (auto simp: first_argmin_def)
next
  case (Cons x xs)
  have k: "k < length ys" using Cons.prems(1) by (simp add: first_argmin_def)
  show ?case
  proof (cases "d x < d (ys ! k)")
    case True
    have "first_argmin d (ys @ [x]) (length ys)"
      using Cons.prems(1) True unfolding first_argmin_def
      by (auto simp: nth_append less_Suc_eq intro: less_le_trans order.strict_implies_order)
    then show ?thesis
      using Cons.IH [of "ys @ [x]" "length ys"] Cons.prems(2) True by (simp add: lt add.commute)
  next
    case False
    have "first_argmin d (ys @ [x]) k"
      using Cons.prems(1) False unfolding first_argmin_def by (auto simp: nth_append less_Suc_eq)
    then show ?thesis
      using Cons.IH [of "ys @ [x]" k] Cons.prems(2) False k by (simp add: lt nth_append add.commute)
  qed
qed

lemma ext_scan_v_fst: "ext_scan_v lt xs v = fst (ext_scan lt xs i (v, k))"
  by (induction xs arbitrary: v i k) auto

lemma ext_in_array_vi_argmin:
  fixes d :: "'a \<Rightarrow> 'b::linorder"
  assumes lt: "\<And>x v. lt x v \<longleftrightarrow> d x < d v" and "xs \<noteq> []"
  shows "\<exists>k. ext_in_array_vi lt xs = Inr (xs ! k, int k) \<and> first_argmin d xs k"
proof -
  obtain x ys where xs: "xs = x # ys" using assms(2) by (cases xs) auto
  have "first_argmin d [x] 0" by (simp add: first_argmin_def)
  moreover obtain v i where "ext_scan lt ys 1 (x, 0) = (v, i)" by fastforce
  ultimately show ?thesis
    using ext_scan_argmin [of lt d "[x]" 0 ys v i] lt
    by (auto simp: xs ext_in_array_vi_def aget_def)
qed

lemma ext_in_array_v_argmin:
  fixes d :: "'a \<Rightarrow> 'b::linorder"
  assumes lt: "\<And>x v. lt x v \<longleftrightarrow> d x < d v" and "xs \<noteq> []"
  shows "\<exists>k. ext_in_array_v lt xs = Inr (xs ! k) \<and> first_argmin d xs k"
proof -
  obtain k where k: "ext_in_array_vi lt xs = Inr (xs ! k, int k)" "first_argmin d xs k"
    using ext_in_array_vi_argmin [of lt d xs, OF lt assms(2)] by blast
  then have "ext_in_array_v lt xs = Inr (xs ! k)"
    by (cases xs) (auto simp: ext_in_array_vi_def ext_in_array_v_def aget_def
        ext_scan_v_fst [where i = 0 and k = 0])
  with k(2) show ?thesis by blast
qed

lemma ext_in_array_Nil [simp]:
  "ext_in_array_v lt [] = Inl OutOfBounds" "ext_in_array_vi lt [] = Inl OutOfBounds"
  by (simp_all add: ext_in_array_v_def ext_in_array_vi_def aget_def)

lemma max_in_array_uint16_v_Max:
  assumes "xs \<noteq> []" shows "max_in_array_uint16_v xs = Inr (Max (set xs))"
proof -
  obtain k where k: "max_in_array_uint16_v xs = Inr (xs ! k)" "first_argmin (\<lambda>x. - uint x) xs k"
    using ext_in_array_v_argmin [of "\<lambda>x v. x > v" "\<lambda>x. - uint x" xs] assms
    by (auto simp: max_in_array_uint16_v_def word_less_def)
  have "xs ! k = Max (set xs)"
    by (rule Max_eqI [symmetric])
      (use k(2) in \<open>auto simp: first_argmin_def in_set_conv_nth word_le_def\<close>)
  with k(1) show ?thesis by simp
qed

lemma min_in_array_uint16_v_Min:
  assumes "xs \<noteq> []" shows "min_in_array_uint16_v xs = Inr (Min (set xs))"
proof -
  obtain k where k: "min_in_array_uint16_v xs = Inr (xs ! k)" "first_argmin (\<lambda>x. x) xs k"
    using ext_in_array_v_argmin [of "\<lambda>x v. x < v" "\<lambda>x. x" xs] assms
    by (auto simp: min_in_array_uint16_v_def)
  then show ?thesis using first_argmin_min [of "\<lambda>x. x" xs k] by simp
qed

lemma min_in_array_uint64_vi_first:
  assumes "xs \<noteq> []"
  shows "\<exists>k. min_in_array_uint64_vi xs = Inr (xs ! k, int k) \<and> first_argmin (\<lambda>x. x) xs k"
  unfolding min_in_array_uint64_vi_def by (rule ext_in_array_vi_argmin [OF _ assms]) simp

lemma find_from_cases: "find_from xs i ele = - 1 \<and> ele \<notin> set xs \<or>
  (\<exists>k < length xs. find_from xs i ele = i + int k \<and> xs ! k = ele \<and> (\<forall>j < k. xs ! j \<noteq> ele))"
proof (induction xs arbitrary: i)
  case (Cons x xs)
  show ?case
  proof (cases "ele = x")
    case True
    then show ?thesis by auto
  next
    case False
    show ?thesis
      using Cons.IH [of "i + 1"]
    proof (elim disjE exE conjE)
      fix k assume "k < length xs" "find_from xs (i + 1) ele = i + 1 + int k" "xs ! k = ele"
        "\<forall>j < k. xs ! j \<noteq> ele"
      then have "Suc k < length (x # xs) \<and> find_from (x # xs) i ele = i + int (Suc k) \<and>
          (x # xs) ! Suc k = ele \<and> (\<forall>j < Suc k. (x # xs) ! j \<noteq> ele)"
        using False by (auto simp: less_Suc_eq_0_disj)
      then show ?thesis by blast
    qed (use False in auto)
  qed
qed simp

lemma find_element_in_array_uint16_cases:
  "find_element_in_array_uint16 xs ele = - 1 \<and> ele \<notin> set xs \<or>
   (\<exists>k < length xs. find_element_in_array_uint16 xs ele = int k \<and> xs ! k = ele)"
  using find_from_cases [of xs 0 ele] by (auto simp: find_element_in_array_uint16_def)


section \<open>Transmission time intervals\<close>

definition wrap_tti :: "u16 \<Rightarrow> u16" where
  "wrap_tti tti = tti mod 10240"

text \<open>
  The arithmetic on elements is done in \<open>int\<close>; only the store \<open>array[i] += MAX_TTI\<close> is 16 bits wide.
\<close>

definition unwrap_tti_array :: "u16 list \<Rightarrow> u16 list res" where
  "unwrap_tti_array xs =
     (if length xs = 1 then Inr xs
      else bindE (max_in_array_uint16_v xs) (\<lambda>max_tti.
        Inr (map (\<lambda>x. if \<bar>uint max_tti - uint x\<bar> > \<bar>uint max_tti - (uint x + MAX_TTI)\<bar>
                        then x + 10240 else x) xs)))"

definition max_tti_in_array :: "u16 list \<Rightarrow> u16 res" where
  "max_tti_in_array xs =
     (if length xs = 1 then aget xs 0
      else if length xs = 0 then Inr 0
      else bindE (unwrap_tti_array xs) (\<lambda>ys.
           bindE (max_in_array_uint16_v (quick_sort_uint16 ys)) (\<lambda>max_tti.
           Inr (wrap_tti max_tti))))"

definition tti_distance :: "u16 \<Rightarrow> u16 \<Rightarrow> int" where
  "tti_distance start end_tti =
     (if start < end_tti then uint end_tti - uint start + 1
      else uint end_tti + MAX_TTI - uint start + 1)"

text \<open>The four comparisons unwrap the two-element array \<open>{a, b}\<close>; this never fails.\<close>

definition unwrap_pair :: "u16 \<Rightarrow> u16 \<Rightarrow> u16 \<times> u16" where
  "unwrap_pair a b =
     (case unwrap_tti_array [a, b] of Inr [x, y] \<Rightarrow> (x, y) | _ \<Rightarrow> (a, b))"

definition tti_a_l_b :: "u16 \<Rightarrow> u16 \<Rightarrow> bool" where
  "tti_a_l_b a b = (case unwrap_pair a b of (x, y) \<Rightarrow> x > y)"

definition tti_a_le_b :: "u16 \<Rightarrow> u16 \<Rightarrow> bool" where
  "tti_a_le_b a b = (case unwrap_pair a b of (x, y) \<Rightarrow> x \<ge> y)"

definition tti_a_s_b :: "u16 \<Rightarrow> u16 \<Rightarrow> bool" where
  "tti_a_s_b a b = (case unwrap_pair a b of (x, y) \<Rightarrow> x < y)"

definition tti_a_se_b :: "u16 \<Rightarrow> u16 \<Rightarrow> bool" where
  "tti_a_se_b a b = (case unwrap_pair a b of (x, y) \<Rightarrow> x \<le> y)"

lemmas tti_cmp_defs = tti_a_l_b_def tti_a_le_b_def tti_a_s_b_def tti_a_se_b_def

definition unwrap1 :: "u16 \<Rightarrow> u16 \<Rightarrow> u16" where
  "unwrap1 m x = (if \<bar>uint m - uint x\<bar> > \<bar>uint m - (uint x + MAX_TTI)\<bar> then x + 10240 else x)"

lemma unwrap_pair_eq: "unwrap_pair a b = (unwrap1 (max a b) a, unwrap1 (max a b) b)"
proof -
  have "max_in_array_uint16_v [a, b] = Inr (max a b)"
    by (simp add: max_in_array_uint16_v_Max)
  then show ?thesis by (simp add: unwrap_pair_def unwrap_tti_array_def unwrap1_def)
qed

lemma uint_unwrap1:
  assumes "uint m < MAX_TTI" and "x \<le> m"
  shows "uint (unwrap1 m x) = (if uint m - uint x > 5120 then uint x + MAX_TTI else uint x)"
proof -
  have x: "uint x \<le> uint m" using assms(2) by (simp add: word_le_def)
  have "uint (x + 10240) = uint x + MAX_TTI"
    using assms(1) x by (simp add: uint_word_ariths)
  then show ?thesis using assms(1) x by (auto simp: unwrap1_def)
qed

lemma tti_cmp_uint:
  assumes "uint a < MAX_TTI" and "uint b < MAX_TTI"
  shows "tti_a_l_b a b \<longleftrightarrow> (if uint a < uint b then uint b - uint a > 5120
                           else 0 < uint a - uint b \<and> uint a - uint b \<le> 5120)"
    and "tti_a_se_b a b \<longleftrightarrow> \<not> tti_a_l_b a b"
    and "tti_a_s_b a b \<longleftrightarrow> tti_a_l_b b a"
    and "tti_a_le_b a b \<longleftrightarrow> \<not> tti_a_l_b b a"
proof -
  show "tti_a_se_b a b \<longleftrightarrow> \<not> tti_a_l_b a b"
    by (auto simp: tti_cmp_defs unwrap_pair_eq)
  show "tti_a_s_b a b \<longleftrightarrow> tti_a_l_b b a"
    by (auto simp: tti_cmp_defs unwrap_pair_eq max.commute)
  show "tti_a_le_b a b \<longleftrightarrow> \<not> tti_a_l_b b a"
    by (auto simp: tti_cmp_defs unwrap_pair_eq max.commute)
  show "tti_a_l_b a b \<longleftrightarrow> (if uint a < uint b then uint b - uint a > 5120
                           else 0 < uint a - uint b \<and> uint a - uint b \<le> 5120)"
  proof (cases "uint a < uint b")
    case True
    then have "a \<le> b" and "max a b = b" by (simp_all add: word_le_def max_def)
    moreover have "uint b < uint a + MAX_TTI" using assms(2) uint_ge_0 [of a] by linarith
    ultimately show ?thesis
      using True assms uint_unwrap1 [of b a] uint_unwrap1 [of b b]
      by (simp add: tti_a_l_b_def unwrap_pair_eq word_less_def)
  next
    case False
    then have "b \<le> a" and "max a b = a" by (auto simp: word_le_def max_def word_uint_eq_iff)
    moreover have "uint a < uint b + MAX_TTI" using assms(1) uint_ge_0 [of b] by linarith
    ultimately show ?thesis
      using False assms uint_unwrap1 [of a a] uint_unwrap1 [of a b]
      by (auto simp: tti_a_l_b_def unwrap_pair_eq word_less_def)
  qed
qed

text \<open>
  On TTIs in range, \<open>tti_a_l_b a b\<close> says that \<open>a\<close> is later than \<open>b\<close> on the circle of 10240
  intervals: the forward distance from \<open>b\<close> to \<open>a\<close> is non-zero and less than half the circle; at
  exactly half the circle the numerically larger TTI counts as later.
\<close>

theorem tti_a_l_b_circular:
  assumes "uint a < MAX_TTI" and "uint b < MAX_TTI"
  shows "tti_a_l_b a b \<longleftrightarrow>
    (let d = (uint a - uint b) mod MAX_TTI in 0 < d \<and> (d < 5120 \<or> d = 5120 \<and> b < a))"
proof (cases "uint b \<le> uint a")
  case True
  have "(uint a - uint b) mod MAX_TTI = uint a - uint b"
    using True assms(1) uint_ge_0 [of b] by (intro mod_pos_pos_trivial) linarith+
  then show ?thesis
    using True tti_cmp_uint(1) [OF assms] by (auto simp: Let_def word_less_def)
next
  case False
  have "(uint a - uint b) mod MAX_TTI = (uint a - uint b + MAX_TTI) mod MAX_TTI" by simp
  also have "\<dots> = uint a - uint b + MAX_TTI"
    using False assms(2) uint_ge_0 [of a] by (intro mod_pos_pos_trivial) linarith+
  finally have "(uint a - uint b) mod MAX_TTI = uint a - uint b + MAX_TTI" .
  moreover have "0 < uint a - uint b + MAX_TTI" using assms(2) uint_ge_0 [of a] by linarith
  ultimately show ?thesis
    using False tti_cmp_uint(1) [OF assms] by (auto simp: Let_def word_less_def)
qed

text \<open>
  The four comparisons are consistent: of two different TTIs exactly one is later, no TTI is
  later than itself, and \<open>tti_a_s_b\<close>, \<open>tti_a_le_b\<close>, \<open>tti_a_se_b\<close> are its converse, the
  complement of the converse and the complement.
\<close>

theorem tti_comparisons_consistent:
  assumes "uint a < MAX_TTI" and "uint b < MAX_TTI"
  shows "(a \<noteq> b \<longleftrightarrow> tti_a_l_b a b \<noteq> tti_a_l_b b a) \<and> \<not> (tti_a_l_b a b \<and> tti_a_l_b b a)
    \<and> tti_a_s_b a b = tti_a_l_b b a \<and> tti_a_le_b a b = (\<not> tti_a_s_b a b)
    \<and> tti_a_se_b a b = (\<not> tti_a_l_b a b)"
proof -
  have "a = b \<longleftrightarrow> uint a = uint b" by (simp add: word_uint_eq_iff)
  then show ?thesis
    using tti_cmp_uint [OF assms] tti_cmp_uint(1) [OF assms(2,1)] by auto
qed

theorem tti_a_l_b_circular_witness: "tti_a_l_b 5 10239"
  using tti_a_l_b_circular [of 5 10239] by simp

theorem tti_comparisons_consistent_witness: "tti_a_l_b 5 10239 \<noteq> tti_a_l_b 10239 5"
  using tti_comparisons_consistent [of 5 10239] by simp

lemma uint_wrap_tti: "uint (wrap_tti t) = uint t mod MAX_TTI"
  by (simp add: wrap_tti_def uint_mod)

lemma wrap_tti_bound [simp]: "uint (wrap_tti t) < MAX_TTI"
  by (simp add: uint_wrap_tti)

lemma wrap_tti_id: "uint t < MAX_TTI \<Longrightarrow> wrap_tti t = t"
  by (simp add: word_uint_eq_iff uint_wrap_tti)


section \<open>Nearest neighbours and correlation\<close>

text \<open>
  The loop of the nearest-neighbour searches: \<open>d\<close> is the distance of an element, the pair holds
  \<open>dist_min\<close> and \<open>idx\<close>. The first iteration sets \<open>dist_min\<close> unconditionally (the start value of
  \<open>dist_min\<close> is never compared).
\<close>

fun nn_scan :: "('a \<Rightarrow> int) \<Rightarrow> 'a list \<Rightarrow> int \<Rightarrow> int \<times> int \<Rightarrow> int \<times> int" where
  "nn_scan d [] i (dist_min, idx) = (dist_min, idx)"
| "nn_scan d (x # xs) i (dist_min, idx) =
     nn_scan d xs (i + 1)
       (if i = 0 then (d x, idx)
        else if d x < dist_min then (d x, i) else (dist_min, idx))"

definition nearest_neighbour_index :: "u64 list \<Rightarrow> u64 \<Rightarrow> int" where
  "nearest_neighbour_index xs num = snd (nn_scan (\<lambda>x. \<bar>long_of x - long_of num\<bar>) xs 0 (0, 0))"

definition nearest_neighbour :: "u64 list \<Rightarrow> u64 \<Rightarrow> u64 res" where
  "nearest_neighbour xs num =
     aget xs (snd (nn_scan (\<lambda>x. \<bar>long_of x - long_of num\<bar>) xs 0 (0, 0)))"

definition nearest_neighbour_w_offset :: "u64 list \<Rightarrow> u64 \<Rightarrow> int \<Rightarrow> u64 res" where
  "nearest_neighbour_w_offset xs num offset =
     aget xs (snd (nn_scan (\<lambda>x. \<bar>(long_of x + offset) - long_of num\<bar>) xs 0 (0, 0)))"

definition nearest_neighbour_dist_w_offset :: "u64 list \<Rightarrow> u64 \<Rightarrow> int \<Rightarrow> int" where
  "nearest_neighbour_dist_w_offset xs num offset =
     fst (nn_scan (\<lambda>x. \<bar>(long_of x + offset) - long_of num\<bar>) xs 0 (0, 0))"

definition correlate_2_vec :: "u64 list \<Rightarrow> u64 list \<Rightarrow> int res" where
  "correlate_2_vec array1 array2 =
     for_each (\<lambda>x dist. bindE (nearest_neighbour array2 x) (\<lambda>element.
       Inr (dist + \<bar>long_of element - long_of x\<bar>))) array1 0"

definition correlate_2_vec_w_offset :: "u64 list \<Rightarrow> u64 list \<Rightarrow> int \<Rightarrow> int" where
  "correlate_2_vec_w_offset array1 array2 offset =
     foldl (\<lambda>dist x. dist + nearest_neighbour_dist_w_offset array2 x offset) 0 array1"

definition shift_vec_w_offset :: "u64 list \<Rightarrow> int \<Rightarrow> u64 list" where
  "shift_vec_w_offset xs offset = map (\<lambda>x. x + of_int offset) xs"

lemma nn_scan_ext_scan:
  "0 < i \<Longrightarrow> nn_scan d xs i (dm, idx) = ext_scan (<) (map d xs) i (dm, idx)"
  by (induction xs arbitrary: i dm idx) auto

lemma nn_scan_argmin:
  assumes "xs \<noteq> []"
  shows "\<exists>k. nn_scan d xs 0 (dm, 0) = (d (xs ! k), int k) \<and> first_argmin d xs k"
proof -
  obtain x ys where xs: "xs = x # ys" using assms by (cases xs) auto
  have one: "first_argmin (\<lambda>v. v) [d x] 0" by (simp add: first_argmin_def)
  obtain v i where vi: "ext_scan (<) (map d ys) 1 (d x, 0) = (v, i)" by fastforce
  then obtain k where k: "i = int k" "v = map d xs ! k" "first_argmin (\<lambda>v. v) (map d xs) k"
    using ext_scan_argmin [OF _ one, of "(<)" "map d ys" v i] by (auto simp: xs)
  then have "first_argmin d xs k" by (auto simp: first_argmin_def)
  moreover have "v = d (xs ! k)" using k(2,3) by (simp add: first_argmin_def)
  moreover have "nn_scan d xs 0 (dm, 0) = (v, i)" using vi by (simp add: xs nn_scan_ext_scan)
  ultimately show ?thesis using k(1) by blast
qed

lemma nearest_neighbour_index_argmin:
  assumes "xs \<noteq> []"
  shows "\<exists>k. nearest_neighbour_index xs num = int k
    \<and> first_argmin (\<lambda>x. \<bar>long_of x - long_of num\<bar>) xs k"
  using nn_scan_argmin [OF assms, of "\<lambda>x. \<bar>long_of x - long_of num\<bar>" 0]
  by (auto simp: nearest_neighbour_index_def)

lemma nearest_neighbour_index_bounds:
  "xs \<noteq> [] \<Longrightarrow> 0 \<le> nearest_neighbour_index xs num \<and> nearest_neighbour_index xs num < int (length xs)"
  using nearest_neighbour_index_argmin [of xs num] by (auto simp: first_argmin_def)

lemma dist_w_offset_Min:
  assumes "xs \<noteq> []"
  shows "nearest_neighbour_dist_w_offset xs num offset =
    Min ((\<lambda>x. \<bar>(long_of x + offset) - long_of num\<bar>) ` set xs)"
  using nn_scan_argmin [OF assms, of "\<lambda>x. \<bar>(long_of x + offset) - long_of num\<bar>" 0]
  by (auto simp: nearest_neighbour_dist_w_offset_def dest: first_argmin_min)

lemma dist_w_offset_nonneg: "0 \<le> nearest_neighbour_dist_w_offset xs num offset"
proof (cases "xs = []")
  case True
  then show ?thesis by (simp add: nearest_neighbour_dist_w_offset_def)
next
  case False
  then show ?thesis by (simp add: dist_w_offset_Min)
qed

lemma correlate_2_vec_w_offset_sum:
  "correlate_2_vec_w_offset array1 array2 offset =
   sum_list (map (\<lambda>x. nearest_neighbour_dist_w_offset array2 x offset) array1)"
proof -
  have "foldl (\<lambda>dist x. dist + f x) a xs = a + sum_list (map f xs)" for f :: "u64 \<Rightarrow> int" and a xs
    by (induction xs arbitrary: a) auto
  then show ?thesis by (simp add: correlate_2_vec_w_offset_def)
qed

text \<open>
  The nearest neighbour that the search returns is an element of the array at the least distance
  from the number, and the first such element.
\<close>

theorem nearest_neighbour_nearest:
  assumes "xs \<noteq> []"
  shows "\<exists>k. nearest_neighbour xs num = Inr (xs ! k) \<and> k < length xs
    \<and> (\<forall>x \<in> set xs. \<bar>long_of (xs ! k) - long_of num\<bar> \<le> \<bar>long_of x - long_of num\<bar>)
    \<and> (\<forall>j < k. \<bar>long_of (xs ! k) - long_of num\<bar> < \<bar>long_of (xs ! j) - long_of num\<bar>)"
  using nn_scan_argmin [OF assms, of "\<lambda>x. \<bar>long_of x - long_of num\<bar>" 0]
  by (force simp: nearest_neighbour_def first_argmin_def in_set_conv_nth)


theorem nearest_neighbour_nearest_witness: "\<exists>x. nearest_neighbour [10, 20, 40] 27 = Inr x"
  using nearest_neighbour_nearest [of "[10, 20, 40]" 27] by auto

end
