(* ===== verification/Ngscope_Dci.thy ===== *)
theory Ngscope_Dci
  imports Ngscope_Util
begin

text \<open>
  Model of \<open>src/ngscope_dci.h\<close> and \<open>src/ngscope_dci.cc\<close>: the per-cell ring buffer of the last
  \<open>NOF_LOG_DCI\<close> downlink control messages, the carrier-aggregation header and tail computed over all
  cells, the detection of new retransmissions, and the extraction of the ring buffers into arrays.

  The C arrays of fixed size are lists of that length (\<open>ca_inv\<close>, \<open>dci_arrays\<close>). Every index is
  checked where the code uses it. The failure \<open>OutOfBounds\<close> of \<open>ca_update_header\<close> is the read of
  \<open>dci[-1]\<close> that the code performs when a cell's \<open>header\<close> is 0.
\<close>

abbreviation NOF_LOG_DCI :: int where "NOF_LOG_DCI \<equiv> 1000"
abbreviation MAX_NOF_RF_DEV :: nat where "MAX_NOF_RF_DEV \<equiv> 4"


section \<open>State\<close>

record ue_dci_t =
  ue_time_stamp :: u64
  ue_tti :: u16
  ue_dl_tbs :: u32
  ue_dl_reTx :: u8
  ue_dl_rv_flag :: bool
  ue_ul_tbs :: u32
  ue_ul_reTx :: u8
  ue_ul_rv_flag :: bool

text \<open>\<open>ue_dl_dci_t\<close> and \<open>ue_ul_dci_t\<close> have the same fields.\<close>

record ue_dl_dci_t =
  x_tbs :: "u32 list"
  x_reTx :: "u8 list"
  x_rv_flag :: "bool list"
  nof_reTx :: int
  reTx_t_us :: "u64 list"
  reTx_tti :: "u16 list"

type_synonym ue_ul_dci_t = ue_dl_dci_t

record ngscope_dci_t =
  nof_dci :: int
  d_ca_header :: int
  d_ca_tail :: int
  time_stamp_us :: "u64 list"
  d_tti :: "u16 list"
  d_curr_time :: u64
  dl_dci :: ue_dl_dci_t
  ul_dci :: ue_ul_dci_t

record ngscope_dci_cell_t =
  cell_prb :: int
  header :: int
  nof_logged_dci :: int
  recent_dl_reTx_t_us :: u64
  recent_ul_reTx_t_us :: u64
  recent_dl_reTx_tti :: u16
  recent_ul_reTx_tti :: u16
  dci :: "ue_dci_t list"

record ngscope_dci_CA_t =
  cell_dci :: "ngscope_dci_cell_t list"
  ca_ready :: bool
  ca_header :: int
  ca_tail :: int
  nof_cell :: int
  curr_time :: u64

definition zero_ue_dci :: ue_dci_t where
  "zero_ue_dci = \<lparr>ue_time_stamp = 0, ue_tti = 0, ue_dl_tbs = 0, ue_dl_reTx = 0, ue_dl_rv_flag = False,
     ue_ul_tbs = 0, ue_ul_reTx = 0, ue_ul_rv_flag = False\<rparr>"

definition ngscope_dci_cell_init :: ngscope_dci_cell_t where
  "ngscope_dci_cell_init =
     \<lparr>cell_prb = 50, header = 0, nof_logged_dci = 0,
      recent_dl_reTx_t_us = 0, recent_ul_reTx_t_us = 0,
      recent_dl_reTx_tti = 0, recent_ul_reTx_tti = 0,
      dci = replicate (nat NOF_LOG_DCI) zero_ue_dci\<rparr>"

definition ngscope_dci_CA_init :: ngscope_dci_CA_t where
  "ngscope_dci_CA_init =
     \<lparr>cell_dci = replicate MAX_NOF_RF_DEV ngscope_dci_cell_init, ca_ready = False,
      ca_header = 0, ca_tail = 0, nof_cell = 1, curr_time = 0\<rparr>"


section \<open>Inserting a message\<close>

definition find_dci_cell_tail :: "ngscope_dci_cell_t \<Rightarrow> u16 res" where
  "find_dci_cell_tail q =
     (let tail_idx = (header q - nof_logged_dci q + NOF_LOG_DCI) smod NOF_LOG_DCI
      in bindE (aget (dci q) tail_idx) (\<lambda>d. Inr (ue_tti d)))"

text \<open>
  The loop of \<open>ca_update_header\<close> over the cells collects the newest TTI, the oldest TTI and the
  newest timestamp of every cell, and whether all cells have a non-zero header.
\<close>

definition ca_collect ::
  "ngscope_dci_cell_t list \<Rightarrow> int \<Rightarrow> u16 list \<times> u16 list \<times> u64 list \<times> bool
     \<Rightarrow> (u16 list \<times> u16 list \<times> u64 list \<times> bool) res" where
  "ca_collect cells i acc =
     (case acc of (header_vec, tail_vec, ts, rdy) \<Rightarrow>
        bindE (aget cells i) (\<lambda>c.
        let cell_header = (header c - 1) smod NOF_LOG_DCI in
        bindE (aget (dci c) cell_header) (\<lambda>d.
        bindE (find_dci_cell_tail c) (\<lambda>t.
        Inr (header_vec @ [ue_tti d], tail_vec @ [t], ts @ [ue_time_stamp d],
             rdy \<and> header c \<noteq> 0)))))"

definition ca_update_header :: "ngscope_dci_CA_t \<Rightarrow> ngscope_dci_CA_t res" where
  "ca_update_header q =
     bindE (for_each (ca_collect (cell_dci q)) (range_int 0 (nof_cell q)) ([], [], [], True))
       (\<lambda>(header_vec, tail_vec, ts, rdy).
        if ca_ready q then
          bindE (unwrap_tti_array header_vec) (\<lambda>hs.
          bindE (min_in_array_uint16_v hs) (\<lambda>min_tti.
          bindE (max_in_array_uint16_v tail_vec) (\<lambda>max_tti.
          bindE (mean_array_uint64 ts) (\<lambda>ct.
          Inr (q\<lparr>ca_header := uint (wrap_tti min_tti),
                 ca_tail := uint (wrap_tti (max_tti + 1)),
                 curr_time := ct\<rparr>)))))
        else Inr (if rdy then q\<lparr>ca_ready := True\<rparr> else q))"

text \<open>The part of \<open>ngscope_dci_CA_insert\<close> that updates the ring buffer of one cell.\<close>

definition dci_cell_insert :: "ngscope_dci_cell_t \<Rightarrow> ue_dci_t \<Rightarrow> ngscope_dci_cell_t res" where
  "dci_cell_insert c ue =
     bindE (aget (dci c) ((header c - 1 + NOF_LOG_DCI) smod NOF_LOG_DCI)) (\<lambda>prev.
     bindE (aset (dci c) (header c) ue) (\<lambda>ds.
     let c1 = c\<lparr>dci := ds, header := (header c + 1) smod NOF_LOG_DCI\<rparr>;
         c2 = (if nof_logged_dci c1 < NOF_LOG_DCI
               then c1\<lparr>nof_logged_dci := nof_logged_dci c1 + 1\<rparr> else c1);
         c3 = (if ue_dl_reTx ue = 1
               then c2\<lparr>recent_dl_reTx_t_us := ue_time_stamp ue, recent_dl_reTx_tti := ue_tti ue\<rparr>
               else c2);
         c4 = (if ue_ul_reTx ue = 1
               then c3\<lparr>recent_ul_reTx_t_us := ue_time_stamp ue, recent_ul_reTx_tti := ue_tti ue\<rparr>
               else c3)
     in Inr c4))"

definition ngscope_dci_CA_insert ::
  "ngscope_dci_CA_t \<Rightarrow> ue_dci_t \<Rightarrow> u8 \<Rightarrow> ngscope_dci_CA_t res" where
  "ngscope_dci_CA_insert q ue cell_idx =
     bindE (aget (cell_dci q) (uint cell_idx)) (\<lambda>c.
     bindE (dci_cell_insert c ue) (\<lambda>c'.
     bindE (aset (cell_dci q) (uint cell_idx) c') (\<lambda>cells.
     ca_update_header (q\<lparr>cell_dci := cells\<rparr>))))"


section \<open>Detecting new retransmissions\<close>

text \<open>
  The loop over the cells; \<open>recent\<close> selects the downlink or the uplink timestamp. A tracker entry 0
  is not yet initialised.
\<close>

fun new_reTx_loop ::
  "(ngscope_dci_cell_t \<Rightarrow> u64) \<Rightarrow> ngscope_dci_cell_t list \<Rightarrow> u64 list \<Rightarrow> bool \<times> u64 list" where
  "new_reTx_loop recent [] us = (False, us)"
| "new_reTx_loop recent (c # cs) [] = (False, [])"
| "new_reTx_loop recent (c # cs) (u # us) =
     (if u = 0 then
        (case new_reTx_loop recent cs us of (b, us') \<Rightarrow>
           (b, (if recent c = 0 then u else recent c) # us'))
      else if u \<noteq> recent c then (True, u # us)
      else (case new_reTx_loop recent cs us of (b, us') \<Rightarrow> (b, u # us')))"

definition ngscope_dci_new_dl_reTx :: "ngscope_dci_CA_t \<Rightarrow> u64 list \<Rightarrow> (bool \<times> u64 list) res" where
  "ngscope_dci_new_dl_reTx q us =
     bindE (prefixE (nof_cell q) (cell_dci q)) (\<lambda>cells.
     bindE (guardE (length cells \<le> length us) OutOfBounds) (\<lambda>_.
     Inr (new_reTx_loop recent_dl_reTx_t_us cells us)))"

definition ngscope_dci_new_ul_reTx :: "ngscope_dci_CA_t \<Rightarrow> u64 list \<Rightarrow> (bool \<times> u64 list) res" where
  "ngscope_dci_new_ul_reTx q us =
     bindE (prefixE (nof_cell q) (cell_dci q)) (\<lambda>cells.
     bindE (guardE (length cells \<le> length us) OutOfBounds) (\<lambda>_.
     Inr (new_reTx_loop recent_ul_reTx_t_us cells us)))"

definition copy_reTx ::
  "(ngscope_dci_cell_t \<Rightarrow> u64) \<Rightarrow> ngscope_dci_CA_t \<Rightarrow> u64 list \<Rightarrow> u64 list res" where
  "copy_reTx recent q us =
     for_each (\<lambda>i us. bindE (aget (cell_dci q) i) (\<lambda>c. aset us i (recent c)))
       (range_int 0 (nof_cell q)) us"

definition ngscope_dci_copy_dl_reTx :: "ngscope_dci_CA_t \<Rightarrow> u64 list \<Rightarrow> u64 list res" where
  "ngscope_dci_copy_dl_reTx q us = copy_reTx recent_dl_reTx_t_us q us"

definition ngscope_dci_copy_ul_reTx :: "ngscope_dci_CA_t \<Rightarrow> u64 list \<Rightarrow> u64 list res" where
  "ngscope_dci_copy_ul_reTx q us = copy_reTx recent_ul_reTx_t_us q us"


section \<open>The ring buffer as a bounded log\<close>

text \<open>
  What a client of a bounded log relies on: the log starts empty, an insertion never fails, and the
  contents are the last \<open>cap\<close> entries, oldest first.
\<close>

locale bounded_log =
  fixes cap :: nat
    and start :: 's
    and ins :: "'s \<Rightarrow> 'a \<Rightarrow> 's res"
    and inv :: "'s \<Rightarrow> bool"
    and contents :: "'s \<Rightarrow> 'a list"
  assumes cap_pos: "0 < cap"
    and inv_start: "inv start"
    and contents_start: "contents start = []"
    and ins_spec: "inv s \<Longrightarrow> \<exists>s'. ins s x = Inr s' \<and> inv s' \<and> contents s' = lastn cap (contents s @ [x])"
begin

lemma ins_all_from:
  "inv s \<Longrightarrow> contents s = lastn cap ys \<Longrightarrow>
   \<exists>s'. for_each (\<lambda>x s. ins s x) xs s = Inr s' \<and> inv s' \<and> contents s' = lastn cap (ys @ xs)"
proof (induction xs arbitrary: s ys)
  case (Cons x xs)
  obtain t where t: "ins s x = Inr t" "inv t" "contents t = lastn cap (contents s @ [x])"
    using ins_spec [OF Cons.prems(1)] by blast
  have "contents t = lastn cap (ys @ [x])"
    using t(3) Cons.prems(2) lastn_snoc [OF cap_pos] by simp
  from Cons.IH [OF t(2) this] t(1) show ?case by simp
qed simp

lemma ins_all:
  "\<exists>s'. for_each (\<lambda>x s. ins s x) xs start = Inr s' \<and> inv s' \<and> contents s' = lastn cap xs"
  using ins_all_from [OF inv_start, of "[]" xs] by (simp add: contents_start)

lemma length_contents_ins_all:
  "for_each (\<lambda>x s. ins s x) xs start = Inr s' \<Longrightarrow> length (contents s') = min cap (length xs)"
  using ins_all [of xs] by auto

end

text \<open>The ring buffer of one cell: its invariant and its contents in order of arrival.\<close>

definition cell_inv :: "ngscope_dci_cell_t \<Rightarrow> bool" where
  "cell_inv c \<longleftrightarrow> int (length (dci c)) = NOF_LOG_DCI \<and> 0 \<le> header c \<and> header c < NOF_LOG_DCI
     \<and> 0 \<le> nof_logged_dci c \<and> nof_logged_dci c \<le> NOF_LOG_DCI
     \<and> (nof_logged_dci c < NOF_LOG_DCI \<longrightarrow> header c = nof_logged_dci c)"

definition ring_contents :: "ngscope_dci_cell_t \<Rightarrow> ue_dci_t list" where
  "ring_contents c =
     (if nof_logged_dci c < NOF_LOG_DCI then take (nat (nof_logged_dci c)) (dci c)
      else drop (nat (header c)) (dci c) @ take (nat (header c)) (dci c))"

lemma cell_inv_init: "cell_inv ngscope_dci_cell_init"
  by (simp add: cell_inv_def ngscope_dci_cell_init_def)

lemma ring_contents_init: "ring_contents ngscope_dci_cell_init = []"
  by (simp add: ring_contents_def ngscope_dci_cell_init_def)

lemma length_ring_contents: "cell_inv c \<Longrightarrow> int (length (ring_contents c)) = nof_logged_dci c"
  by (auto simp: cell_inv_def ring_contents_def)

lemma dci_cell_insert_eq:
  assumes "cell_inv c"
  shows "\<exists>c'. dci_cell_insert c ue = Inr c' \<and> dci c' = (dci c)[nat (header c) := ue]
    \<and> header c' = (header c + 1) mod NOF_LOG_DCI
    \<and> nof_logged_dci c' = min NOF_LOG_DCI (nof_logged_dci c + 1)
    \<and> recent_dl_reTx_t_us c' = (if ue_dl_reTx ue = 1 then ue_time_stamp ue else recent_dl_reTx_t_us c)
    \<and> recent_ul_reTx_t_us c' = (if ue_ul_reTx ue = 1 then ue_time_stamp ue else recent_ul_reTx_t_us c)"
proof -
  let ?p = "(header c - 1 + NOF_LOG_DCI) smod NOF_LOG_DCI"
  have "0 \<le> ?p" "nat ?p < length (dci c)"
    using assms by (auto simp: cell_inv_def smod_nonneg nat_less_iff)
  moreover have "nat (header c) < length (dci c)" using assms by (auto simp: cell_inv_def)
  ultimately show ?thesis
    using assms by (auto simp: dci_cell_insert_def aget_def aset_def cell_inv_def smod_nonneg min_def)
qed


lemma take_Suc_update: "n < length xs \<Longrightarrow> take (Suc n) (xs[n := x]) = take n xs @ [x]"
  by (simp add: take_Suc_conv_app_nth)

lemma dci_cell_insert_contents:
  assumes "cell_inv c" and "dci_cell_insert c ue = Inr c'"
  shows "cell_inv c'" and "ring_contents c' = lastn (nat NOF_LOG_DCI) (ring_contents c @ [ue])"
proof -
  define h where "h = nat (header c)"
  obtain c'' where c'': "dci_cell_insert c ue = Inr c''" "dci c'' = (dci c)[h := ue]"
    "header c'' = (header c + 1) mod NOF_LOG_DCI"
    "nof_logged_dci c'' = min NOF_LOG_DCI (nof_logged_dci c + 1)"
    using dci_cell_insert_eq [OF assms(1), of ue] by (auto simp: h_def)
  with assms(2) have c': "dci c' = (dci c)[h := ue]" "header c' = (header c + 1) mod NOF_LOG_DCI"
    "nof_logged_dci c' = min NOF_LOG_DCI (nof_logged_dci c + 1)" by simp_all
  have len: "length (dci c) = 1000" and h: "header c = int h" "h < 1000"
    using assms(1) by (auto simp: cell_inv_def h_def)
  show "cell_inv c'" using assms(1) by (auto simp: cell_inv_def c' min_def)
  have hmod: "(int h + 1) mod NOF_LOG_DCI = (if h = 999 then 0 else int h + 1)" using h(2) by auto
  have upd: "take h ((dci c)[h := ue]) = take h (dci c)"
    "drop (Suc h) ((dci c)[h := ue]) = drop (Suc h) (dci c)" by simp_all
  have full: "(dci c)[h := ue] = take h (dci c) @ [ue]" if "h = 999"
    using take_Suc_update [of h "dci c" ue] len that by simp
  show "ring_contents c' = lastn (nat NOF_LOG_DCI) (ring_contents c @ [ue])"
  proof (cases "nof_logged_dci c < NOF_LOG_DCI")
    case True
    then have n: "nof_logged_dci c = int h" using assms(1) h(1) by (simp add: cell_inv_def)
    then have "ring_contents c @ [ue] = take (Suc h) ((dci c)[h := ue])"
      using True h(2) len by (simp add: ring_contents_def take_Suc_update)
    moreover have "ring_contents c' = take (Suc h) ((dci c)[h := ue])"
    proof (cases "h = 999")
      case True
      then show ?thesis using n h(1) len hmod by (simp add: ring_contents_def c')
    next
      case False
      then have "int h + 1 < NOF_LOG_DCI" using h(2) by simp
      then show ?thesis using n by (simp add: ring_contents_def c' nat_add_distrib)
    qed
    moreover have "length (take (Suc h) ((dci c)[h := ue])) \<le> 1000" using h(2) by simp
    ultimately show ?thesis by (simp add: lastn_short)
  next
    case False
    then have n: "nof_logged_dci c = NOF_LOG_DCI" using assms(1) by (simp add: cell_inv_def)
    have "lastn (nat NOF_LOG_DCI) (ring_contents c @ [ue])
        = drop (Suc h) (dci c) @ take h (dci c) @ [ue]"
      using n h len by (simp add: ring_contents_def lastn_def)
    also have "\<dots> = ring_contents c'"
    proof (cases "h = 999")
      case True
      then show ?thesis using n h(1) hmod len full by (simp add: ring_contents_def c')
    next
      case False
      then have "ring_contents c' = drop (Suc h) ((dci c)[h := ue]) @ take (Suc h) ((dci c)[h := ue])"
        using n h hmod by (simp add: ring_contents_def c' nat_add_distrib)
      then show ?thesis using len h(2) by (simp add: take_Suc_update)
    qed
    finally show ?thesis by simp
  qed
qed

interpretation dci_log: bounded_log "nat NOF_LOG_DCI" ngscope_dci_cell_init dci_cell_insert
  cell_inv ring_contents
proof unfold_locales
  fix s x assume "cell_inv s"
  then show "\<exists>s'. dci_cell_insert s x = Inr s' \<and> cell_inv s' \<and>
      ring_contents s' = lastn (nat NOF_LOG_DCI) (ring_contents s @ [x])"
    using dci_cell_insert_eq [of s x] dci_cell_insert_contents [of s x] by blast
qed (simp_all add: cell_inv_init ring_contents_init)

text \<open>
  C11. Any sequence of messages can be inserted into a fresh cell, and the ring buffer then holds the
  last 1000 of them in order of arrival.
\<close>

theorem dci_ring_holds_last_messages:
  "\<exists>c. for_each (\<lambda>ue c. dci_cell_insert c ue) ues ngscope_dci_cell_init = Inr c
    \<and> cell_inv c \<and> ring_contents c = lastn (nat NOF_LOG_DCI) ues"
  by (rule dci_log.ins_all)


section \<open>The out-of-bounds read of the carrier-aggregation update\<close>

definition ca_inv :: "ngscope_dci_CA_t \<Rightarrow> bool" where
  "ca_inv q \<longleftrightarrow> length (cell_dci q) = MAX_NOF_RF_DEV \<and> list_all cell_inv (cell_dci q)
     \<and> 0 \<le> nof_cell q \<and> nof_cell q \<le> int MAX_NOF_RF_DEV"

lemma ca_inv_init: "ca_inv ngscope_dci_CA_init"
  by (simp add: ca_inv_def ngscope_dci_CA_init_def cell_inv_init list_all_iff)

lemma ca_inv_cell: "ca_inv q \<Longrightarrow> i < MAX_NOF_RF_DEV \<Longrightarrow> cell_inv (cell_dci q ! i)"
  by (simp add: ca_inv_def list_all_length)

lemma find_dci_cell_tail_ok: "cell_inv c \<Longrightarrow> \<exists>t. find_dci_cell_tail c = Inr t"
proof -
  assume c: "cell_inv c"
  let ?t = "(header c - nof_logged_dci c + NOF_LOG_DCI) smod NOF_LOG_DCI"
  have "0 \<le> header c - nof_logged_dci c + NOF_LOG_DCI" using c by (auto simp: cell_inv_def)
  then have "0 \<le> ?t" "nat ?t < length (dci c)"
    using c by (auto simp: cell_inv_def smod_nonneg nat_less_iff)
  then show ?thesis by (simp add: find_dci_cell_tail_def aget_def)
qed

lemma ca_collect_cell:
  assumes "i < length cells" and "cell_inv (cells ! i)"
  shows "if header (cells ! i) = 0 then ca_collect cells (int i) acc = Inl OutOfBounds
    else \<exists>h t ts. ca_collect cells (int i) acc =
      Inr (fst acc @ [h], fst (snd acc) @ [t], fst (snd (snd acc)) @ [ts], snd (snd (snd acc)))"
proof (cases "header (cells ! i) = 0")
  case True
  have "(header (cells ! i) - 1) smod NOF_LOG_DCI = - 1"
    using True by (simp add: signed_modulo_int_def)
  then have "aget (dci (cells ! i)) ((header (cells ! i) - 1) smod NOF_LOG_DCI) = Inl OutOfBounds"
    by (simp only: aget_def) simp
  then show ?thesis
    using assms True by (cases acc) (simp add: ca_collect_def del: signed_modulo_int_def)
next
  case False
  then have "0 \<le> header (cells ! i) - 1" "header (cells ! i) - 1 < NOF_LOG_DCI"
    using assms(2) by (auto simp: cell_inv_def)
  then have "aget (dci (cells ! i)) ((header (cells ! i) - 1) smod NOF_LOG_DCI)
      = Inr (dci (cells ! i) ! nat (header (cells ! i) - 1))"
    using assms(2) by (auto simp: smod_nonneg aget_def cell_inv_def)
  then show ?thesis
    using assms False find_dci_cell_tail_ok [OF assms(2)] by (cases acc) (auto simp: ca_collect_def)
qed

lemma ca_collect_all:
  assumes "n \<le> length cells" and "list_all cell_inv cells"
  shows "if \<exists>i < n. header (cells ! i) = 0
    then for_each (ca_collect cells) (range_int 0 (int n)) ([], [], [], rdy) = Inl OutOfBounds
    else \<exists>hs tails ts. for_each (ca_collect cells) (range_int 0 (int n)) ([], [], [], rdy)
           = Inr (hs, tails, ts, rdy) \<and> length hs = n \<and> length tails = n \<and> length ts = n"
  using assms
proof (induction n)
  case (Suc n)
  have inv: "cell_inv (cells ! n)" using Suc.prems by (simp add: list_all_length)
  have split: "range_int 0 (int (Suc n)) = range_int 0 (int n) @ [int n]"
    unfolding range_int_nat by simp
  show ?case
  proof (cases "\<exists>i < n. header (cells ! i) = 0")
    case True
    then have "\<exists>i < Suc n. header (cells ! i) = 0" using less_SucI by blast
    moreover have "for_each (ca_collect cells) (range_int 0 (int n)) ([], [], [], rdy) = Inl OutOfBounds"
      using Suc True by (simp del: of_nat_Suc)
    ultimately show ?thesis by (simp add: split for_each_append del: of_nat_Suc)
  next
    case False
    moreover have "n \<le> length cells" using Suc.prems(1) by simp
    note IH = Suc.IH [OF this Suc.prems(2)]
    ultimately obtain hs tails ts where
      r: "for_each (ca_collect cells) (range_int 0 (int n)) ([], [], [], rdy) = Inr (hs, tails, ts, rdy)"
      "length hs = n" "length tails = n" "length ts = n"
      using IH unfolding if_not_P [OF False] by blast
    have iff: "(\<exists>i < Suc n. header (cells ! i) = 0) \<longleftrightarrow> header (cells ! n) = 0"
      using False by (auto simp: less_Suc_eq)
    show ?thesis
      using ca_collect_cell [OF _ inv, of "(hs, tails, ts, rdy)"] Suc.prems(1) r
      by (auto simp: iff split for_each_append simp del: of_nat_Suc)
  qed
qed simp

lemma unwrap_tti_array_ok: "xs \<noteq> [] \<Longrightarrow> \<exists>ys. unwrap_tti_array xs = Inr ys \<and> length ys = length xs"
  by (auto simp: unwrap_tti_array_def max_in_array_uint16_v_Max)

text \<open>
  The update fails exactly when one of the configured cells has header 0, that is, when it has
  received no message yet or when its ring buffer has just wrapped around.
\<close>

lemma ca_update_header_cases:
  assumes "ca_inv q" and "0 < nof_cell q"
  shows "if \<exists>i < nat (nof_cell q). header (cell_dci q ! i) = 0
    then ca_update_header q = Inl OutOfBounds
    else \<exists>q'. ca_update_header q = Inr q' \<and> cell_dci q' = cell_dci q \<and> nof_cell q' = nof_cell q"
proof -
  let ?n = "nat (nof_cell q)"
  have n: "nof_cell q = int ?n" "?n \<le> length (cell_dci q)" "0 < ?n"
    using assms by (auto simp: ca_inv_def)
  have inv: "list_all cell_inv (cell_dci q)" using assms(1) by (simp add: ca_inv_def)
  note all = ca_collect_all [OF n(2) inv, of True]
  show ?thesis
  proof (cases "\<exists>i < ?n. header (cell_dci q ! i) = 0")
    case True
    then have "for_each (ca_collect (cell_dci q)) (range_int 0 (nof_cell q)) ([], [], [], True)
        = Inl OutOfBounds"
      using all unfolding if_P [OF True] n(1) [symmetric] by simp
    then show ?thesis using True by (simp add: ca_update_header_def)
  next
    case False
    then obtain hs tails ts where
      r: "for_each (ca_collect (cell_dci q)) (range_int 0 (nof_cell q)) ([], [], [], True)
        = Inr (hs, tails, ts, True)" and ne: "hs \<noteq> []" "tails \<noteq> []" "ts \<noteq> []"
      using all n(3) unfolding if_not_P [OF False] n(1) [symmetric] by fastforce
    obtain ys where "unwrap_tti_array hs = Inr ys" "ys \<noteq> []"
      using unwrap_tti_array_ok [OF ne(1)] ne(1) by force
    then have "\<exists>q'. ca_update_header q = Inr q' \<and> cell_dci q' = cell_dci q \<and> nof_cell q' = nof_cell q"
      using r ne by (simp add: ca_update_header_def min_in_array_uint16_v_Min
          max_in_array_uint16_v_Max mean_array_uint64_def)
    then show ?thesis unfolding if_not_P [OF False] .
  qed
qed


lemma next_header_0:
  "0 \<le> h \<Longrightarrow> h < NOF_LOG_DCI \<Longrightarrow> (h + 1) mod NOF_LOG_DCI = 0 \<longleftrightarrow> h = NOF_LOG_DCI - 1"
  by (cases "h = 999") auto

definition cell_insert_wraps :: "ngscope_dci_CA_t \<Rightarrow> nat \<Rightarrow> bool" where
  "cell_insert_wraps q k \<longleftrightarrow> (\<exists>i < nat (nof_cell q).
     header (cell_dci q ! i) = (if i = k then NOF_LOG_DCI - 1 else 0))"

lemma CA_insert_step:
  assumes "ca_inv q" and "0 < nof_cell q" and "uint cell_idx < int MAX_NOF_RF_DEV"
  shows "\<exists>q1 c. ngscope_dci_CA_insert q ue cell_idx = ca_update_header q1 \<and> ca_inv q1
    \<and> nof_cell q1 = nof_cell q \<and> cell_dci q1 = (cell_dci q)[nat (uint cell_idx) := c]
    \<and> dci_cell_insert (cell_dci q ! nat (uint cell_idx)) ue = Inr c
    \<and> header c = (header (cell_dci q ! nat (uint cell_idx)) + 1) mod NOF_LOG_DCI"
proof -
  let ?k = "nat (uint cell_idx)"
  have k: "?k < MAX_NOF_RF_DEV" using assms(3) by (subst nat_less_iff) simp_all
  then have k: "?k < MAX_NOF_RF_DEV" "?k < length (cell_dci q)"
    using assms(1) by (simp_all add: ca_inv_def)
  have c: "cell_inv (cell_dci q ! ?k)" using ca_inv_cell [OF assms(1) k(1)] .
  obtain c' where c': "dci_cell_insert (cell_dci q ! ?k) ue = Inr c'"
    "header c' = (header (cell_dci q ! ?k) + 1) mod NOF_LOG_DCI"
    using dci_cell_insert_eq [OF c, of ue] by blast
  let ?q1 = "q\<lparr>cell_dci := (cell_dci q)[?k := c']\<rparr>"
  have "ca_inv ?q1"
    using assms(1) dci_cell_insert_contents(1) [OF c c'(1)] set_update_subset_insert [of "cell_dci q" ?k c']
    by (auto simp: ca_inv_def list_all_iff)
  moreover have "ngscope_dci_CA_insert q ue cell_idx = ca_update_header ?q1"
    using k c' by (simp add: ngscope_dci_CA_insert_def aget_def aset_def)
  ultimately show ?thesis using c' by (intro exI [of _ ?q1] exI [of _ c']) simp
qed

text \<open>
  C12. Inserting a message for cell \<open>k\<close> of the carrier-aggregation state never fails except by the
  out-of-bounds read of \<open>dci[-1]\<close>, and that read happens exactly when some configured cell has
  header 0 after the insertion: cell \<open>k\<close> itself with its 1000th, 2000th, .. message, or another
  configured cell that has no message yet or has just wrapped around. Otherwise the result satisfies
  the invariant again and the ring buffer of cell \<open>k\<close> has gained the message.
\<close>

theorem ngscope_dci_CA_insert_outcome:
  assumes "ca_inv q" and "0 < nof_cell q" and "uint cell_idx < int MAX_NOF_RF_DEV"
  shows "if cell_insert_wraps q (nat (uint cell_idx))
    then ngscope_dci_CA_insert q ue cell_idx = Inl OutOfBounds
    else \<exists>q'. ngscope_dci_CA_insert q ue cell_idx = Inr q' \<and> ca_inv q'
      \<and> ring_contents (cell_dci q' ! nat (uint cell_idx))
        = lastn (nat NOF_LOG_DCI) (ring_contents (cell_dci q ! nat (uint cell_idx)) @ [ue])"
proof -
  let ?k = "nat (uint cell_idx)"
  obtain q1 c where q1: "ngscope_dci_CA_insert q ue cell_idx = ca_update_header q1" "ca_inv q1"
    "nof_cell q1 = nof_cell q" "cell_dci q1 = (cell_dci q)[?k := c]"
    "dci_cell_insert (cell_dci q ! ?k) ue = Inr c"
    "header c = (header (cell_dci q ! ?k) + 1) mod NOF_LOG_DCI"
    using CA_insert_step [OF assms] by blast
  have k: "?k < MAX_NOF_RF_DEV" using assms(3) by (subst nat_less_iff) simp_all
  then have k: "?k < MAX_NOF_RF_DEV" "?k < length (cell_dci q)"
    using assms(1) by (simp_all add: ca_inv_def)
  have inv: "cell_inv (cell_dci q ! ?k)" using ca_inv_cell [OF assms(1) k(1)] .
  then have "0 \<le> header (cell_dci q ! ?k)" "header (cell_dci q ! ?k) < NOF_LOG_DCI"
    by (simp_all add: cell_inv_def)
  then have hc: "header c = 0 \<longleftrightarrow> header (cell_dci q ! ?k) = NOF_LOG_DCI - 1"
    unfolding q1(6) by (rule next_header_0)
  have nth: "cell_dci q1 ! i = (if i = ?k then c else cell_dci q ! i)" for i
    using k(2) by (simp add: q1(4))
  have wraps: "cell_insert_wraps q ?k \<longleftrightarrow> (\<exists>i < nat (nof_cell q1). header (cell_dci q1 ! i) = 0)"
  proof -
    have "header (cell_dci q1 ! i) = 0 \<longleftrightarrow> header (cell_dci q ! i) = (if i = ?k then NOF_LOG_DCI - 1 else 0)"
      for i using hc by (cases "i = ?k") (simp_all only: nth if_True if_False refl)
    then show ?thesis by (simp only: cell_insert_wraps_def q1(3))
  qed
  have ring: "ring_contents (cell_dci q1 ! ?k)
      = lastn (nat NOF_LOG_DCI) (ring_contents (cell_dci q ! ?k) @ [ue])"
    using dci_cell_insert_contents(2) [OF inv q1(5)] by (simp add: nth)
  have "0 < nof_cell q1" using assms(2) q1(3) by simp
  note cases = ca_update_header_cases [OF q1(2) this]
  show ?thesis
  proof (cases "cell_insert_wraps q ?k")
    case True
    with cases wraps q1(1) show ?thesis by simp
  next
    case False
    then obtain q' where q': "ca_update_header q1 = Inr q'" "cell_dci q' = cell_dci q1"
      "nof_cell q' = nof_cell q1"
      using cases unfolding wraps [symmetric] if_not_P [OF False] by blast
    then have "ca_inv q'" using q1(2) by (simp add: ca_inv_def)
    with q' ring q1(1) show ?thesis unfolding if_not_P [OF False] by metis
  qed
qed

theorem ngscope_dci_CA_insert_outcome_witness:
  "\<exists>q. ngscope_dci_CA_insert ngscope_dci_CA_init zero_ue_dci 0 = Inr q \<and> ca_inv q"
proof -
  have "\<not> cell_insert_wraps ngscope_dci_CA_init 0"
    by (simp add: cell_insert_wraps_def ngscope_dci_CA_init_def ngscope_dci_cell_init_def)
  then show ?thesis
    using ngscope_dci_CA_insert_outcome [of ngscope_dci_CA_init 0 zero_ue_dci] ca_inv_init
    by (auto simp: ngscope_dci_CA_init_def)
qed


section \<open>Extracting the ring buffers into arrays\<close>

definition zero_dl_dci :: ue_dl_dci_t where
  "zero_dl_dci = \<lparr>x_tbs = replicate (nat NOF_LOG_DCI) 0, x_reTx = replicate (nat NOF_LOG_DCI) 0,
     x_rv_flag = replicate (nat NOF_LOG_DCI) False, nof_reTx = 0,
     reTx_t_us = replicate (nat NOF_LOG_DCI) 0, reTx_tti = replicate (nat NOF_LOG_DCI) 0\<rparr>"

text \<open>What \<open>memset(q, 0, sizeof(ngscope_dci_t))\<close> leaves.\<close>

definition zero_dci :: ngscope_dci_t where
  "zero_dci = \<lparr>nof_dci = 0, d_ca_header = 0, d_ca_tail = 0,
     time_stamp_us = replicate (nat NOF_LOG_DCI) 0, d_tti = replicate (nat NOF_LOG_DCI) 0,
     d_curr_time = 0, dl_dci = zero_dl_dci, ul_dci = zero_dl_dci\<rparr>"

text \<open>The statements of \<open>extract_single_dci\<close> about one direction.\<close>

definition extract_direction ::
  "ue_dl_dci_t \<Rightarrow> int \<Rightarrow> ue_dci_t \<Rightarrow> u32 \<Rightarrow> u8 \<Rightarrow> bool \<Rightarrow> ue_dl_dci_t res" where
  "extract_direction x q_idx m tbs rx rv =
     bindE (aset (x_tbs x) q_idx tbs) (\<lambda>tbss.
     bindE (aset (x_reTx x) q_idx rx) (\<lambda>rxs.
     bindE (aset (x_rv_flag x) q_idx rv) (\<lambda>rvs.
     let x1 = x\<lparr>x_tbs := tbss, x_reTx := rxs, x_rv_flag := rvs\<rparr> in
     if rx \<noteq> 0 then
       bindE (aset (reTx_t_us x1) (nof_reTx x1) (ue_time_stamp m)) (\<lambda>ts.
       bindE (aset (reTx_tti x1) (nof_reTx x1) (ue_tti m)) (\<lambda>ttis.
       Inr (x1\<lparr>reTx_t_us := ts, reTx_tti := ttis, nof_reTx := nof_reTx x1 + 1\<rparr>)))
     else Inr x1)))"

definition extract_single_dci ::
  "ngscope_dci_cell_t \<Rightarrow> int \<Rightarrow> int \<Rightarrow> ngscope_dci_t \<Rightarrow> ngscope_dci_t res" where
  "extract_single_dci dci_cell q_idx p_idx q =
     bindE (aget (dci dci_cell) p_idx) (\<lambda>m.
     bindE (aset (d_tti q) q_idx (ue_tti m)) (\<lambda>ttis.
     bindE (aset (time_stamp_us q) q_idx (ue_time_stamp m)) (\<lambda>ts.
     bindE (extract_direction (dl_dci q) q_idx m (ue_dl_tbs m) (ue_dl_reTx m) (ue_dl_rv_flag m)) (\<lambda>dl.
     bindE (extract_direction (ul_dci q) q_idx m (ue_ul_tbs m) (ue_ul_reTx m) (ue_ul_rv_flag m)) (\<lambda>ul.
     Inr (q\<lparr>d_tti := ttis, time_stamp_us := ts, dl_dci := dl, ul_dci := ul\<rparr>))))))"

definition ngscope_dci_extract_single_cell :: "ngscope_dci_CA_t \<Rightarrow> int \<Rightarrow> ngscope_dci_t res" where
  "ngscope_dci_extract_single_cell dci_ca cell_idx =
     bindE (aget (cell_dci dci_ca) cell_idx) (\<lambda>c.
     let n = nof_logged_dci c;
         q0 = zero_dci\<lparr>nof_dci := n, d_ca_header := ca_header dci_ca, d_ca_tail := ca_tail dci_ca,
                d_curr_time := curr_time dci_ca\<rparr>
     in if n < NOF_LOG_DCI then for_each (\<lambda>i. extract_single_dci c i i) (range_int 0 n) q0
        else if n = NOF_LOG_DCI then
          for_each (\<lambda>i. extract_single_dci c i ((header c + i) smod NOF_LOG_DCI)) (range_int 0 n) q0
        else Inr q0)"

text \<open>The caller passes one array structure per cell; those past \<open>nof_cell\<close> are left alone.\<close>

definition ngscope_dci_extract_multi_cell ::
  "ngscope_dci_CA_t \<Rightarrow> ngscope_dci_t list \<Rightarrow> ngscope_dci_t list res" where
  "ngscope_dci_extract_multi_cell dci_ca qs =
     for_each (\<lambda>i qs. bindE (ngscope_dci_extract_single_cell dci_ca i) (aset qs i))
       (range_int 0 (nof_cell dci_ca)) qs"

definition add_prefix :: "int \<Rightarrow> int \<Rightarrow> u64 list \<Rightarrow> u64 list res" where
  "add_prefix n offset xs =
     bindE (prefixE n xs) (\<lambda>ys. Inr (map (\<lambda>t. t + of_int offset) ys @ drop (nat n) xs))"

definition ngscope_dci_sync_single_cell :: "int \<Rightarrow> ngscope_dci_t \<Rightarrow> ngscope_dci_t res" where
  "ngscope_dci_sync_single_cell offset q =
     bindE (add_prefix (nof_dci q) offset (time_stamp_us q)) (\<lambda>ts.
     bindE (add_prefix (nof_reTx (dl_dci q)) offset (reTx_t_us (dl_dci q))) (\<lambda>dl.
     bindE (add_prefix (nof_reTx (ul_dci q)) offset (reTx_t_us (ul_dci q))) (\<lambda>ul.
     Inr (q\<lparr>time_stamp_us := ts, dl_dci := dl_dci q \<lparr>reTx_t_us := dl\<rparr>,
            ul_dci := ul_dci q \<lparr>reTx_t_us := ul\<rparr>\<rparr>))))"

definition ngscope_dci_sync_multi_cell ::
  "int \<Rightarrow> int \<Rightarrow> ngscope_dci_t list \<Rightarrow> ngscope_dci_t list res" where
  "ngscope_dci_sync_multi_cell cells offset qs =
     for_each (\<lambda>i qs. bindE (aget qs i) (\<lambda>q.
         bindE (ngscope_dci_sync_single_cell offset q) (aset qs i)))
       (range_int 0 cells) qs"

text \<open>The retransmissions of the first \<open>cells\<close> cells, sorted.\<close>

definition collect_reTx :: "(ngscope_dci_t \<Rightarrow> 'a list) \<Rightarrow> ngscope_dci_t list \<Rightarrow> int \<Rightarrow> 'a list res" where
  "collect_reTx field qs cells =
     for_each (\<lambda>i acc. bindE (aget qs i) (\<lambda>q.
         bindE (prefixE (nof_reTx (dl_dci q)) (field q)) (\<lambda>xs. Inr (acc @ xs))))
       (range_int 0 cells) []"

definition ngscope_dci_get_reTx_t :: "ngscope_dci_t list \<Rightarrow> int \<Rightarrow> u64 list res" where
  "ngscope_dci_get_reTx_t qs cells =
     bindE (collect_reTx (\<lambda>q. reTx_t_us (dl_dci q)) qs cells) (\<lambda>xs. Inr (quick_sort_uint64 xs))"

definition ngscope_dci_get_reTx_tti :: "ngscope_dci_t list \<Rightarrow> int \<Rightarrow> u16 list res" where
  "ngscope_dci_get_reTx_tti qs cells =
     bindE (collect_reTx (\<lambda>q. reTx_tti (dl_dci q)) qs cells) (\<lambda>xs. Inr (quick_sort_uint16 xs))"

definition get_overlapping_tti :: "ngscope_dci_t list \<Rightarrow> int \<Rightarrow> (u16 \<times> u16) res" where
  "get_overlapping_tti qs cells =
     bindE (for_each (\<lambda>i acc. bindE (aget qs i) (\<lambda>q.
         bindE (aget (d_tti q) 0) (\<lambda>s.
         bindE (aget (d_tti q) (nof_dci q)) (\<lambda>e.
         Inr (fst acc @ [s], snd acc @ [e]))))) (range_int 0 cells) ([], [])) (\<lambda>(ss, es).
     bindE (max_tti_in_array ss) (\<lambda>start_tti.
     bindE (max_tti_in_array es) (\<lambda>end_tti.
     Inr (start_tti, end_tti))))"

text \<open>
  The trace of several cells is allocated for the TTIs from \<open>s_tti\<close> to \<open>e_tti\<close>, filled and dropped; only the
  array of its TTIs is written, up to and including index \<open>vec_len\<close>. The block sizes, flags and times
  are not written.
\<close>

definition extract_mutli_cell_trace :: "ngscope_dci_t list \<Rightarrow> int \<Rightarrow> u16 \<Rightarrow> u16 \<Rightarrow> int res" where
  "extract_mutli_cell_trace qs cells s_tti e_tti =
     (let vec_len = tti_distance s_tti e_tti + 1 in
      bindE (for_each (\<lambda>i ss. bindE (aget qs i) (\<lambda>q. bindE (prefixE (nof_dci q) (d_tti q)) (\<lambda>tti.
               Inr (ss @ [find_element_in_array_uint16 tti s_tti])))) (range_int 0 cells) []) (\<lambda>ss_idx.
      bindE (for_each (\<lambda>i tti. bindE (aset tti i (wrap_tti (of_int (i + uint s_tti)))) (\<lambda>tti'.
               for_each (\<lambda>j t. bindE (aget qs j) (\<lambda>q. bindE (aget ss_idx j) (\<lambda>ss.
                   bindE (aget (d_tti q) (ss + i)) (\<lambda>_. Inr t)))) (range_int 0 cells) tti'))
             (range_int 0 (vec_len + 1)) (replicate (nat vec_len) 0)) (\<lambda>_. Inr 1)))"

definition ngscope_dci_multi_cell_trace :: "ngscope_dci_t list \<Rightarrow> int \<Rightarrow> int res" where
  "ngscope_dci_multi_cell_trace qs cells = bindE (get_overlapping_tti qs cells) (\<lambda>_. Inr 1)"



text \<open>An array of \<open>NOF_LOG_DCI\<close> elements that starts with the list \<open>ys\<close>.\<close>

definition array_of :: "'a list \<Rightarrow> 'a list \<Rightarrow> bool" where
  "array_of xs ys \<longleftrightarrow> length xs = nat NOF_LOG_DCI \<and> take (length ys) xs = ys"

lemma array_of_Nil: "array_of (replicate (nat NOF_LOG_DCI) z) []"
  by (simp add: array_of_def)

lemma array_of_length: "array_of xs ys \<Longrightarrow> length ys \<le> nat NOF_LOG_DCI"
  unfolding array_of_def by (metis length_take min.cobounded1)

lemma array_of_snoc:
  assumes "array_of xs ys" and "length ys < nat NOF_LOG_DCI"
  shows "aset xs (int (length ys)) y = Inr (xs[length ys := y])"
    and "array_of (xs[length ys := y]) (ys @ [y])"
  using assms by (auto simp: array_of_def take_Suc_conv_app_nth)

text \<open>The arrays of one direction, and of a cell, that hold the messages \<open>ms\<close>.\<close>

definition direction_holds ::
  "(ue_dci_t \<Rightarrow> u32) \<Rightarrow> (ue_dci_t \<Rightarrow> u8) \<Rightarrow> (ue_dci_t \<Rightarrow> bool) \<Rightarrow> ue_dl_dci_t \<Rightarrow> ue_dci_t list \<Rightarrow> bool" where
  "direction_holds tbs rx rv x ms \<longleftrightarrow> array_of (x_tbs x) (map tbs ms) \<and> array_of (x_reTx x) (map rx ms)
     \<and> array_of (x_rv_flag x) (map rv ms)
     \<and> nof_reTx x = int (length (filter (\<lambda>m. rx m \<noteq> 0) ms))
     \<and> array_of (reTx_t_us x) (map ue_time_stamp (filter (\<lambda>m. rx m \<noteq> 0) ms))
     \<and> array_of (reTx_tti x) (map ue_tti (filter (\<lambda>m. rx m \<noteq> 0) ms))"

definition arrays_hold :: "ngscope_dci_t \<Rightarrow> ue_dci_t list \<Rightarrow> bool" where
  "arrays_hold q ms \<longleftrightarrow> array_of (d_tti q) (map ue_tti ms) \<and> array_of (time_stamp_us q) (map ue_time_stamp ms)
     \<and> direction_holds ue_dl_tbs ue_dl_reTx ue_dl_rv_flag (dl_dci q) ms
     \<and> direction_holds ue_ul_tbs ue_ul_reTx ue_ul_rv_flag (ul_dci q) ms"

lemma arrays_hold_zero:
  "arrays_hold (zero_dci\<lparr>nof_dci := n, d_ca_header := h, d_ca_tail := t, d_curr_time := ct\<rparr>) []"
  by (simp add: arrays_hold_def direction_holds_def zero_dci_def zero_dl_dci_def array_of_def)

lemma extract_direction_step:
  assumes d: "direction_holds tbs rx rv x ms" and len: "length ms < nat NOF_LOG_DCI"
  shows "\<exists>x'. extract_direction x (int (length ms)) m (tbs m) (rx m) (rv m) = Inr x'
    \<and> direction_holds tbs rx rv x' (ms @ [m])"
proof -
  let ?r = "filter (\<lambda>m. rx m \<noteq> 0) ms"
  have r: "length ?r < nat NOF_LOG_DCI" using len length_filter_le [of "\<lambda>m. rx m \<noteq> 0" ms] by linarith
  note snoc = array_of_snoc [of "x_tbs x" "map tbs ms" "tbs m"] array_of_snoc [of "x_reTx x" "map rx ms" "rx m"]
    array_of_snoc [of "x_rv_flag x" "map rv ms" "rv m"]
    array_of_snoc [of "reTx_t_us x" "map ue_time_stamp ?r" "ue_time_stamp m"]
    array_of_snoc [of "reTx_tti x" "map ue_tti ?r" "ue_tti m"]
  show ?thesis
    using d snoc len r by (auto simp: extract_direction_def direction_holds_def)
qed

lemma extract_single_dci_step:
  assumes "arrays_hold q ms" and len: "length ms < nat NOF_LOG_DCI"
    and "aget (dci c) p = Inr m"
  shows "\<exists>q'. extract_single_dci c (int (length ms)) p q = Inr q' \<and> arrays_hold q' (ms @ [m])
    \<and> nof_dci q' = nof_dci q \<and> d_ca_header q' = d_ca_header q \<and> d_ca_tail q' = d_ca_tail q
    \<and> d_curr_time q' = d_curr_time q"
proof -
  have h: "array_of (d_tti q) (map ue_tti ms)" "array_of (time_stamp_us q) (map ue_time_stamp ms)"
    "direction_holds ue_dl_tbs ue_dl_reTx ue_dl_rv_flag (dl_dci q) ms"
    "direction_holds ue_ul_tbs ue_ul_reTx ue_ul_rv_flag (ul_dci q) ms"
    using assms(1) by (simp_all add: arrays_hold_def)
  obtain dl where dl: "extract_direction (dl_dci q) (int (length ms)) m (ue_dl_tbs m) (ue_dl_reTx m)
      (ue_dl_rv_flag m) = Inr dl" "direction_holds ue_dl_tbs ue_dl_reTx ue_dl_rv_flag dl (ms @ [m])"
    using extract_direction_step [OF h(3) len] by blast
  obtain ul where ul: "extract_direction (ul_dci q) (int (length ms)) m (ue_ul_tbs m) (ue_ul_reTx m)
      (ue_ul_rv_flag m) = Inr ul" "direction_holds ue_ul_tbs ue_ul_reTx ue_ul_rv_flag ul (ms @ [m])"
    using extract_direction_step [OF h(4) len] by blast
  show ?thesis
    using array_of_snoc [OF h(1), of "ue_tti m"] array_of_snoc [OF h(2), of "ue_time_stamp m"]
      len dl ul assms(3) by (simp add: extract_single_dci_def arrays_hold_def)
qed

lemma extract_loop:
  assumes "arrays_hold q0 []" and "length ms \<le> nat NOF_LOG_DCI"
    and "\<And>i. i < length ms \<Longrightarrow> aget (dci c) (p (int i)) = Inr (ms ! i)"
  shows "\<exists>q. for_each (\<lambda>i. extract_single_dci c i (p i)) (range_int 0 (int (length ms))) q0 = Inr q
    \<and> arrays_hold q ms \<and> nof_dci q = nof_dci q0 \<and> d_ca_header q = d_ca_header q0
    \<and> d_ca_tail q = d_ca_tail q0 \<and> d_curr_time q = d_curr_time q0"
  using assms(2,3)
proof (induction ms rule: rev_induct)
  case Nil
  then show ?case using assms(1) by simp
next
  case (snoc m ms)
  have split: "range_int 0 (int (length (ms @ [m]))) = range_int 0 (int (length ms)) @ [int (length ms)]"
    unfolding range_int_nat by simp
  have "aget (dci c) (p (int i)) = Inr (ms ! i)" if "i < length ms" for i
    using snoc.prems(2) [of i] that by (simp add: nth_append)
  then obtain q where q: "for_each (\<lambda>i. extract_single_dci c i (p i)) (range_int 0 (int (length ms))) q0 = Inr q"
    "arrays_hold q ms" "nof_dci q = nof_dci q0" "d_ca_header q = d_ca_header q0"
    "d_ca_tail q = d_ca_tail q0" "d_curr_time q = d_curr_time q0"
    using snoc.IH snoc.prems(1) by auto
  have "length ms < nat NOF_LOG_DCI" using snoc.prems(1) by simp
  moreover have "aget (dci c) (p (int (length ms))) = Inr m" using snoc.prems(2) [of "length ms"] by simp
  ultimately obtain q' where "extract_single_dci c (int (length ms)) (p (int (length ms))) q = Inr q'"
    "arrays_hold q' (ms @ [m])" "nof_dci q' = nof_dci q" "d_ca_header q' = d_ca_header q"
    "d_ca_tail q' = d_ca_tail q" "d_curr_time q' = d_curr_time q"
    using extract_single_dci_step [OF q(2)] by blast
  then show ?case using q unfolding split by (simp add: for_each_append)
qed

lemma ring_contents_nth:
  assumes "cell_inv c" and "i < length (ring_contents c)"
  shows "nof_logged_dci c < NOF_LOG_DCI \<Longrightarrow> aget (dci c) (int i) = Inr (ring_contents c ! i)"
    and "nof_logged_dci c = NOF_LOG_DCI \<Longrightarrow>
      aget (dci c) ((header c + int i) smod NOF_LOG_DCI) = Inr (ring_contents c ! i)"
proof -
  assume "nof_logged_dci c < NOF_LOG_DCI"
  then show "aget (dci c) (int i) = Inr (ring_contents c ! i)"
    using assms by (auto simp: ring_contents_def cell_inv_def aget_def)
next
  assume n: "nof_logged_dci c = NOF_LOG_DCI"
  define h where "h = nat (header c)"
  have h: "header c = int h" "h < 1000" "length (dci c) = 1000" "i < 1000"
    using assms length_ring_contents [OF assms(1)] n by (auto simp: h_def cell_inv_def)
  have "(header c + int i) smod NOF_LOG_DCI = int ((h + i) mod 1000)"
    using h by (simp add: smod_nonneg zmod_int)
  moreover have "dci c ! ((h + i) mod 1000) = ring_contents c ! i"
    using h n by (cases "h + i < 1000") (auto simp: ring_contents_def nth_append mod_if add.commute)
  ultimately show "aget (dci c) ((header c + int i) smod NOF_LOG_DCI) = Inr (ring_contents c ! i)"
    using h(3) by simp
qed

text \<open>
  Extracting a cell yields arrays that hold, in order of arrival, exactly the messages of its ring
  buffer: their TTIs, timestamps, transport block sizes and flags, and, as separate prefixes of
  length \<open>nof_reTx\<close>, the timestamps and TTIs of the retransmissions of each direction.
\<close>

theorem extract_single_cell_holds_ring:
  assumes "ca_inv q" and "k < MAX_NOF_RF_DEV"
  shows "\<exists>d. ngscope_dci_extract_single_cell q (int k) = Inr d
    \<and> nof_dci d = int (length (ring_contents (cell_dci q ! k)))
    \<and> arrays_hold d (ring_contents (cell_dci q ! k))
    \<and> d_ca_header d = ca_header q \<and> d_ca_tail d = ca_tail q \<and> d_curr_time d = curr_time q"
proof -
  let ?c = "cell_dci q ! k"
  have c: "cell_inv ?c" using ca_inv_cell [OF assms] .
  have k: "aget (cell_dci q) (int k) = Inr ?c" using assms by (simp add: ca_inv_def)
  have n: "int (length (ring_contents ?c)) = nof_logged_dci ?c" using length_ring_contents [OF c] .
  then have le: "length (ring_contents ?c) \<le> nat NOF_LOG_DCI" using c by (simp add: cell_inv_def)
  note loop = extract_loop [OF arrays_hold_zero le, unfolded n]
  show ?thesis
  proof (cases "nof_logged_dci ?c < NOF_LOG_DCI")
    case True
    then show ?thesis
      using loop [of ?c "\<lambda>i. i" "curr_time q" "ca_tail q" "ca_header q" "nof_logged_dci ?c"]
        ring_contents_nth(1) [OF c _ True]
      by (auto simp: ngscope_dci_extract_single_cell_def k n)
  next
    case False
    then have full: "nof_logged_dci ?c = NOF_LOG_DCI" using c by (simp add: cell_inv_def)
    then show ?thesis
      using loop [of ?c "\<lambda>i. (header ?c + i) smod NOF_LOG_DCI" "curr_time q" "ca_tail q" "ca_header q" "nof_logged_dci ?c"]
        ring_contents_nth(2) [OF c _ full]
      by (auto simp: ngscope_dci_extract_single_cell_def k n)
  qed
qed


section \<open>Retransmissions\<close>

lemma new_reTx_loop_fst:
  "length cs \<le> length us \<Longrightarrow> fst (new_reTx_loop recent cs us) \<longleftrightarrow>
   (\<exists>i < length cs. us ! i \<noteq> 0 \<and> us ! i \<noteq> recent (cs ! i))"
proof (induction recent cs us rule: new_reTx_loop.induct)
  case (3 recent c cs u us)
  have "(\<exists>i < length (c # cs). (u # us) ! i \<noteq> 0 \<and> (u # us) ! i \<noteq> recent ((c # cs) ! i)) \<longleftrightarrow>
      (u \<noteq> 0 \<and> u \<noteq> recent c) \<or> (\<exists>i < length cs. us ! i \<noteq> 0 \<and> us ! i \<noteq> recent (cs ! i))"
    by (simp only: list.size Ex_less_Suc2 add_0_right add_Suc_right nth_Cons_0 nth_Cons_Suc)
  then show ?case using 3 by (auto split: prod.splits)
qed simp_all

lemma copy_reTx_prefix:
  assumes "n \<le> length (cell_dci q)" and "n \<le> length us"
  shows "for_each (\<lambda>i us. bindE (aget (cell_dci q) i) (\<lambda>c. aset us i (recent c))) (range_int 0 (int n)) us
    = Inr (map recent (take n (cell_dci q)) @ drop n us)"
  using assms
proof (induction n)
  case (Suc n)
  have split: "range_int 0 (int (Suc n)) = range_int 0 (int n) @ [int n]"
    unfolding range_int_nat by simp
  have "(map recent (take n (cell_dci q)) @ drop n us)[n := recent (cell_dci q ! n)]
      = map recent (take (Suc n) (cell_dci q)) @ drop (Suc n) us"
    using Suc.prems by (simp add: take_Suc_conv_app_nth list_update_append Cons_nth_drop_Suc [symmetric])
  then show ?case
    using Suc unfolding split by (simp add: for_each_append)
qed simp

lemma ngscope_dci_copy_dl_reTx_eq:
  assumes "ca_inv q" and "length us = MAX_NOF_RF_DEV"
  shows "ngscope_dci_copy_dl_reTx q us = Inr (map recent_dl_reTx_t_us (take (nat (nof_cell q)) (cell_dci q))
           @ drop (nat (nof_cell q)) us)"
proof -
  have "nof_cell q = int (nat (nof_cell q))" "nat (nof_cell q) \<le> length (cell_dci q)"
    "nat (nof_cell q) \<le> length us"
    using assms by (auto simp: ca_inv_def)
  then show ?thesis
    using copy_reTx_prefix [of "nat (nof_cell q)" q us recent_dl_reTx_t_us]
    by (simp only: ngscope_dci_copy_dl_reTx_def copy_reTx_def)
qed

text \<open>
  After the receiver has copied the most recent downlink retransmission times of state \<open>q\<close> into
  its tracker, a later state \<open>q'\<close> with as many cells is reported to have a new retransmission exactly
  when some cell that had a (non-zero) time in \<open>q\<close> has a different one in \<open>q'\<close>: no retransmission is
  reported twice and none of such a cell is missed.
\<close>

theorem new_dl_reTx_after_copy:
  assumes "ca_inv q" and "ca_inv q'" and "nof_cell q' = nof_cell q" and "length us = MAX_NOF_RF_DEV"
  shows "\<exists>us1 b us2. ngscope_dci_copy_dl_reTx q us = Inr us1 \<and> ngscope_dci_new_dl_reTx q' us1 = Inr (b, us2)
    \<and> (b \<longleftrightarrow> (\<exists>i < nat (nof_cell q). recent_dl_reTx_t_us (cell_dci q ! i) \<noteq> 0
              \<and> recent_dl_reTx_t_us (cell_dci q' ! i) \<noteq> recent_dl_reTx_t_us (cell_dci q ! i)))"
proof -
  define n where "n = nat (nof_cell q)"
  define us1 where "us1 = map recent_dl_reTx_t_us (take n (cell_dci q)) @ drop n us"
  have n: "nof_cell q = int n" "n \<le> length (cell_dci q)" "n \<le> length (cell_dci q')" "n \<le> length us"
    using assms by (auto simp: n_def ca_inv_def)
  have copy: "ngscope_dci_copy_dl_reTx q us = Inr us1"
    using ngscope_dci_copy_dl_reTx_eq [OF assms(1,4)] by (simp add: us1_def n_def)
  let ?loop = "new_reTx_loop recent_dl_reTx_t_us (take n (cell_dci q')) us1"
  have new: "ngscope_dci_new_dl_reTx q' us1 = Inr (fst ?loop, snd ?loop)"
    using n assms(3) by (simp add: ngscope_dci_new_dl_reTx_def us1_def)
  have nth: "us1 ! i = recent_dl_reTx_t_us (cell_dci q ! i)" if "i < n" for i
    using that n by (simp add: us1_def nth_append)
  have "fst ?loop \<longleftrightarrow> (\<exists>i < n. us1 ! i \<noteq> 0 \<and> us1 ! i \<noteq> recent_dl_reTx_t_us (cell_dci q' ! i))"
    using n by (subst new_reTx_loop_fst) (auto simp: us1_def)
  also have "\<dots> \<longleftrightarrow> (\<exists>i < n. recent_dl_reTx_t_us (cell_dci q ! i) \<noteq> 0
      \<and> recent_dl_reTx_t_us (cell_dci q' ! i) \<noteq> recent_dl_reTx_t_us (cell_dci q ! i))"
    using nth by metis
  finally show ?thesis using copy new by (simp add: n_def)
qed

theorem new_dl_reTx_after_copy_witness:
  "\<exists>us1 us2. ngscope_dci_copy_dl_reTx ngscope_dci_CA_init [0, 0, 0, 0] = Inr us1
    \<and> ngscope_dci_new_dl_reTx ngscope_dci_CA_init us1 = Inr (False, us2)"
  using new_dl_reTx_after_copy [OF ca_inv_init ca_inv_init refl, of "[0, 0, 0, 0]"]
  by simp metis

theorem extract_single_cell_holds_ring_witness:
  "\<exists>d. ngscope_dci_extract_single_cell ngscope_dci_CA_init 0 = Inr d \<and> nof_dci d = 0"
  using extract_single_cell_holds_ring [OF ca_inv_init, of 0]
  by (auto simp: ngscope_dci_CA_init_def ring_contents_init)

lemma collect_reTx_eq:
  assumes "n \<le> length qs" and "\<forall>q \<in> set qs. nof_reTx (dl_dci q) \<le> int (length (field q))"
  shows "collect_reTx field qs (int n)
    = Inr (concat (map (\<lambda>q. take (nat (nof_reTx (dl_dci q))) (field q)) (take n qs)))"
  using assms(1)
proof (induction n)
  case (Suc n)
  have split: "range_int 0 (int (Suc n)) = range_int 0 (int n) @ [int n]"
    unfolding range_int_nat by simp
  have "prefixE (nof_reTx (dl_dci (qs ! n))) (field (qs ! n))
      = Inr (take (nat (nof_reTx (dl_dci (qs ! n)))) (field (qs ! n)))"
    using assms(2) Suc.prems by (simp add: prefixE_def)
  moreover have "collect_reTx field qs (int n)
      = Inr (concat (map (\<lambda>q. take (nat (nof_reTx (dl_dci q))) (field q)) (take n qs)))"
    using Suc by simp
  ultimately show ?case
    using Suc.prems unfolding collect_reTx_def split
    by (simp add: for_each_append take_Suc_conv_app_nth)
qed (simp add: collect_reTx_def)

text \<open>
  The retransmission TTIs handed to the re-ordering analysis are those of all cells, each
  occurrence kept, in ascending order.
\<close>

theorem get_reTx_tti_sorted:
  assumes "\<forall>q \<in> set qs. nof_reTx (dl_dci q) \<le> int (length (reTx_tti (dl_dci q)))"
  shows "\<exists>ttis. ngscope_dci_get_reTx_tti qs (int (length qs)) = Inr ttis \<and> sorted ttis
    \<and> mset ttis = (\<Sum>q \<in># mset qs. mset (take (nat (nof_reTx (dl_dci q))) (reTx_tti (dl_dci q))))"
proof -
  let ?f = "\<lambda>q. take (nat (nof_reTx (dl_dci q))) (reTx_tti (dl_dci q))"
  have "ngscope_dci_get_reTx_tti qs (int (length qs)) = Inr (quick_sort_uint16 (concat (map ?f qs)))"
    using collect_reTx_eq [of "length qs" qs "\<lambda>q. reTx_tti (dl_dci q)"] assms
    by (simp add: ngscope_dci_get_reTx_tti_def)
  moreover have "mset (concat (map ?f qs)) = (\<Sum>q \<in># mset qs. mset (?f q))"
    by (induction qs) auto
  ultimately show ?thesis
    using quick_sort_uint16_sorted by (simp add: quick_sort_uint16_def)
qed

theorem get_reTx_tti_sorted_witness:
  "\<exists>ttis. ngscope_dci_get_reTx_tti [zero_dci] 1 = Inr ttis \<and> sorted ttis"
  using get_reTx_tti_sorted [of "[zero_dci]"] by (auto simp: zero_dci_def zero_dl_dci_def)


section \<open>The trace of several cells\<close>

lemma for_each_invariant:
  assumes "for_each f xs s = Inr s'" and "P s" and "\<And>x s s'. P s \<Longrightarrow> f x s = Inr s' \<Longrightarrow> P s'"
  shows "P s'"
  using assms(1,2) by (induction xs arbitrary: s) (auto simp: bindE_eq_Inr intro: assms(3))

text \<open>Whatever the cells contain, the trace is never extracted: the last element is written outside its array.\<close>

theorem multi_cell_trace_overruns:
  assumes "s_tti < 10240"
  shows "\<exists>e. extract_mutli_cell_trace qs cells s_tti e_tti = Inl e"
proof (rule ccontr)
  define n where "n = tti_distance s_tti e_tti + 1"
  have e: "0 \<le> uint e_tti" and lt: "uint s_tti < 10240" using assms by (simp_all add: word_less_def)
  have pos: "0 \<le> n"
  proof (cases "s_tti < e_tti")
    case True
    then have "uint s_tti < uint e_tti" by (simp only: word_less_def)
    then show ?thesis unfolding n_def tti_distance_def if_P [OF True] by linarith
  next
    case False
    then show ?thesis unfolding n_def tti_distance_def if_not_P [OF False] using e lt by linarith
  qed
  assume "\<nexists>e. extract_mutli_cell_trace qs cells s_tti e_tti = Inl e"
  then obtain r where "extract_mutli_cell_trace qs cells s_tti e_tti = Inr r"
    by (cases "extract_mutli_cell_trace qs cells s_tti e_tti") auto
  then obtain ss t where "for_each (\<lambda>i tti. bindE (aset tti i (wrap_tti (of_int (i + uint s_tti)))) (\<lambda>tti'.
               for_each (\<lambda>j t. bindE (aget qs j) (\<lambda>q. bindE (aget ss j) (\<lambda>k.
                   bindE (aget (d_tti q) (k + i)) (\<lambda>_. Inr t)))) (range_int 0 cells) tti'))
             (range_int 0 (n + 1)) (replicate (nat n) 0) = Inr t"
    unfolding extract_mutli_cell_trace_def Let_def n_def [symmetric] by (auto simp: bindE_eq_Inr)
  moreover have "range_int 0 (n + 1) = range_int 0 n @ [n]" using pos by (simp add: range_int_def upto_rec2)
  ultimately obtain t1 where t1: "for_each (\<lambda>i tti. bindE (aset tti i (wrap_tti (of_int (i + uint s_tti)))) (\<lambda>tti'.
               for_each (\<lambda>j t. bindE (aget qs j) (\<lambda>q. bindE (aget ss j) (\<lambda>k.
                   bindE (aget (d_tti q) (k + i)) (\<lambda>_. Inr t)))) (range_int 0 cells) tti'))
             (range_int 0 n) (replicate (nat n) 0) = Inr t1" "\<exists>t2 v. aset t1 n v = Inr t2"
    by (auto simp: for_each_append bindE_eq_Inr)
  have "length t1 = nat n"
    by (rule for_each_invariant [OF t1(1)])
      (auto simp: bindE_eq_Inr aset_eq_Inr dest!: for_each_invariant [where P = "\<lambda>t. length t = nat n"])
  then show False using t1(2) by (auto simp: aset_eq_Inr)
qed

end
