(* ===== verification/Ngscope_Dci_Recv.thy ===== *)
theory Ngscope_Dci_Recv
  imports Ngscope_Dci
begin

text \<open>
  Model of \<open>src/ngscope_dci_recv.cc\<close>: parsing the datagrams of control messages and configurations
  that NG-Scope sends, and feeding them into the carrier-aggregation state of \<open>Ngscope_Dci\<close>.

  The receive buffer is the list of all its bytes; \<open>recvLen\<close> of them belong to the datagram, the
  others are left over from earlier ones. Every read is checked against the buffer. The sockets are
  not modelled: a datagram is an argument. Log files and \<open>printf\<close> have no effect on the state.
\<close>


section \<open>State and byte access\<close>

record recv_state =
  rs_dci_ca :: ngscope_dci_CA_t
  nof_dl_reTx_per_cell :: "int list"
  nof_ul_reTx_per_cell :: "int list"
  rs_go_exit :: bool

definition recv_state_init :: recv_state where
  "recv_state_init = \<lparr>rs_dci_ca = ngscope_dci_CA_init, nof_dl_reTx_per_cell = replicate 4 0,
     nof_ul_reTx_per_cell = replicate 4 0, rs_go_exit = False\<rparr>"

text \<open>\<open>memcpy\<close> of a little-endian \<open>uint16_t\<close>, and of a \<open>uint32_t\<close> followed by \<open>ntohl\<close>.\<close>

definition le16 :: "u8 \<Rightarrow> u8 \<Rightarrow> u16" where
  "le16 a b = of_int (uint a + 256 * uint b)"

definition be32 :: "u8 \<Rightarrow> u8 \<Rightarrow> u8 \<Rightarrow> u8 \<Rightarrow> u32" where
  "be32 a b c d = of_int (uint d + 256 * (uint c + 256 * (uint b + 256 * uint a)))"

definition read_le16 :: "u8 list \<Rightarrow> int \<Rightarrow> u16 res" where
  "read_le16 buf i = bindE (aget buf i) (\<lambda>a. bindE (aget buf (i + 1)) (\<lambda>b. Inr (le16 a b)))"

definition read_be32 :: "u8 list \<Rightarrow> int \<Rightarrow> u32 res" where
  "read_be32 buf i =
     bindE (aget buf i) (\<lambda>a. bindE (aget buf (i + 1)) (\<lambda>b.
     bindE (aget buf (i + 2)) (\<lambda>c. bindE (aget buf (i + 3)) (\<lambda>d. Inr (be32 a b c d)))))"

text \<open>The condition \<open>buf[i] == p && .. && buf[i+3] == p\<close>, which stops at the first difference.\<close>

fun same_bytes :: "u8 list \<Rightarrow> int \<Rightarrow> u8 list \<Rightarrow> bool res" where
  "same_bytes buf i [] = Inr True"
| "same_bytes buf i (p # ps) =
     bindE (aget buf i) (\<lambda>b. if b = p then same_bytes buf (i + 1) ps else Inr False)"


section \<open>Parsing\<close>

text \<open>One direction of a version-0 message: \<open>None\<close> when the datagram is too short.\<close>

definition recv_direction :: "u8 list \<Rightarrow> int \<Rightarrow> int \<Rightarrow> ((u8 \<times> u32) \<times> int) option res" where
  "recv_direction recvBuf buf_idx recvLen =
     (if buf_idx + 4 \<ge> recvLen then Inr None
      else bindE (aget recvBuf buf_idx) (\<lambda>rx.
           bindE (read_be32 recvBuf (buf_idx + 1)) (\<lambda>tbs.
           Inr (Some ((rx, tbs), buf_idx + 5)))))"

text \<open>The result is the next index, or -1 as in the code, and the message.\<close>

definition recv_dci_ver1 :: "ue_dci_t \<Rightarrow> u8 list \<Rightarrow> int \<Rightarrow> int \<Rightarrow> (int \<times> ue_dci_t) res" where
  "recv_dci_ver1 ue_dci recvBuf buf_idx recvLen =
     (if buf_idx \<ge> recvLen then Inr (- 1, ue_dci)
      else bindE (aget recvBuf buf_idx) (\<lambda>ul_dl.
        bindE (if bit ul_dl 0 then recv_direction recvBuf (buf_idx + 1) recvLen
               else Inr (Some ((ue_dl_reTx ue_dci, ue_dl_tbs ue_dci), buf_idx + 1))) (\<lambda>dl.
        case dl of None \<Rightarrow> Inr (- 1, ue_dci)
        | Some ((rx, tbs), idx1) \<Rightarrow>
          let ue1 = ue_dci\<lparr>ue_dl_reTx := rx, ue_dl_tbs := tbs\<rparr> in
          bindE (if bit ul_dl 1 then recv_direction recvBuf idx1 recvLen
                 else Inr (Some ((ue_ul_reTx ue1, ue_ul_tbs ue1), idx1))) (\<lambda>ul.
          case ul of None \<Rightarrow> Inr (- 1, ue1)
          | Some ((rx, tbs), idx2) \<Rightarrow>
            Inr (idx2, ue1\<lparr>ue_ul_reTx := rx, ue_ul_tbs := tbs\<rparr>)))))"

definition recv_config :: "u8 list \<Rightarrow> int \<Rightarrow> recv_state \<Rightarrow> (int \<times> recv_state) res" where
  "recv_config recvBuf buf_idx st =
     bindE (aget recvBuf buf_idx) (\<lambda>cells.
     bindE (for_each (\<lambda>i (prbs, idx).
         bindE (read_le16 recvBuf idx) (\<lambda>prb. bindE (aset prbs i prb) (\<lambda>prbs.
         Inr (prbs, idx + 2)))) (range_int 0 (uint cells)) (replicate MAX_NOF_RF_DEV 0, buf_idx + 1))
       (\<lambda>(prbs, idx).
     bindE (for_each (\<lambda>i cs. bindE (aget cs i) (\<lambda>c. bindE (aget prbs i) (\<lambda>prb.
         aset cs i (c\<lparr>cell_prb := uint prb\<rparr>)))) (range_int 0 (uint cells)) (cell_dci (rs_dci_ca st)))
       (\<lambda>cs.
     Inr (idx, st\<lparr>rs_dci_ca := (rs_dci_ca st)\<lparr>nof_cell := uint cells, cell_dci := cs\<rparr>\<rparr>))))"

text \<open>Counting the retransmissions of a cell, and inserting the message: the end of \<open>recv_one_dci\<close>.\<close>

definition count_reTx :: "u8 \<Rightarrow> u8 \<Rightarrow> int list \<Rightarrow> int list res" where
  "count_reTx rx cell_idx counts =
     (if rx \<noteq> 0 then bindE (aget counts (uint cell_idx)) (\<lambda>n. aset counts (uint cell_idx) (n + 1))
      else Inr counts)"

definition deliver_dci :: "ue_dci_t \<Rightarrow> u8 \<Rightarrow> recv_state \<Rightarrow> recv_state res" where
  "deliver_dci ue cell_idx st =
     bindE (count_reTx (ue_dl_reTx ue) cell_idx (nof_dl_reTx_per_cell st)) (\<lambda>dl.
     bindE (count_reTx (ue_ul_reTx ue) cell_idx (nof_ul_reTx_per_cell st)) (\<lambda>ul.
     bindE (ngscope_dci_CA_insert (rs_dci_ca st) ue cell_idx) (\<lambda>ca.
     Inr (st\<lparr>rs_dci_ca := ca, nof_dl_reTx_per_cell := dl, nof_ul_reTx_per_cell := ul\<rparr>))))"

definition recv_one_dci :: "u8 list \<Rightarrow> int \<Rightarrow> int \<Rightarrow> recv_state \<Rightarrow> (int \<times> recv_state) res" where
  "recv_one_dci recvBuf buf_idx recvLen st =
     (if buf_idx + 11 \<ge> recvLen then Inr (- 1, st)
      else
        bindE (aget recvBuf buf_idx) (\<lambda>proto_v.
        bindE (read_be32 recvBuf (buf_idx + 1)) (\<lambda>lower_t.
        bindE (read_be32 recvBuf (buf_idx + 5)) (\<lambda>upper_t.
        bindE (read_le16 recvBuf (buf_idx + 9)) (\<lambda>tti.
        bindE (aget recvBuf (buf_idx + 11)) (\<lambda>cell_idx.
        let ue0 = zero_ue_dci\<lparr>ue_time_stamp := ucast lower_t + push_bit 32 (ucast upper_t), ue_tti := tti\<rparr>
        in bindE (if proto_v = 0 then recv_dci_ver1 ue0 recvBuf (buf_idx + 12) recvLen
                  else Inr (buf_idx + 12, ue0)) (\<lambda>(ret, ue1).
        if ret < 0 then Inr (- 1, st)
        else bindE (deliver_dci (ue1\<lparr>ue_dl_rv_flag := False, ue_ul_rv_flag := False\<rparr>) cell_idx st)
               (\<lambda>st'. Inr (ret, st')))))))))"

definition recv_buffer :: "u8 list \<Rightarrow> int \<Rightarrow> int \<Rightarrow> recv_state \<Rightarrow> (int \<times> recv_state) res" where
  "recv_buffer recvBuf idx recvLen st =
     bindE (same_bytes recvBuf idx (replicate 4 0xAA)) (\<lambda>is_dci.
     if is_dci then recv_one_dci recvBuf (idx + 4) recvLen st
     else bindE (same_bytes recvBuf idx (replicate 4 0xBB)) (\<lambda>is_config.
     if is_config then recv_config recvBuf (idx + 4) st
     else bindE (same_bytes recvBuf idx (replicate 4 0xFF)) (\<lambda>is_exit.
     if is_exit then Inr (- 1, st\<lparr>rs_go_exit := True\<rparr>)
     else Inr (- 1, st))))"

text \<open>
  \<open>shift_recv_buffer\<close> moves the bytes \<open>buf_idx .. recvLen - 1\<close> to the front and returns their
  number.
\<close>

definition shift_recv_buffer :: "u8 list \<Rightarrow> int \<Rightarrow> int \<Rightarrow> (u8 list \<times> int) res" where
  "shift_recv_buffer buf buf_idx recvLen =
     (if buf_idx > recvLen then Inr (buf, 0)
      else for_each (\<lambda>i (buf, cnt). bindE (aget buf i) (\<lambda>b. bindE (aset buf cnt b) (\<lambda>buf.
             Inr (buf, cnt + 1)))) (range_int buf_idx recvLen) (buf, 0))"

lemma aget_bound: "aget xs i = Inr x \<Longrightarrow> 0 \<le> i \<and> i < int (length xs)"
  by (auto simp: aget_eq_Inr nat_less_iff)

lemma same_bytes_bound:
  "same_bytes buf i ps = Inr b \<Longrightarrow> ps \<noteq> [] \<Longrightarrow> 0 \<le> i \<and> i < int (length buf)"
  by (cases ps) (auto simp: bindE_eq_Inr dest: aget_bound)

lemma recv_direction_progress:
  "recv_direction buf i n = Inr (Some (v, j)) \<Longrightarrow> j = i + 5"
  by (auto simp: recv_direction_def res_simps split: if_splits)

lemma recv_dci_ver1_progress:
  "recv_dci_ver1 ue buf i n = Inr (j, ue') \<Longrightarrow> j = - 1 \<or> i < j"
  by (auto simp: recv_dci_ver1_def bindE_eq_Inr Let_def
      dest!: recv_direction_progress split: if_splits option.splits)

lemma recv_one_dci_progress:
  "recv_one_dci buf i n st = Inr (j, st') \<Longrightarrow> j = - 1 \<or> i < j"
  by (auto simp: recv_one_dci_def bindE_eq_Inr Let_def
      dest!: recv_dci_ver1_progress split: if_splits)

lemma recv_config_progress:
  assumes "recv_config buf i st = Inr (j, st')" shows "i < j"
proof -
  from assms obtain cells prbs where
    "for_each (\<lambda>i (prbs, idx). bindE (read_le16 buf idx) (\<lambda>prb. bindE (aset prbs i prb) (\<lambda>prbs.
         Inr (prbs, idx + 2)))) (range_int 0 (uint (cells :: u8)))
         (replicate MAX_NOF_RF_DEV 0, i + 1) = Inr (prbs, j)"
    by (auto simp: recv_config_def bindE_eq_Inr)
  then have "case (prbs, j) of (prbs, idx) \<Rightarrow> i < idx"
    by (rule for_each_inv) (auto simp: bindE_eq_Inr)
  then show ?thesis by simp
qed

lemma recv_buffer_progress:
  "recv_buffer buf idx n st = Inr (ret, st') \<Longrightarrow> \<not> (ret < 0) \<Longrightarrow>
   idx < ret \<and> 0 \<le> idx \<and> idx < int (length buf)"
  by (auto simp: recv_buffer_def bindE_eq_Inr dest: same_bytes_bound
      dest!: recv_one_dci_progress recv_config_progress split: if_splits)

text \<open>
  The loop over one datagram ends because each pass moves the index forwards and reads inside the
  buffer.
\<close>

function recv_datagram :: "u8 list \<Rightarrow> int \<Rightarrow> int \<Rightarrow> recv_state \<Rightarrow> recv_state res" where
  "recv_datagram recvBuf recvLen buf_idx st =
     (if rs_go_exit st then Inr st
      else bindE (recv_buffer recvBuf buf_idx recvLen st) (\<lambda>(ret, st').
        if ret < 0 then Inr st'
        else if ret = recvLen then Inr st'
        else recv_datagram recvBuf recvLen ret st'))"
  by pat_completeness auto
termination
  by (relation "measure (\<lambda>(buf, _, idx, _). nat (int (length buf) - idx))")
    (auto dest!: recv_buffer_progress)

declare recv_datagram.simps [simp del]

text \<open>
  The receive thread: every datagram overwrites the front of the buffer; the thread ends at an exit
  message.
\<close>

fun ngscope_dci_recv_thread :: "u8 list list \<Rightarrow> u8 list \<Rightarrow> recv_state \<Rightarrow> recv_state res" where
  "ngscope_dci_recv_thread [] recvBuf st = Inr st"
| "ngscope_dci_recv_thread (dg # dgs) recvBuf st =
     (if rs_go_exit st then Inr st
      else
        let recvBuf' = dg @ drop (length dg) recvBuf in
        if dg \<noteq> [] then
          bindE (recv_datagram recvBuf' (int (length dg)) 0 st) (ngscope_dci_recv_thread dgs recvBuf')
        else ngscope_dci_recv_thread dgs recvBuf' st)"


lemma replicate_4: "replicate 4 x = [x, x, x, x]"
  by (simp add: numeral_eq_Suc)


section \<open>The wire format\<close>

text \<open>
  A version-0 message as NG-Scope sends it: preamble, version, lower and upper half of the timestamp,
  TTI, cell, flags, and per present direction the retransmission flag and the block size.
\<close>

record dci_msg =
  w_time :: u64
  w_tti :: u16
  w_cell :: u8
  w_dl :: "(u8 \<times> u32) option"
  w_ul :: "(u8 \<times> u32) option"

definition byte_of :: "nat \<Rightarrow> 'a::len word \<Rightarrow> u8" where
  "byte_of k w = ucast (drop_bit (8 * k) w)"

definition put_be32 :: "u32 \<Rightarrow> u8 list" where
  "put_be32 w = [byte_of 3 w, byte_of 2 w, byte_of 1 w, byte_of 0 w]"

definition put_le16 :: "u16 \<Rightarrow> u8 list" where
  "put_le16 w = [byte_of 0 w, byte_of 1 w]"

definition put_direction :: "(u8 \<times> u32) option \<Rightarrow> u8 list" where
  "put_direction d = (case d of None \<Rightarrow> [] | Some (rx, tbs) \<Rightarrow> rx # put_be32 tbs)"

definition dci_flags :: "dci_msg \<Rightarrow> u8" where
  "dci_flags m = (if w_dl m = None then 0 else 1) + (if w_ul m = None then 0 else 2)"

definition encode_dci :: "dci_msg \<Rightarrow> u8 list" where
  "encode_dci m = [0xAA, 0xAA, 0xAA, 0xAA, 0] @ put_be32 (ucast (w_time m))
     @ put_be32 (ucast (drop_bit 32 (w_time m))) @ put_le16 (w_tti m) @ [w_cell m, dci_flags m]
     @ put_direction (w_dl m) @ put_direction (w_ul m)"

definition msg_dci :: "dci_msg \<Rightarrow> ue_dci_t" where
  "msg_dci m = \<lparr>ue_time_stamp = w_time m, ue_tti = w_tti m,
     ue_dl_tbs = (case w_dl m of None \<Rightarrow> 0 | Some (rx, tbs) \<Rightarrow> tbs),
     ue_dl_reTx = (case w_dl m of None \<Rightarrow> 0 | Some (rx, tbs) \<Rightarrow> rx), ue_dl_rv_flag = False,
     ue_ul_tbs = (case w_ul m of None \<Rightarrow> 0 | Some (rx, tbs) \<Rightarrow> tbs),
     ue_ul_reTx = (case w_ul m of None \<Rightarrow> 0 | Some (rx, tbs) \<Rightarrow> rx), ue_ul_rv_flag = False\<rparr>"

lemma uint_byte_of: "uint (byte_of k w) = uint w div 2 ^ (8 * k) mod 256"
  for w :: "'a::len word"
  by (simp add: byte_of_def unsigned_ucast_eq unsigned_drop_bit_eq drop_bit_eq_div [where 'a = int]
      take_bit_eq_mod)

lemma base_256_div: "n div 65536 = (n::int) div 256 div 256" "n div 16777216 = n div 256 div 256 div 256"
proof -
  show "n div 65536 = n div 256 div 256" using zdiv_zmult2_eq [of 256 n 256] by simp
  then show "n div 16777216 = n div 256 div 256 div 256" using zdiv_zmult2_eq [of 256 n 65536]
      zdiv_zmult2_eq [of 256 "n div 256" 256] by simp
qed

lemma base_256:
  fixes n :: int
  assumes "0 \<le> n" and "n < 2 ^ 32"
  shows "n mod 256 + 256 * (n div 256 mod 256 + 256 * (n div 65536 mod 256
      + 256 * (n div 16777216 mod 256))) = n"
proof -
  have step: "m mod 256 + 256 * (m div 256) = m" for m :: int by simp
  have "n div 16777216 < 256" "0 \<le> n div 16777216" using assms by auto
  then have "n div 256 div 256 div 256 mod 256 = n div 256 div 256 div 256"
    by (simp only: base_256_div mod_pos_pos_trivial)
  then show ?thesis by (simp only: base_256_div step)
qed

lemma uint_byte_of_digits:
  "uint (byte_of 0 w) = uint w mod 256" "uint (byte_of 1 w) = uint w div 256 mod 256"
  "uint (byte_of 2 w) = uint w div 65536 mod 256" "uint (byte_of 3 w) = uint w div 16777216 mod 256"
  for w :: "'a::len word"
  unfolding uint_byte_of by (simp_all only: mult_0_right power_0 div_by_1) simp_all

lemma be32_bytes: "be32 (byte_of 3 w) (byte_of 2 w) (byte_of 1 w) (byte_of 0 w) = w"
proof -
  have "uint w < 2 ^ 32" using uint_bounded [of w] by simp
  then show ?thesis
    by (simp only: be32_def uint_byte_of_digits base_256 uint_ge_0 word_of_int_uint)
qed

lemma base_256_2: "0 \<le> n \<Longrightarrow> n < 65536 \<Longrightarrow> n mod 256 + 256 * (n div 256 mod 256) = (n :: int)"
  by simp

lemma le16_bytes: "le16 (byte_of 0 w) (byte_of 1 w) = w"
proof -
  have "uint w < 65536" using uint_bounded [of w] by simp
  then show ?thesis
    by (simp only: le16_def uint_byte_of_digits base_256_2 uint_ge_0 word_of_int_uint)
qed

lemma halves_of_u64: "(ucast (ucast w :: u32) :: u64) + push_bit 32 (ucast (ucast (drop_bit 32 w) :: u32)) = w"
  for w :: u64
proof (subst disjunctive_add_eq_or)
  show "and (ucast (ucast w :: u32) :: u64) (push_bit 32 (ucast (ucast (drop_bit 32 w) :: u32))) = 0"
    by (rule bit_word_eqI) (auto simp: bit_simps)
qed (rule bit_word_eqI, auto simp: bit_simps bit_or_iff)

text \<open>Reading at the position where a piece of the buffer starts.\<close>

lemma aget_pre: "0 \<le> k \<Longrightarrow> aget (pre @ ys) (int (length pre) + k) = aget ys k"
  by (auto simp: aget_def nth_append nat_add_distrib)

lemma aget_pre_0: "aget (pre @ ys) (int (length pre)) = aget ys 0"
  using aget_pre [of 0] by simp

lemma aget_Cons: "0 < k \<Longrightarrow> aget (x # xs) k = aget xs (k - 1)"
  by (auto simp: aget_def nth_Cons nat_diff_distrib split: nat.splits)

lemma aget_Cons_0: "aget (x # xs) 0 = Inr x"
  by (simp add: aget_def)

lemmas aget_pieces = aget_pre aget_pre_0 aget_Cons aget_Cons_0 add.assoc

lemma read_be32_put:
  assumes "i = int (length pre)"
  shows "read_be32 (pre @ put_be32 w @ post) i = Inr w"
  by (simp add: assms read_be32_def put_be32_def aget_pieces be32_bytes del: One_nat_def)

lemma read_le16_put:
  assumes "i = int (length pre)"
  shows "read_le16 (pre @ put_le16 w @ post) i = Inr w"
  by (simp add: assms read_le16_def put_le16_def aget_pieces le16_bytes del: One_nat_def)

lemma same_bytes_self: "i = int (length pre) \<Longrightarrow> same_bytes (pre @ ps @ post) i ps = Inr True"
proof (induction ps arbitrary: pre i)
  case (Cons p ps)
  then show ?case using Cons.IH [of "i + 1" "pre @ [p]"] by (simp add: aget_pieces)
qed simp

lemma length_put [simp]: "length (put_be32 w) = 4" "length (put_le16 v) = 2"
  by (simp_all add: put_be32_def put_le16_def)

lemma recv_direction_put:
  assumes "i = int (length pre)" and "length pre + 5 \<le> n"
  shows "recv_direction (pre @ put_direction (Some (rx, tbs)) @ post) i (int n)
    = Inr (Some ((rx, tbs), i + 5))"
proof -
  have "read_be32 ((pre @ [rx]) @ put_be32 tbs @ post) (i + 1) = Inr tbs"
    by (rule read_be32_put) (simp add: assms)
  moreover have "aget (pre @ rx # put_be32 tbs @ post) i = Inr rx"
    by (simp add: assms aget_pieces)
  ultimately show ?thesis
    using assms by (simp add: recv_direction_def put_direction_def)
qed

lemma bit_dci_flags:
  "bit (dci_flags m) 0 \<longleftrightarrow> w_dl m \<noteq> None" "bit (dci_flags m) 1 \<longleftrightarrow> w_ul m \<noteq> None"
  by (simp_all add: dci_flags_def)

lemma length_put_direction: "length (put_direction d) = (if d = None then 0 else 5)"
  by (auto simp: put_direction_def split: option.split)

lemma recv_dci_ver1_put:
  assumes i: "i = int (length pre)" and n: "length pre + 1 + length (put_direction (w_dl m)) + length (put_direction (w_ul m)) \<le> n"
    and ue: "ue_dl_tbs ue = 0" "ue_dl_reTx ue = 0" "ue_ul_tbs ue = 0" "ue_ul_reTx ue = 0"
  shows "recv_dci_ver1 ue (pre @ [dci_flags m] @ put_direction (w_dl m) @ put_direction (w_ul m) @ post) i (int n)
    = Inr (i + 1 + int (length (put_direction (w_dl m)) + length (put_direction (w_ul m))),
        ue\<lparr>ue_dl_reTx := ue_dl_reTx (msg_dci m), ue_dl_tbs := ue_dl_tbs (msg_dci m),
           ue_ul_reTx := ue_ul_reTx (msg_dci m), ue_ul_tbs := ue_ul_tbs (msg_dci m)\<rparr>)"
proof -
  let ?d = "put_direction (w_dl m)" and ?u = "put_direction (w_ul m)" and ?f = "dci_flags m"
  let ?b = "pre @ [?f] @ ?d @ ?u @ post" and ?i2 = "i + 1 + int (length (put_direction (w_dl m)))"
  have flag: "aget ?b i = Inr ?f" by (simp add: i aget_pieces)
  have dl: "(if bit ?f 0 then recv_direction ?b (i + 1) (int n) else Inr (Some ((0, 0), i + 1)))
      = Inr (Some ((ue_dl_reTx (msg_dci m), ue_dl_tbs (msg_dci m)), ?i2))"
  proof (cases "w_dl m")
    case (Some v)
    obtain rx tbs where "v = (rx, tbs)" by fastforce
    then show ?thesis
      using recv_direction_put [of "i + 1" "pre @ [?f]" n rx tbs "?u @ post"] i n Some bit_dci_flags(1) [of m]
      by (simp add: length_put_direction msg_dci_def)
  qed (use bit_dci_flags(1) [of m] in \<open>simp add: length_put_direction msg_dci_def\<close>)
  have ul: "(if bit ?f 1 then recv_direction ?b ?i2 (int n) else Inr (Some ((0, 0), ?i2)))
      = Inr (Some ((ue_ul_reTx (msg_dci m), ue_ul_tbs (msg_dci m)), ?i2 + int (length ?u)))"
  proof (cases "w_ul m")
    case (Some v)
    obtain rx tbs where "v = (rx, tbs)" by fastforce
    then show ?thesis
      using recv_direction_put [of ?i2 "pre @ [?f] @ ?d" n rx tbs post] i n Some bit_dci_flags(2) [of m]
      by (simp add: length_put_direction msg_dci_def)
  qed (use bit_dci_flags(2) [of m] in \<open>simp add: length_put_direction msg_dci_def\<close>)
  have le: "(int n \<le> i) = False" using i n by simp
  have sel: "ue_ul_reTx (ue\<lparr>ue_dl_reTx := a, ue_dl_tbs := b\<rparr>) = 0"
    "ue_ul_tbs (ue\<lparr>ue_dl_reTx := a, ue_dl_tbs := b\<rparr>) = 0" for a b
    by (simp_all add: ue)
  show ?thesis
    unfolding recv_dci_ver1_def flag bindE.simps ue dl Let_def option.case prod.case sel ul le if_False
    by simp
qed

lemma recv_buffer_encode:
  assumes "length pre + length (encode_dci m) \<le> n"
  shows "recv_buffer (pre @ encode_dci m @ post) (int (length pre)) (int n) st
    = bindE (deliver_dci (msg_dci m) (w_cell m) st)
        (\<lambda>st'. Inr (int (length pre + length (encode_dci m)), st'))"
proof -
  let ?buf = "pre @ encode_dci m @ post" and ?i = "int (length pre)"
  define t0 t1 where "t0 = (ucast (w_time m) :: u32)" and "t1 = (ucast (drop_bit 32 (w_time m)) :: u32)"
  define tl where "tl = [dci_flags m] @ put_direction (w_dl m) @ put_direction (w_ul m) @ post"
  let ?pr = "replicate 4 0xAA :: u8 list"
  have buf: "?buf = pre @ ?pr @ [0] @ put_be32 t0 @ put_be32 t1 @ put_le16 (w_tti m) @ [w_cell m] @ tl"
    by (simp add: encode_dci_def t0_def t1_def tl_def eval_nat_numeral)
  have n: "length pre + 17 + length (put_direction (w_dl m)) + length (put_direction (w_ul m)) \<le> n"
    using assms by (simp add: encode_dci_def)
  have pre: "same_bytes ?buf ?i ?pr = Inr True" unfolding buf by (rule same_bytes_self) simp
  have v: "aget ?buf (?i + 4) = Inr 0"
    unfolding buf using aget_pre_0 [of "pre @ ?pr"] by (simp add: aget_Cons_0)
  have r0: "read_be32 ?buf (?i + 5) = Inr t0"
    unfolding buf using read_be32_put [of "?i + 5" "pre @ ?pr @ [0]" t0] by simp
  have r1: "read_be32 ?buf (?i + 9) = Inr t1"
    unfolding buf using read_be32_put [of "?i + 9" "pre @ ?pr @ [0] @ put_be32 t0" t1] by simp
  have r2: "read_le16 ?buf (?i + 13) = Inr (w_tti m)"
    unfolding buf
    using read_le16_put [of "?i + 13" "pre @ ?pr @ [0] @ put_be32 t0 @ put_be32 t1" "w_tti m"] by simp
  have r3: "aget ?buf (?i + 15) = Inr (w_cell m)"
    unfolding buf using aget_pre_0 [of "pre @ ?pr @ [0] @ put_be32 t0 @ put_be32 t1 @ put_le16 (w_tti m)"]
    by (simp add: aget_Cons_0 add.commute)
  let ?ue = "zero_ue_dci\<lparr>ue_time_stamp := ucast t0 + push_bit 32 (ucast t1), ue_tti := w_tti m\<rparr>"
  have r4: "recv_dci_ver1 ?ue ?buf (?i + 16) (int n) = Inr (int (length pre + length (encode_dci m)),
      ?ue\<lparr>ue_dl_reTx := ue_dl_reTx (msg_dci m), ue_dl_tbs := ue_dl_tbs (msg_dci m),
           ue_ul_reTx := ue_ul_reTx (msg_dci m), ue_ul_tbs := ue_ul_tbs (msg_dci m)\<rparr>)"
    unfolding buf
    using recv_dci_ver1_put [of "?i + 16" "pre @ ?pr @ [0] @ put_be32 t0 @ put_be32 t1 @ put_le16 (w_tti m) @ [w_cell m]"
        m n ?ue post] n
    by (simp add: zero_ue_dci_def encode_dci_def tl_def)
  have "?ue\<lparr>ue_dl_reTx := ue_dl_reTx (msg_dci m), ue_dl_tbs := ue_dl_tbs (msg_dci m),
           ue_ul_reTx := ue_ul_reTx (msg_dci m), ue_ul_tbs := ue_ul_tbs (msg_dci m),
           ue_dl_rv_flag := False, ue_ul_rv_flag := False\<rparr> = msg_dci m"
    by (simp add: zero_ue_dci_def msg_dci_def t0_def t1_def halves_of_u64)
  with pre v r0 r1 r2 r3 r4 n show ?thesis
    by (simp add: recv_buffer_def recv_one_dci_def ac_simps)
qed

lemma for_each_Nil_fun: "for_each f [] = Inr"
  by (rule ext) simp

lemma deliver_dci_go_exit: "deliver_dci ue k st = Inr st' \<Longrightarrow> rs_go_exit st' = rs_go_exit st"
  by (auto simp: deliver_dci_def bindE_eq_Inr)

lemma encode_dci_not_Nil [simp]: "encode_dci m \<noteq> []"
  by (simp add: encode_dci_def)

lemma recv_datagram_encode:
  assumes "\<not> rs_go_exit st" and "ms \<noteq> []"
  shows "recv_datagram (pre @ concat (map encode_dci ms) @ post)
      (int (length pre + length (concat (map encode_dci ms)))) (int (length pre)) st
    = for_each (\<lambda>m. deliver_dci (msg_dci m) (w_cell m)) ms st"
  using assms
proof (induction ms arbitrary: pre st)
  case (Cons m ms)
  let ?rest = "concat (map encode_dci ms)"
  let ?buf = "pre @ encode_dci m @ ?rest @ post"
  let ?n = "length pre + length (encode_dci m) + length ?rest"
  have step: "recv_buffer ?buf (int (length pre)) (int ?n) st
    = bindE (deliver_dci (msg_dci m) (w_cell m) st)
        (\<lambda>st'. Inr (int (length pre + length (encode_dci m)), st'))"
    by (rule recv_buffer_encode) simp
  have "recv_datagram ?buf (int ?n) (int (length pre)) st
      = bindE (deliver_dci (msg_dci m) (w_cell m) st)
          (\<lambda>st'. if ms = [] then Inr st'
            else recv_datagram ?buf (int ?n) (int (length pre + length (encode_dci m))) st')"
  proof (cases "ms = []")
    case True
    then show ?thesis
      unfolding recv_datagram.simps [of ?buf "int ?n" "int (length pre)"] using step Cons.prems(1) by (simp add: bindE_assoc)
  next
    case False
    then have "?rest \<noteq> []" by (cases ms) auto
    then show ?thesis
      unfolding recv_datagram.simps [of ?buf "int ?n" "int (length pre)"]
      using step Cons.prems(1) False by (simp add: bindE_assoc)
  qed
  also have "\<dots> = bindE (deliver_dci (msg_dci m) (w_cell m) st)
      (for_each (\<lambda>m. deliver_dci (msg_dci m) (w_cell m)) ms)"
  proof (rule bindE_cong [OF refl])
    fix st' assume st': "deliver_dci (msg_dci m) (w_cell m) st = Inr st'"
    then have "\<not> rs_go_exit st'" using Cons.prems(1) deliver_dci_go_exit by simp
    then show "(if ms = [] then Inr st'
        else recv_datagram ?buf (int ?n) (int (length pre + length (encode_dci m))) st')
      = for_each (\<lambda>m. deliver_dci (msg_dci m) (w_cell m)) ms st'"
      using Cons.IH [of st' "pre @ encode_dci m"] by (simp add: add.assoc)
  qed
  finally show ?case by (simp add: add.assoc)
qed simp

text \<open>
  C10. A datagram that consists of well-formed version-0 messages is decoded completely: whatever
  follows it in the receive buffer, receiving it delivers exactly the encoded messages (all 64 bits
  of the time, the TTI, and for each direction the flag and the block size, absent directions as 0),
  each for its cell, in the order sent.
\<close>

theorem recv_datagram_decodes:
  assumes "\<not> rs_go_exit st" and "ms \<noteq> []"
  shows "recv_datagram (concat (map encode_dci ms) @ post) (int (length (concat (map encode_dci ms)))) 0 st
    = for_each (\<lambda>m. deliver_dci (msg_dci m) (w_cell m)) ms st"
  using recv_datagram_encode [OF assms, of "[]"] by simp

theorem recv_datagram_decodes_witness:
  "recv_datagram (encode_dci (\<lparr>w_time = 7, w_tti = 3, w_cell = 0, w_dl = Some (1, 500), w_ul = None\<rparr>)) 22 0
     recv_state_init
   = deliver_dci (zero_ue_dci\<lparr>ue_time_stamp := 7, ue_tti := 3, ue_dl_tbs := 500, ue_dl_reTx := 1\<rparr>) 0
       recv_state_init"
proof -
  let ?m = "\<lparr>w_time = 7, w_tti = 3, w_cell = 0, w_dl = Some (1, 500), w_ul = None\<rparr> :: dci_msg"
  have len: "int (length (encode_dci ?m)) = 22" by (simp add: encode_dci_def length_put_direction)
  have msg: "msg_dci ?m = zero_ue_dci\<lparr>ue_time_stamp := 7, ue_tti := 3, ue_dl_tbs := 500, ue_dl_reTx := 1\<rparr>"
    by (simp add: msg_dci_def zero_ue_dci_def)
  have init: "\<not> rs_go_exit recv_state_init" by (simp add: recv_state_init_def)
  have "recv_datagram (encode_dci m) (int (length (encode_dci m))) 0 recv_state_init
      = deliver_dci (msg_dci m) (w_cell m) recv_state_init" for m
    using recv_datagram_decodes [OF init, of "[m]" "[]"] by (simp add: for_each_Nil_fun)
  from this [of ?m] show ?thesis by (simp only: len msg dci_msg.simps)
qed

text \<open>
  A buffer that is rejected (too short, an unknown preamble, or the exit message) leaves the
  cells and the counters as they were; only the exit message changes a flag.
\<close>

theorem recv_buffer_rejects_without_effect:
  assumes "recv_buffer buf idx n st = Inr (ret, st')" and "ret < 0" and "0 \<le> idx"
  shows "st' = st \<or> (st' = st\<lparr>rs_go_exit := True\<rparr> \<and> same_bytes buf idx (replicate 4 0xFF) = Inr True)"
proof -
  have one: "st' = st" if "recv_one_dci buf (idx + 4) n st = Inr (ret, st')"
    using that assms(2)
    by (auto simp: recv_one_dci_def bindE_eq_Inr Let_def split: if_splits prod.splits)
  have "\<not> recv_config buf (idx + 4) st = Inr (ret, st')"
    using recv_config_progress [of buf "idx + 4" st ret st'] assms(2,3) by auto
  then show ?thesis
    using assms(1) one by (auto simp: recv_buffer_def bindE_eq_Inr split: if_splits)
qed

theorem recv_buffer_rejects_without_effect_witness:
  "\<exists>st'. recv_buffer [1, 2, 3, 4] 0 4 recv_state_init = Inr (- 1, st') \<and>
     (st' = recv_state_init \<or> (st' = recv_state_init\<lparr>rs_go_exit := True\<rparr>
        \<and> same_bytes [1, 2, 3, 4] 0 (replicate 4 0xFF) = Inr True))"
proof -
  have "recv_buffer [1, 2, 3, 4] 0 4 recv_state_init = Inr (- 1, recv_state_init)"
    by (simp add: recv_buffer_def aget_def replicate_4)
  from recv_buffer_rejects_without_effect [OF this] this show ?thesis by simp
qed

end
