(* ===== verification/Ngscope_Dci_Udp.thy ===== *)
theory Ngscope_Dci_Udp
  imports Ngscope_Dci_Recv
begin

text \<open>
  The thread of \<open>src/ngscope_dci_recv.cc\<close> that serves the monitor over UDP: it waits for two connection
  requests, answers twice, and then parses the datagrams like the thread over TCP. Each turn of a
  loop sees the value of \<open>go_exit\<close> and the datagram that \<open>recvfrom\<close> delivers, empty when it returns no
  data. The set-up of the socket only calls the operating system.
\<close>


section \<open>The connection\<close>

record udp_event =
  ue_exit :: bool
  ue_data :: "u8 list"

definition store_bytes :: "u8 list \<Rightarrow> u8 list \<Rightarrow> u8 list" where
  "store_bytes d buf = d @ drop (length d) buf"

text \<open>The wait for \<open>nof_cli_req\<close> to reach 2; \<open>None\<close> when the events are used up before.\<close>

fun await_client :: "nat \<Rightarrow> u8 list \<Rightarrow> udp_event list \<Rightarrow> (u8 list \<times> udp_event list) option" where
  "await_client nof_cli_req recvBuf [] = None"
| "await_client nof_cli_req recvBuf (e # es) =
     (if ue_exit e then Some (recvBuf, e # es)
      else
        let buf = store_bytes (ue_data e) recvBuf;
            req = (if ue_data e \<noteq> [] \<and> take 4 buf = replicate 4 0xCC then nof_cli_req + 1 else nof_cli_req)
        in if req \<ge> 2 then Some (buf, es) else await_client req buf es)"

definition connection_reply :: "u8 list" where
  "connection_reply = replicate 4 0xAA"

fun udp_loop :: "udp_event list \<Rightarrow> u8 list \<Rightarrow> recv_state \<Rightarrow> recv_state res" where
  "udp_loop [] recvBuf st = Inr st"
| "udp_loop (e # es) recvBuf st =
     (if ue_exit e \<or> rs_go_exit st then Inr (st\<lparr>rs_go_exit := True\<rparr>)
      else
        let buf = store_bytes (ue_data e) recvBuf in
        if ue_data e \<noteq> [] then bindE (recv_datagram buf (int (length (ue_data e))) 0 st) (udp_loop es buf)
        else udp_loop es buf st)"

text \<open>The datagrams sent, the flag \<open>sock_ready\<close>, and the result of the loop.\<close>

definition ngscope_dci_recv_udp_thread ::
  "udp_event list \<Rightarrow> u8 list \<Rightarrow> recv_state \<Rightarrow> (u8 list list \<times> bool \<times> recv_state res) option" where
  "ngscope_dci_recv_udp_thread es recvBuf st =
     (let st0 = st\<lparr>rs_dci_ca := ngscope_dci_CA_init\<rparr> in
      case await_client 0 recvBuf es of
        None \<Rightarrow> None
      | Some (buf, es') \<Rightarrow>
          Some ([connection_reply, connection_reply], True, udp_loop es' (store_bytes connection_reply buf) st0))"


section \<open>From the connection to the cells\<close>

definition datagram :: "u8 list \<Rightarrow> udp_event" where
  "datagram d = \<lparr>ue_exit = False, ue_data = d\<rparr>"

definition request :: "u8 list \<Rightarrow> bool" where
  "request d \<longleftrightarrow> take 4 d = replicate 4 0xCC"

text \<open>What is not a request: nothing, or four bytes and more that are something else.\<close>

definition other_data :: "u8 list \<Rightarrow> bool" where
  "other_data d \<longleftrightarrow> d = [] \<or> 4 \<le> length d \<and> \<not> request d"

lemma await_other:
  "\<forall>d \<in> set ds. other_data d \<Longrightarrow> n < 2 \<Longrightarrow> \<exists>buf'. await_client n buf (map datagram ds @ es) = await_client n buf' es"
proof (induction ds arbitrary: buf)
  case (Cons d ds)
  have "take 4 (store_bytes d buf) = take 4 d" if "d \<noteq> []" using that Cons.prems(1) by (simp add: store_bytes_def other_data_def)
  then show ?case using Cons by (auto simp: datagram_def Let_def other_data_def request_def)
qed auto

lemma await_request:
  assumes "request d"
  shows "await_client n buf (datagram d # es)
    = (if n + 1 \<ge> 2 then Some (store_bytes d buf, es) else await_client (n + 1) (store_bytes d buf) es)"
proof -
  have "length (take 4 d) = 4" using assms by (simp add: request_def del: length_take)
  then have "d \<noteq> [] \<and> take 4 (store_bytes d buf) = replicate 4 0xCC"
    using assms by (auto simp: request_def store_bytes_def)
  then show ?thesis by (simp add: datagram_def Let_def)
qed

lemma deliver_dci_exit: "deliver_dci m c st = Inr st' \<Longrightarrow> rs_go_exit st' = rs_go_exit st"
  by (auto simp: deliver_dci_def res_simps Let_def split: if_splits)

lemma deliver_all_exit: "for_each (\<lambda>m. deliver_dci (f m) (g m)) ms st = Inr st' \<Longrightarrow> rs_go_exit st' = rs_go_exit st"
proof (induction ms arbitrary: st)
  case (Cons m ms)
  then obtain st1 where "deliver_dci (f m) (g m) st = Inr st1" "for_each (\<lambda>m. deliver_dci (f m) (g m)) ms st1 = Inr st'"
    by (auto simp: res_simps)
  then show ?case using Cons.IH deliver_dci_exit by metis
qed simp

lemma udp_loop_decodes:
  assumes "\<not> rs_go_exit st" and "\<forall>ms \<in> set mss. ms \<noteq> []"
  shows "udp_loop (map (\<lambda>ms. datagram (concat (map encode_dci ms))) mss) buf st
    = for_each (\<lambda>m. deliver_dci (msg_dci m) (w_cell m)) (concat mss) st"
  using assms
proof (induction mss arbitrary: buf st)
  case (Cons ms mss)
  let ?d = "concat (map encode_dci ms)"
  let ?f = "\<lambda>m. deliver_dci (msg_dci m) (w_cell m)"
  have ne: "ms \<noteq> []" "?d \<noteq> []" using Cons.prems(2) by (auto simp: encode_dci_def neq_Nil_conv)
  have "udp_loop (map (\<lambda>ms. datagram (concat (map encode_dci ms))) (ms # mss)) buf st
    = bindE (for_each ?f ms st) (udp_loop (map (\<lambda>ms. datagram (concat (map encode_dci ms))) mss) (store_bytes ?d buf))"
    using Cons.prems(1) ne recv_datagram_encode [OF Cons.prems(1) ne(1), of "[]" "drop (length ?d) buf"]
    by (simp add: datagram_def store_bytes_def Let_def)
  also have "\<dots> = bindE (for_each ?f ms st) (for_each ?f (concat mss))"
  proof (rule bindE_cong [OF refl])
    fix st1 assume "for_each ?f ms st = Inr st1"
    then have "\<not> rs_go_exit st1" using deliver_all_exit Cons.prems(1) by metis
    then show "udp_loop (map (\<lambda>ms. datagram (concat (map encode_dci ms))) mss) (store_bytes ?d buf) st1 = for_each ?f (concat mss) st1"
      using Cons.IH Cons.prems(2) by simp
  qed
  finally show ?case by (simp add: for_each_append)
qed simp

text \<open>
  C39. The UDP thread: after the second connection request, whatever else arrives before, it answers twice
  and reports that the socket is ready; then it delivers every message of every datagram, for its
  cell and in order, to cells that were initialised.
\<close>

theorem udp_thread_delivers:
  assumes "\<forall>d \<in> set (ds1 @ ds2). other_data d" and "request r1" and "request r2"
    and "\<forall>ms \<in> set mss. ms \<noteq> []" and "\<not> rs_go_exit st"
  shows "ngscope_dci_recv_udp_thread
      (map datagram (ds1 @ [r1] @ ds2 @ [r2]) @ map (\<lambda>ms. datagram (concat (map encode_dci ms))) mss) recvBuf st
    = Some ([replicate 4 0xAA, replicate 4 0xAA], True,
        for_each (\<lambda>m. deliver_dci (msg_dci m) (w_cell m)) (concat mss) (st\<lparr>rs_dci_ca := ngscope_dci_CA_init\<rparr>))"
proof -
  let ?es = "map (\<lambda>ms. datagram (concat (map encode_dci ms))) mss"
  have other: "\<forall>d \<in> set ds1. other_data d" "\<forall>d \<in> set ds2. other_data d" using assms(1) by simp_all
  obtain b1 where b1: "await_client 0 recvBuf (map datagram ds1 @ datagram r1 # map datagram ds2 @ datagram r2 # ?es)
      = await_client 0 b1 (datagram r1 # map datagram ds2 @ datagram r2 # ?es)"
    using await_other [OF other(1), of 0] by (meson zero_less_numeral)
  obtain b2 where b2: "await_client 1 (store_bytes r1 b1) (map datagram ds2 @ datagram r2 # ?es)
      = await_client 1 b2 (datagram r2 # ?es)"
    using await_other [OF other(2), of 1] by (meson one_less_numeral_iff semiring_norm(76))
  have "await_client 0 recvBuf (map datagram ds1 @ datagram r1 # map datagram ds2 @ datagram r2 # ?es)
      = Some (store_bytes r2 b2, ?es)"
    unfolding b1 await_request [OF assms(2)] using b2 await_request [OF assms(3)] by (simp del: await_client.simps)
  moreover have "udp_loop ?es buf (st\<lparr>rs_dci_ca := ngscope_dci_CA_init\<rparr>)
      = for_each (\<lambda>m. deliver_dci (msg_dci m) (w_cell m)) (concat mss) (st\<lparr>rs_dci_ca := ngscope_dci_CA_init\<rparr>)" for buf
    using assms(4,5) by (intro udp_loop_decodes) simp_all
  ultimately show ?thesis by (simp add: ngscope_dci_recv_udp_thread_def connection_reply_def Let_def)
qed

theorem udp_thread_delivers_witness:
  "ngscope_dci_recv_udp_thread (map datagram ([[]] @ [replicate 4 0xCC] @ [] @ [replicate 4 0xCC])
      @ map (\<lambda>ms. datagram (concat (map encode_dci ms))) [[\<lparr>w_time = 7, w_tti = 3, w_cell = 0, w_dl = Some (1, 500), w_ul = None\<rparr>]])
      [] recv_state_init
    = Some ([replicate 4 0xAA, replicate 4 0xAA], True,
        deliver_dci (zero_ue_dci\<lparr>ue_time_stamp := 7, ue_tti := 3, ue_dl_tbs := 500, ue_dl_reTx := 1\<rparr>) 0 recv_state_init)"
proof -
  let ?m = "\<lparr>w_time = 7, w_tti = 3, w_cell = 0, w_dl = Some (1, 500), w_ul = None\<rparr> :: dci_msg"
  have msg: "msg_dci ?m = zero_ue_dci\<lparr>ue_time_stamp := 7, ue_tti := 3, ue_dl_tbs := 500, ue_dl_reTx := 1\<rparr>"
    by (simp add: msg_dci_def zero_ue_dci_def)
  have st: "recv_state_init\<lparr>rs_dci_ca := ngscope_dci_CA_init\<rparr> = recv_state_init" by (simp add: recv_state_init_def)
  have pre: "\<forall>d \<in> set ([[]] @ []). other_data d" "request (replicate 4 0xCC)" "\<not> rs_go_exit recv_state_init"
    by (simp_all add: other_data_def request_def recv_state_init_def)
  have single: "bindE r (for_each f []) = r" for r :: "recv_state res" and f :: "dci_msg \<Rightarrow> recv_state \<Rightarrow> recv_state res"
    by (cases r) simp_all
  have one: "for_each (\<lambda>m. deliver_dci (msg_dci m) (w_cell m)) (concat [[m]]) s = deliver_dci (msg_dci m) (w_cell m) s" for m s
    by (simp only: concat.simps append_Nil2 for_each.simps(2) single)
  have cell: "w_cell ?m = 0" by simp
  have ne: "\<forall>ms \<in> set [[?m]]. ms \<noteq> []" by simp
  show ?thesis
    by (subst udp_thread_delivers [OF pre(1,2,2) ne pre(3)]) (simp only: one msg cell st)
qed

end
