(* ===== verification/Ngscope_ReTx.thy ===== *)
theory Ngscope_ReTx
  imports Ngscope_Dci
begin

text \<open>
  Model of \<open>src/ngscope_reTx.h\<close> and \<open>src/ngscope_reTx.cc\<close>: the trace of all subframes over the
  aggregated cells, the model of the re-ordering buffer that a retransmission opens at the receiver,
  and the search for the packet at which a burst starts. The arrays of a trace are lists; their
  common length is \<open>rt_size\<close>.
\<close>


section \<open>State\<close>

record ngscope_reTx_ca_t =
  rt_reTx :: "bool list"
  rt_tti :: "u16 list"
  rt_tbs :: "u32 list"
  rt_rx_t_us :: "u64 list"
  rt_size :: int

record ngscope_reordering_buf_t =
  rb_ready :: bool
  start_pkt_t :: u64
  start_pkt_found :: bool
  buffer_active :: bool
  buf_size :: int
  buf_start_tti :: u16
  buf_last_tti :: u16
  buf_start_t :: u64
  buf_last_t :: u64
  ref_oneway :: u64
  most_recent_dci_t :: u64

definition ngscope_reTx_init_buf :: ngscope_reordering_buf_t where
  "ngscope_reTx_init_buf = \<lparr>rb_ready = False, start_pkt_t = 0, start_pkt_found = False,
     buffer_active = False, buf_size = 0, buf_start_tti = 0, buf_last_tti = 0, buf_start_t = 0,
     buf_last_t = 0, ref_oneway = 0, most_recent_dci_t = 0\<rparr>"

definition ngscope_reTx_reset_buf :: "ngscope_reordering_buf_t \<Rightarrow> ngscope_reordering_buf_t" where
  "ngscope_reTx_reset_buf q = q\<lparr>buffer_active := False, buf_size := 0, start_pkt_found := False,
     most_recent_dci_t := 0\<rparr>"

definition ngscope_reTx_activate_buf :: "ngscope_reordering_buf_t \<Rightarrow> ngscope_reordering_buf_t" where
  "ngscope_reTx_activate_buf q = q\<lparr>buffer_active := True, buf_size := 0, start_pkt_found := True\<rparr>"


section \<open>The trace over all cells\<close>

definition tti_to_idx :: "u16 \<Rightarrow> u16 \<Rightarrow> u16" where
  "tti_to_idx tti tail_tti = of_int ((uint tti - uint tail_tti + MAX_TTI) smod MAX_TTI)"

definition add_subframe ::
  "ngscope_dci_t \<Rightarrow> int \<Rightarrow> u16 \<Rightarrow> int \<Rightarrow> ngscope_reTx_ca_t \<Rightarrow> ngscope_reTx_ca_t res" where
  "add_subframe q cells tail_tti j res =
     bindE (aget (d_tti q) j) (\<lambda>tti.
     let index = uint (tti_to_idx tti tail_tti) in
     bindE (aget (x_reTx (dl_dci q)) j) (\<lambda>rx.
     bindE (aget (rt_reTx res) index) (\<lambda>r.
     bindE (aset (rt_reTx res) index (r \<or> rx \<noteq> 0)) (\<lambda>rs.
     bindE (aget (x_tbs (dl_dci q)) j) (\<lambda>tbs.
     bindE (aget (rt_tbs res) index) (\<lambda>t.
     bindE (aset (rt_tbs res) index (t + tbs)) (\<lambda>ts.
     bindE (aget (time_stamp_us q) j) (\<lambda>us.
     bindE (aget (rt_rx_t_us res) index) (\<lambda>x.
     bindE (aset (rt_rx_t_us res) index (x + us div of_int cells)) (\<lambda>xs.
     Inr (res\<lparr>rt_reTx := rs, rt_tbs := ts, rt_rx_t_us := xs\<rparr>)))))))))))"

definition extract_ca_trace :: "ngscope_dci_t list \<Rightarrow> int \<Rightarrow> ngscope_reTx_ca_t res" where
  "extract_ca_trace dci_all cells =
     bindE (aget dci_all 0) (\<lambda>q0.
     let header_tti = d_ca_header q0; tail_tti = d_ca_tail q0;
         sz = tti_distance (of_int tail_tti) (of_int header_tti);
         res = \<lparr>rt_reTx = replicate (nat sz) False,
                rt_tti = map (\<lambda>i. wrap_tti (of_int (tail_tti + i))) (range_int 0 sz),
                rt_tbs = replicate (nat sz) 0, rt_rx_t_us = replicate (nat sz) 0, rt_size = sz\<rparr>
     in for_each (\<lambda>i res. bindE (aget dci_all i) (\<lambda>q.
          bindE (prefixE (nof_dci q) (d_tti q)) (\<lambda>ttis.
          let ss_idx = find_element_in_array_uint16 ttis (of_int tail_tti);
              ee_idx = find_element_in_array_uint16 ttis (of_int header_tti)
          in for_each (add_subframe q cells (of_int tail_tti)) (range_int ss_idx (ee_idx + 1)) res)))
          (range_int 0 cells) res)"

text \<open>
  The uplink trace copies all TTIs, but of the other arrays only the first element (\<open>memcpy\<close> with
  the size of one element).
\<close>

definition extract_ca_ul_trace :: "ngscope_dci_t list \<Rightarrow> ngscope_reTx_ca_t res" where
  "extract_ca_ul_trace dci_all =
     bindE (aget dci_all 0) (\<lambda>q0.
     let sz = nof_dci q0 in
     bindE (prefixE sz (d_tti q0)) (\<lambda>ttis.
     bindE (aget (x_reTx (ul_dci q0)) 0) (\<lambda>rx.
     bindE (aset (replicate (nat sz) False) 0 (rx \<noteq> 0)) (\<lambda>rs.
     bindE (aget (x_tbs (ul_dci q0)) 0) (\<lambda>tbs.
     bindE (aset (replicate (nat sz) 0) 0 tbs) (\<lambda>ts.
     bindE (aget (time_stamp_us q0) 0) (\<lambda>us.
     bindE (aset (replicate (nat sz) 0) 0 us) (\<lambda>xs.
     Inr \<lparr>rt_reTx = rs, rt_tti = ttis, rt_tbs = ts, rt_rx_t_us = xs, rt_size = sz\<rparr>))))))))"


section \<open>Bursts of retransmissions\<close>

text \<open>The first index of the eight (or fewer) subframes before \<open>index\<close>.\<close>

definition look_back :: "int \<Rightarrow> int" where
  "look_back index = (if index < 8 then 0 else index - 8)"

definition ngscope_reTx_is_new_burst :: "bool list \<Rightarrow> int \<Rightarrow> int \<Rightarrow> bool res" where
  "ngscope_reTx_is_new_burst reTx_array array_size index =
     (if index \<ge> array_size then Inr False
      else for_each (\<lambda>i ret. bindE (aget reTx_array i) (\<lambda>b. Inr (if b then False else ret)))
             (range_int (look_back index) index) True)"

definition ngscope_reTx_find_index_of_reTx :: "u16 list \<Rightarrow> u16 \<Rightarrow> int res" where
  "ngscope_reTx_find_index_of_reTx tti_array tti =
     bindE (prefixE NOF_LOG_DCI tti_array) (\<lambda>ttis. Inr (find_from ttis 0 tti))"

definition sum_tbs :: "u32 list \<Rightarrow> int \<Rightarrow> int \<Rightarrow> u32 res" where
  "sum_tbs tbs a b = for_each (\<lambda>i s. bindE (aget tbs i) (\<lambda>t. Inr (s + t))) (range_int a b) 0"

definition ngscope_reTx_sum_tbs_new_burst :: "u32 list \<Rightarrow> int \<Rightarrow> int \<Rightarrow> u32 res" where
  "ngscope_reTx_sum_tbs_new_burst tbs tbs_size index =
     (if index \<ge> tbs_size then Inr 0 else sum_tbs tbs (look_back index) index)"

definition ngscope_reTx_sum_tbs_in_burst :: "u32 list \<Rightarrow> int \<Rightarrow> int \<Rightarrow> int \<Rightarrow> u32 res" where
  "ngscope_reTx_sum_tbs_in_burst tbs tbs_size idx_last idx_curr =
     (if idx_last \<ge> tbs_size \<or> idx_curr \<ge> tbs_size then Inr 0
      else sum_tbs tbs (idx_last + 1) idx_curr)"

definition set_reTx_start_tti ::
  "ngscope_reTx_ca_t \<Rightarrow> int \<Rightarrow> ngscope_reordering_buf_t \<Rightarrow> ngscope_reordering_buf_t res" where
  "set_reTx_start_tti ca_trace idx q =
     bindE (ngscope_reTx_sum_tbs_new_burst (rt_tbs ca_trace) (rt_size ca_trace) idx) (\<lambda>s.
     bindE (aget (rt_tti ca_trace) idx) (\<lambda>tti.
     bindE (aget (rt_rx_t_us ca_trace) idx) (\<lambda>t.
     Inr (q\<lparr>buffer_active := True, rb_ready := True, buf_size := uint s + 11520 * 4,
            buf_start_tti := tti, buf_last_tti := tti, buf_start_t := t, buf_last_t := t\<rparr>))))"

definition set_reTx_tti_inBurst ::
  "ngscope_reTx_ca_t \<Rightarrow> int \<Rightarrow> ngscope_reordering_buf_t \<Rightarrow> ngscope_reordering_buf_t res" where
  "set_reTx_tti_inBurst ca_trace idx q =
     bindE (prefixE (rt_size ca_trace) (rt_tti ca_trace)) (\<lambda>ttis.
     let idx_last = find_element_in_array_uint16 ttis (buf_last_tti q) in
     bindE (ngscope_reTx_sum_tbs_in_burst (rt_tbs ca_trace) (rt_size ca_trace) idx_last idx) (\<lambda>s.
     bindE (aget (rt_tti ca_trace) idx) (\<lambda>tti.
     bindE (aget (rt_rx_t_us ca_trace) idx) (\<lambda>t.
     Inr (q\<lparr>buffer_active := True, buf_size := buf_size q + (uint s + 11520 * 4),
            buf_last_tti := tti, buf_last_t := t\<rparr>)))))"

text \<open>A retransmission in subframe \<open>i\<close>.\<close>

definition note_reTx ::
  "ngscope_reTx_ca_t \<Rightarrow> int \<Rightarrow> ngscope_reordering_buf_t \<Rightarrow> ngscope_reordering_buf_t res" where
  "note_reTx ca_trace i q =
     bindE (ngscope_reTx_is_new_burst (rt_reTx ca_trace) (rt_size ca_trace) i) (\<lambda>new_burst.
     if buffer_active q then
       (if new_burst then Inr q else set_reTx_tti_inBurst ca_trace i q)
     else
       (if new_burst \<or> \<not> rb_ready q then set_reTx_start_tti ca_trace i q
        else set_reTx_tti_inBurst ca_trace i (ngscope_reTx_activate_buf q)))"

text \<open>The loop over the subframes \<open>is\<close>: \<open>continue\<close>, the body, and \<open>break\<close>.\<close>

fun update_reTx_loop ::
  "ngscope_reTx_ca_t \<Rightarrow> int list \<Rightarrow> bool \<Rightarrow> ngscope_reordering_buf_t \<Rightarrow> (bool \<times> ngscope_reordering_buf_t) res" where
  "update_reTx_loop ca_trace [] found_reTx q = Inr (found_reTx, q)"
| "update_reTx_loop ca_trace (i # is) found_reTx q =
     bindE (aget (rt_tti ca_trace) i) (\<lambda>tti.
     if tti_a_se_b (wrap_tti tti) (wrap_tti (buf_last_tti q)) \<and> rb_ready q
     then update_reTx_loop ca_trace is found_reTx q
     else
       bindE (aget (rt_reTx ca_trace) i) (\<lambda>r.
       bindE (if r then note_reTx ca_trace i q else Inr q) (\<lambda>q1.
       let found1 = (found_reTx \<or> r) in
       if buffer_active q1 \<and> tti_a_l_b (wrap_tti tti) (wrap_tti (buf_last_tti q1 + 8))
       then Inr (found1, q1)
       else update_reTx_loop ca_trace is found1 q1)))"

definition update_reTx_buf ::
  "ngscope_reTx_ca_t \<Rightarrow> ngscope_reordering_buf_t \<Rightarrow> (bool \<times> ngscope_reordering_buf_t) res" where
  "update_reTx_buf ca_trace q = update_reTx_loop ca_trace (range_int 0 (rt_size ca_trace)) False q"

definition ngscope_reTx_update_buf ::
  "ngscope_dci_t list \<Rightarrow> int \<Rightarrow> ngscope_reordering_buf_t \<Rightarrow> (bool \<times> ngscope_reordering_buf_t) res" where
  "ngscope_reTx_update_buf dci_all cells q =
     bindE (extract_ca_trace dci_all cells) (\<lambda>trace. update_reTx_buf trace q)"

definition ngscope_reTx_update_ul_buf ::
  "ngscope_dci_t list \<Rightarrow> ngscope_reordering_buf_t \<Rightarrow> ngscope_reordering_buf_t res" where
  "ngscope_reTx_update_ul_buf dci_all q =
     bindE (extract_ca_ul_trace dci_all) (\<lambda>trace.
     bindE (update_reTx_buf trace q) (\<lambda>(found, q'). Inr q'))"


section \<open>The start of a burst among the packets\<close>

definition is_burst_start :: "u64 list \<Rightarrow> u64 list \<Rightarrow> int \<Rightarrow> int \<Rightarrow> bool res" where
  "is_burst_start pkt_t_us oneway pkt_num index =
     (if index \<ge> pkt_num then Inr False
      else if index = 0 then Inr True
      else
        bindE (aget pkt_t_us index) (\<lambda>t1. bindE (aget pkt_t_us (index - 1)) (\<lambda>t0.
        if \<bar>long_of t1 - long_of t0\<bar> \<ge> 6500 then
          bindE (aget oneway index) (\<lambda>o1. bindE (aget oneway (index - 1)) (\<lambda>o0.
          Inr (long_of o1 - long_of o0 > 3500)))
        else Inr False)))"

definition judge_dci_pkt_time_align :: "u64 \<Rightarrow> u64 \<Rightarrow> bool" where
  "judge_dci_pkt_time_align pkt_t_us dci_t_us \<longleftrightarrow> \<bar>long_of (pkt_t_us - dci_t_us)\<bar> \<le> 4000"

text \<open>The first of the indices \<open>is\<close> at which a burst starts.\<close>

fun first_burst_start :: "u64 list \<Rightarrow> u64 list \<Rightarrow> int \<Rightarrow> int list \<Rightarrow> int option res" where
  "first_burst_start pkt_t_us oneway pkt_num [] = Inr None"
| "first_burst_start pkt_t_us oneway pkt_num (i # is) =
     bindE (is_burst_start pkt_t_us oneway pkt_num i) (\<lambda>b.
     if b then Inr (Some i) else first_burst_start pkt_t_us oneway pkt_num is)"

definition ngscope_reTx_find_burst_start :: "u64 list \<Rightarrow> u64 list \<Rightarrow> int \<Rightarrow> u64 \<Rightarrow> int res" where
  "ngscope_reTx_find_burst_start pkt_t_us oneway pkt_num dci_reTx_t_us =
     bindE (prefixE pkt_num pkt_t_us) (\<lambda>pkts.
     let index = nearest_neighbour_index pkts dci_reTx_t_us;
         before = (if index < 8 then rev (range_int 0 (index + 1)) else rev (range_int (index - 7) (index + 1)));
         after = (if index + 8 < pkt_num then range_int (index + 1) (index + 8) else range_int (index + 1) pkt_num)
     in bindE (first_burst_start pkt_t_us oneway pkt_num before) (\<lambda>r.
        case r of Some i \<Rightarrow> Inr i
        | None \<Rightarrow>
            bindE (first_burst_start pkt_t_us oneway pkt_num after) (\<lambda>r.
            case r of Some i \<Rightarrow> Inr i
            | None \<Rightarrow>
                bindE (aget pkt_t_us (pkt_num - 1)) (\<lambda>t.
                Inr (if \<bar>long_of (dci_reTx_t_us - t)\<bar> < 10000 then - 1 else index)))))"


section \<open>Properties\<close>

definition trace_ok :: "ngscope_reTx_ca_t \<Rightarrow> bool" where
  "trace_ok t \<longleftrightarrow> int (length (rt_reTx t)) = rt_size t \<and> int (length (rt_tti t)) = rt_size t
     \<and> int (length (rt_tbs t)) = rt_size t \<and> int (length (rt_rx_t_us t)) = rt_size t"

text \<open>An active buffer has seen a retransmission and is not empty.\<close>

definition rb_ok :: "ngscope_reordering_buf_t \<Rightarrow> bool" where
  "rb_ok q \<longleftrightarrow> (buffer_active q \<longrightarrow> rb_ready q \<and> 0 < buf_size q)"

lemma rb_ok_init: "rb_ok ngscope_reTx_init_buf" and rb_ok_reset: "rb_ok (ngscope_reTx_reset_buf q)"
  by (simp_all add: rb_ok_def ngscope_reTx_init_buf_def ngscope_reTx_reset_buf_def)

lemma aget_total: "0 \<le> i \<Longrightarrow> i < int (length xs) \<Longrightarrow> \<exists>x. aget xs i = Inr x"
  by (simp add: aget_def nat_less_iff)

lemma sum_tbs_total: "0 \<le> a \<Longrightarrow> b \<le> int (length tbs) \<Longrightarrow> \<exists>s. sum_tbs tbs a b = Inr s"
  unfolding sum_tbs_def
  using for_each_total [of "\<lambda>s. True" 0 "range_int a b" "\<lambda>i s. bindE (aget tbs i) (\<lambda>t. Inr (s + t))"]
  by (auto simp: aget_def nat_less_iff)

lemma new_burst_loop:
  assumes "0 \<le> a" and "b \<le> int (length rs)"
  shows "for_each (\<lambda>i ret. bindE (aget rs i) (\<lambda>b. Inr (if b then False else ret))) (range_int a b) r
    = Inr (r \<and> (\<forall>i. a \<le> i \<and> i < b \<longrightarrow> \<not> rs ! nat i))"
  using assms(1)
proof (induction "nat (b - a)" arbitrary: a r)
  case 0
  then have "b \<le> a" by simp
  then show ?case by auto
next
  case (Suc n)
  then have ab: "a < b" by simp
  have all: "(\<forall>i. a \<le> i \<and> i < b \<longrightarrow> \<not> rs ! nat i) \<longleftrightarrow> \<not> rs ! nat a \<and> (\<forall>i. a + 1 \<le> i \<and> i < b \<longrightarrow> \<not> rs ! nat i)"
    using ab by (metis (full_types) add1_zle_eq order_le_less)
  have "aget rs a = Inr (rs ! nat a)" using Suc.prems ab assms(2) by (simp add: aget_def nat_less_iff)
  moreover have "n = nat (b - (a + 1))" "0 \<le> a + 1" using Suc by simp_all
  ultimately show ?case using Suc.hyps(1) [of "a + 1"] unfolding all by (simp add: range_int_Cons [OF ab])
qed

lemma is_new_burst_eq:
  assumes "trace_ok t" and "0 \<le> i" and "i < rt_size t"
  shows "ngscope_reTx_is_new_burst (rt_reTx t) (rt_size t) i
    = Inr (\<forall>j. max 0 (i - 8) \<le> j \<and> j < i \<longrightarrow> \<not> rt_reTx t ! nat j)"
proof -
  have "look_back i = max 0 (i - 8)" using assms(2) by (simp add: look_back_def)
  then show ?thesis
    using new_burst_loop [of "look_back i" i "rt_reTx t" True] assms
    by (simp add: ngscope_reTx_is_new_burst_def trace_ok_def)
qed

text \<open>
  A retransmission starts a new burst exactly when none of the up to eight subframes before it
  carried a retransmission; the test never reads outside the trace.
\<close>

theorem is_new_burst_window:
  assumes "trace_ok t" and "0 \<le> i" and "i < rt_size t"
  shows "ngscope_reTx_is_new_burst (rt_reTx t) (rt_size t) i
    = Inr (\<forall>j. max 0 (i - 8) \<le> j \<and> j < i \<longrightarrow> \<not> rt_reTx t ! nat j)"
  by (rule is_new_burst_eq [OF assms])

theorem is_new_burst_window_witness:
  "ngscope_reTx_is_new_burst [True, False, False] 3 2 = Inr False"
  using is_new_burst_window [of "\<lparr>rt_reTx = [True, False, False], rt_tti = [1, 2, 3], rt_tbs = [5, 6, 7],
      rt_rx_t_us = [10, 20, 30], rt_size = 3\<rparr>" 2]
  by (auto simp: trace_ok_def intro: exI [of _ 0])

text \<open>What a retransmission in subframe \<open>i\<close> does to the buffer.\<close>

definition grown :: "ngscope_reTx_ca_t \<Rightarrow> int \<Rightarrow> ngscope_reordering_buf_t \<Rightarrow> ngscope_reordering_buf_t \<Rightarrow> bool" where
  "grown t i q q' \<longleftrightarrow> rb_ok q' \<and> buffer_active q'
     \<and> (if buffer_active q then buf_size q \<le> buf_size q' \<and> buf_start_tti q' = buf_start_tti q
          \<and> buf_start_t q' = buf_start_t q
        else 46080 \<le> buf_size q' \<and> (\<not> rb_ready q \<longrightarrow> buf_start_tti q' = rt_tti t ! nat i
          \<and> buf_start_t q' = rt_rx_t_us t ! nat i))"

lemma set_start_total:
  assumes "trace_ok t" and "0 \<le> i" and "i < rt_size t" and "\<not> buffer_active q"
  shows "\<exists>q'. set_reTx_start_tti t i q = Inr q' \<and> grown t i q q'"
proof -
  have "0 \<le> look_back i" by (simp add: look_back_def)
  then obtain s where "sum_tbs (rt_tbs t) (look_back i) i = Inr s"
    using sum_tbs_total [of "look_back i" i "rt_tbs t"] assms by (auto simp: trace_ok_def)
  moreover have "aget (rt_tti t) i = Inr (rt_tti t ! nat i)" "aget (rt_rx_t_us t) i = Inr (rt_rx_t_us t ! nat i)"
    using assms by (auto simp: trace_ok_def aget_def nat_less_iff)
  ultimately show ?thesis
    using assms by (simp add: set_reTx_start_tti_def ngscope_reTx_sum_tbs_new_burst_def rb_ok_def grown_def add_nonneg_pos)
qed

lemma set_inBurst_total:
  assumes "trace_ok t" and "0 \<le> i" and "i < rt_size t" and "rb_ready q" and "0 \<le> buf_size q"
  shows "\<exists>q'. set_reTx_tti_inBurst t i q = Inr q' \<and> rb_ok q' \<and> buffer_active q'
    \<and> buf_size q + 46080 \<le> buf_size q' \<and> buf_start_tti q' = buf_start_tti q \<and> buf_start_t q' = buf_start_t q"
proof -
  let ?l = "find_element_in_array_uint16 (rt_tti t) (buf_last_tti q)"
  have "0 \<le> ?l + 1" using find_element_in_array_uint16_cases [of "rt_tti t" "buf_last_tti q"] by auto
  then obtain s0 where "sum_tbs (rt_tbs t) (?l + 1) i = Inr s0"
    using sum_tbs_total [of "?l + 1" i "rt_tbs t"] assms by (auto simp: trace_ok_def)
  then obtain s where "ngscope_reTx_sum_tbs_in_burst (rt_tbs t) (rt_size t) ?l i = Inr s"
    by (cases "rt_size t \<le> ?l \<or> rt_size t \<le> i") (auto simp: ngscope_reTx_sum_tbs_in_burst_def)
  moreover obtain x y where "aget (rt_tti t) i = Inr x" "aget (rt_rx_t_us t) i = Inr y"
    using aget_total [of i "rt_tti t"] aget_total [of i "rt_rx_t_us t"] assms by (auto simp: trace_ok_def)
  moreover have "prefixE (rt_size t) (rt_tti t) = Inr (rt_tti t)"
    using assms(1) unfolding trace_ok_def by (metis prefixE_nat order_refl take_all)
  moreover have more: "0 < buf_size q + (uint s + 46080)" using uint_ge_0 [of s] assms(5) by linarith
  ultimately show ?thesis
    using assms(4) more by (auto simp: set_reTx_tti_inBurst_def Let_def rb_ok_def)
qed

lemma note_reTx_total:
  assumes "trace_ok t" and "0 \<le> i" and "i < rt_size t" and "rb_ok q"
  shows "\<exists>q'. note_reTx t i q = Inr q' \<and> grown t i q q'"
proof -
  obtain b where b: "ngscope_reTx_is_new_burst (rt_reTx t) (rt_size t) i = Inr b"
    using is_new_burst_eq [OF assms(1-3)] by simp
  show ?thesis
  proof (cases "buffer_active q")
    case True
    then show ?thesis
      using b set_inBurst_total [OF assms(1-3), of q] assms(4) by (cases b) (auto simp: note_reTx_def rb_ok_def grown_def)
  next
    case False
    have "\<exists>q'. set_reTx_tti_inBurst t i (ngscope_reTx_activate_buf q) = Inr q' \<and> grown t i q q'" if "rb_ready q"
      using set_inBurst_total [OF assms(1-3), of "ngscope_reTx_activate_buf q"] that False
      by (auto simp: ngscope_reTx_activate_buf_def grown_def)
    then show ?thesis
      using set_start_total [OF assms(1-3) False] b False by (auto simp: note_reTx_def)
  qed
qed

text \<open>
  The subframes that the loop skips, those at which it stops, and whether it comes to a retransmission
  in the subframes \<open>is\<close>.
\<close>

definition already_seen :: "ngscope_reTx_ca_t \<Rightarrow> ngscope_reordering_buf_t \<Rightarrow> int \<Rightarrow> bool" where
  "already_seen t q i \<longleftrightarrow> rb_ready q \<and> tti_a_se_b (wrap_tti (rt_tti t ! nat i)) (wrap_tti (buf_last_tti q))"

definition beyond_burst :: "ngscope_reTx_ca_t \<Rightarrow> ngscope_reordering_buf_t \<Rightarrow> int \<Rightarrow> bool" where
  "beyond_burst t q i \<longleftrightarrow> buffer_active q \<and> \<not> already_seen t q i
     \<and> tti_a_l_b (wrap_tti (rt_tti t ! nat i)) (wrap_tti (buf_last_tti q + 8))"

definition finds_reTx :: "ngscope_reTx_ca_t \<Rightarrow> ngscope_reordering_buf_t \<Rightarrow> int list \<Rightarrow> nat \<Rightarrow> bool" where
  "finds_reTx t q is k \<longleftrightarrow> rt_reTx t ! nat (is ! k) \<and> \<not> already_seen t q (is ! k)
     \<and> (\<forall>m < k. \<not> beyond_burst t q (is ! m) \<and> (rt_reTx t ! nat (is ! m) \<longrightarrow> already_seen t q (is ! m)))"

lemma finds_reTx_Cons:
  "(\<exists>k < length (i # is). finds_reTx t q (i # is) k \<and> P ((i # is) ! k))
   \<longleftrightarrow> (if rt_reTx t ! nat i \<and> \<not> already_seen t q i then P i
        else \<not> beyond_burst t q i \<and> (\<exists>k < length is. finds_reTx t q is k \<and> P (is ! k)))"
  unfolding length_Cons Ex_less_Suc2 by (auto simp: finds_reTx_def All_less_Suc2)

lemma update_reTx_loop_total:
  assumes "trace_ok t" and "\<forall>i \<in> set is. 0 \<le> i \<and> i < rt_size t" and "rb_ok q"
  shows "\<exists>f q'. update_reTx_loop t is found q = Inr (f, q') \<and> rb_ok q'
    \<and> (f \<longleftrightarrow> found \<or> (\<exists>k < length is. finds_reTx t q is k))
    \<and> (if \<exists>k < length is. finds_reTx t q is k
       then \<exists>k < length is. finds_reTx t q is k \<and> grown t (is ! k) q q' else q' = q)"
  using assms(2,3)
proof (induction "is" arbitrary: found q)
  case (Cons i "is")
  have i: "0 \<le> i" "i < rt_size t" using Cons.prems(1) by simp_all
  have x: "aget (rt_tti t) i = Inr (rt_tti t ! nat i)" and r: "aget (rt_reTx t) i = Inr (rt_reTx t ! nat i)"
    using i assms(1) by (auto simp: trace_ok_def aget_def nat_less_iff)
  have none: "(\<exists>k < length (i # is). finds_reTx t q (i # is) k)
      \<longleftrightarrow> (if rt_reTx t ! nat i \<and> \<not> already_seen t q i then True
           else \<not> beyond_burst t q i \<and> (\<exists>k < length is. finds_reTx t q is k))"
    using finds_reTx_Cons [of i "is" t q "\<lambda>_. True"] by simp
  note some = finds_reTx_Cons [of i "is" t q "\<lambda>j. grown t j q q'" for q']
  show ?case
  proof (cases "already_seen t q i")
    case True
    then have "update_reTx_loop t (i # is) found q = update_reTx_loop t is found q"
      by (simp add: x already_seen_def)
    moreover have "\<not> beyond_burst t q i" using True by (simp add: beyond_burst_def)
    moreover obtain f q' where q': "update_reTx_loop t is found q = Inr (f, q')" "rb_ok q'"
        "f \<longleftrightarrow> found \<or> (\<exists>k < length is. finds_reTx t q is k)"
        "if \<exists>k < length is. finds_reTx t q is k
         then \<exists>k < length is. finds_reTx t q is k \<and> grown t (is ! k) q q' else q' = q"
        using Cons.IH [OF _ Cons.prems(2), of found] Cons.prems(1) by auto
    ultimately show ?thesis using True unfolding none some by (intro exI [of _ f] exI [of _ q']) simp
  next
    case False
    have step: "update_reTx_loop t (i # is) found q =
        bindE (if rt_reTx t ! nat i then note_reTx t i q else Inr q) (\<lambda>q1.
          if buffer_active q1 \<and> tti_a_l_b (wrap_tti (rt_tti t ! nat i)) (wrap_tti (buf_last_tti q1 + 8))
          then Inr (found \<or> rt_reTx t ! nat i, q1)
          else update_reTx_loop t is (found \<or> rt_reTx t ! nat i) q1)"
      using False unfolding update_reTx_loop.simps x r bindE.simps Let_def already_seen_def by auto
    show ?thesis
    proof (cases "rt_reTx t ! nat i")
      case True
      obtain q1 where q1: "note_reTx t i q = Inr q1" "grown t i q q1"
        using note_reTx_total [OF assms(1) i Cons.prems(2)] by blast
      then have ok1: "rb_ok q1" "buffer_active q1" by (simp_all add: grown_def)
      obtain f q' where q': "update_reTx_loop t is True q1 = Inr (f, q')" "rb_ok q'" "f"
        "(\<exists>k. grown t k q1 q') \<or> q' = q1"
        using Cons.IH [OF _ ok1(1), of True] Cons.prems(1) by (auto split: if_splits)
      have "grown t i q q'" using q1(2) q'(4) ok1(2) by (auto simp: grown_def split: if_splits)
      then show ?thesis
        unfolding step none some using True False q1 ok1(1) q'(1-3)
        by (cases "tti_a_l_b (wrap_tti (rt_tti t ! nat i)) (wrap_tti (buf_last_tti q1 + 8))")
          (auto intro: exI [of _ True])
    next
      case no: False
      obtain f q' where q': "update_reTx_loop t is found q = Inr (f, q')" "rb_ok q'"
        "f \<longleftrightarrow> found \<or> (\<exists>k < length is. finds_reTx t q is k)"
        "if \<exists>k < length is. finds_reTx t q is k
         then \<exists>k < length is. finds_reTx t q is k \<and> grown t (is ! k) q q' else q' = q"
        using Cons.IH [OF _ Cons.prems(2), of found] Cons.prems(1) by auto
      show ?thesis
        unfolding step none some using no False q' Cons.prems(2) by (auto simp: beyond_burst_def)
    qed
  qed
qed simp

text \<open>The outcome for a whole trace, in terms of its subframes.\<close>

lemma update_reTx_buf_outcome:
  assumes "trace_ok t" and "rb_ok q"
  defines "new \<equiv> \<lambda>i :: nat. rt_reTx t ! i \<and> \<not> already_seen t q (int i)
      \<and> (\<forall>j < i. \<not> beyond_burst t q (int j) \<and> (rt_reTx t ! j \<longrightarrow> already_seen t q (int j)))"
  shows "\<exists>f q'. update_reTx_buf t q = Inr (f, q') \<and> rb_ok q' \<and> (f \<longleftrightarrow> (\<exists>i < nat (rt_size t). new i))
    \<and> (if f then \<exists>i < nat (rt_size t). new i \<and> grown t (int i) q q' else q' = q)"
proof -
  have nth: "range_int 0 (rt_size t) ! k = int k" "length (range_int 0 (rt_size t)) = nat (rt_size t)"
    if "k < nat (rt_size t)" for k
    using that by (simp_all add: range_int_def)
  have len: "length (range_int 0 (rt_size t)) = nat (rt_size t)" by (simp add: range_int_def)
  have new: "finds_reTx t q (range_int 0 (rt_size t)) k \<longleftrightarrow> new k" if "k < nat (rt_size t)" for k
    using that by (simp add: finds_reTx_def new_def nth)
  show ?thesis
    using update_reTx_loop_total [OF assms(1) _ assms(2), of "range_int 0 (rt_size t)" False]
    unfolding update_reTx_buf_def len by (auto simp: new nth cong: conj_cong split: if_splits)
qed

lemma is_burst_start_total:
  assumes "length oneway = length pkts" and "0 \<le> i"
  shows "\<exists>b. is_burst_start pkts oneway (int (length pkts)) i = Inr b \<and> (i = 0 \<and> pkts \<noteq> [] \<longrightarrow> b)
    \<and> (b \<longrightarrow> i < int (length pkts))"
proof (cases "i \<ge> int (length pkts) \<or> i = 0")
  case True
  then show ?thesis by (auto simp: is_burst_start_def)
next
  case False
  then obtain t1 t0 o1 o0 where "aget pkts i = Inr t1" "aget pkts (i - 1) = Inr t0"
    "aget oneway i = Inr o1" "aget oneway (i - 1) = Inr o0"
    using aget_total [of i pkts] aget_total [of "i - 1" pkts] aget_total [of i oneway]
      aget_total [of "i - 1" oneway] assms by auto
  then show ?thesis using False
    by (cases "6500 \<le> \<bar>long_of t1 - long_of t0\<bar>") (auto simp: is_burst_start_def intro: exI [of _ False])
qed

lemma first_burst_start_total:
  assumes "length oneway = length pkts" and "\<forall>i \<in> set is. 0 \<le> i"
  shows "\<exists>r. first_burst_start pkts oneway (int (length pkts)) is = Inr r
    \<and> (\<forall>i. r = Some i \<longrightarrow> i \<in> set is \<and> i < int (length pkts)) \<and> (0 \<in> set is \<and> pkts \<noteq> [] \<longrightarrow> r \<noteq> None)"
  using assms(2)
proof (induction "is")
  case (Cons i "is")
  obtain b where "is_burst_start pkts oneway (int (length pkts)) i = Inr b" "i = 0 \<and> pkts \<noteq> [] \<longrightarrow> b"
    "b \<longrightarrow> i < int (length pkts)"
    using is_burst_start_total [OF assms(1), of i] Cons.prems by auto
  then show ?case using Cons by auto
qed simp

lemma find_burst_start_spec:
  assumes "pkts \<noteq> []" and "length oneway = length pkts"
  shows "\<exists>r. ngscope_reTx_find_burst_start pkts oneway (int (length pkts)) t = Inr r
    \<and> (r = - 1 \<or> 0 \<le> r \<and> r < int (length pkts))
    \<and> (nearest_neighbour_index pkts t < 8 \<longrightarrow> 0 \<le> r \<and> r \<le> nearest_neighbour_index pkts t)"
proof -
  define k where "k = nearest_neighbour_index pkts t"
  let ?n = "int (length pkts)"
  have k: "0 \<le> k" "k < ?n" using nearest_neighbour_index_bounds [OF assms(1)] by (auto simp: k_def)
  define before where "before = (if k < 8 then rev (range_int 0 (k + 1)) else rev (range_int (k - 7) (k + 1)))"
  define after where "after = (if k + 8 < ?n then range_int (k + 1) (k + 8) else range_int (k + 1) ?n)"
  have before_nonneg: "\<forall>i \<in> set before. 0 \<le> i" and after_nonneg: "\<forall>i \<in> set after. 0 \<le> i"
    using k by (auto simp: before_def after_def)
  obtain r1 where r1: "first_burst_start pkts oneway ?n before = Inr r1"
    "\<forall>i. r1 = Some i \<longrightarrow> i \<in> set before" "0 \<in> set before \<longrightarrow> r1 \<noteq> None"
    using first_burst_start_total [OF assms(2) before_nonneg] assms(1) by blast
  obtain r2 where r2: "first_burst_start pkts oneway ?n after = Inr r2" "\<forall>i. r2 = Some i \<longrightarrow> i \<in> set after"
    using first_burst_start_total [OF assms(2) after_nonneg] by blast
  obtain u where u: "aget pkts (?n - 1) = Inr u" using aget_total [of "?n - 1" pkts] k assms(1) by auto
  have run: "ngscope_reTx_find_burst_start pkts oneway ?n t = (case r1 of Some i \<Rightarrow> Inr i
      | None \<Rightarrow> (case r2 of Some i \<Rightarrow> Inr i | None \<Rightarrow> Inr (if \<bar>long_of (t - u)\<bar> < 10000 then - 1 else k)))"
    unfolding ngscope_reTx_find_burst_start_def prefixE_nat [OF order_refl] take_all [OF order_refl]
      bindE.simps Let_def k_def [symmetric] before_def [symmetric] after_def [symmetric] r1(1) r2(1) u
    by (cases r1; cases r2) simp_all
  have "k < 8 \<longrightarrow> r1 \<noteq> None" using r1(3) k by (auto simp: before_def)
  moreover have "\<forall>i \<in> set before. 0 \<le> i \<and> i \<le> k \<and> i < ?n" using k by (auto simp: before_def)
  moreover have "\<forall>i \<in> set after. 0 \<le> i \<and> i < ?n" using k by (auto simp: after_def)
  ultimately show ?thesis
    unfolding run k_def [symmetric] using r1(2) r2(2) k by (auto split: option.split)
qed

text \<open>
  The search for the start of a burst always returns the index of a packet or \<open>-1\<close>, without
  reading outside the packet arrays; when fewer than eight packets precede the one nearest to the
  retransmission, it finds a packet not after that one.
\<close>

theorem find_burst_start_valid:
  assumes "pkts \<noteq> []" and "length oneway = length pkts"
  shows "\<exists>r. ngscope_reTx_find_burst_start pkts oneway (int (length pkts)) t = Inr r
    \<and> (r = - 1 \<or> 0 \<le> r \<and> r < int (length pkts))
    \<and> (nearest_neighbour_index pkts t < 8 \<longrightarrow> 0 \<le> r \<and> r \<le> nearest_neighbour_index pkts t)"
  using assms by (rule find_burst_start_spec)

theorem find_burst_start_valid_witness:
  "\<exists>r. ngscope_reTx_find_burst_start [1000, 9000] [50, 6000] 2 9100 = Inr r \<and> (r = - 1 \<or> 0 \<le> r \<and> r < 2)"
  using find_burst_start_valid [of "[1000, 9000]" "[50, 6000]" 9100] by auto

end
