(* ===== verification/Tcp_Header.thy ===== *)
theory Tcp_Header
  imports Prelude
begin

text \<open>
  The packet header shared by the sender and the receivers (\<open>src/tcp-header.hh\<close>), field by field;
  the wire format is the memory of the struct, so a header travels as a value.
\<close>

record tcp_header =
  h_seq_num :: int
  h_flow_id :: int
  h_src_id :: int
  h_sender_timestamp :: real
  h_tx_timestamp :: u64
  h_receiver_timestamp :: real
  h_adjust_us :: int

end
