(* ===== verification/Ngscope_Packet_List.thy ===== *)
theory Ngscope_Packet_List
  imports Ngscope_ReTx Tcp_Header
begin

text \<open>
  Model of \<open>src/ngscope_packet_list.h\<close> and \<open>src/ngscope_packet_list.cc\<close>: the list of received
  packets. The doubly linked list behind the dummy head node is a HOL list of packets; the dummy
  node matters only through its (never initialised) \<open>recv_t_us\<close>, which two functions read and which
  is an argument \<open>head_t\<close> there. Pointers that callers never pass as null are not modelled as such.
\<close>


section \<open>Data\<close>

abbreviation RE_TX_DELAY_THD :: int where "RE_TX_DELAY_THD \<equiv> 7"

record pkt_header_t =
  sequence_number :: u32
  ack_number :: u32
  sent_timestamp :: u64
  sender_id :: int
  recv_len_byte :: u32

record packet_node =
  pkt_header :: pkt_header_t
  pkt_tcp_header :: tcp_header
  oneway_us :: u64
  recv_t_us :: u64
  oneway_us_new :: u64
  revert_flag :: bool
  acked :: bool
  burst_start :: bool


section \<open>The list as a window of packets\<close>

text \<open>The receiving time of the last node, which is the head of an empty list.\<close>

definition findLastNode :: "u64 \<Rightarrow> packet_node list \<Rightarrow> u64" where
  "findLastNode head_t ps = (if ps = [] then head_t else recv_t_us (last ps))"

fun delete_1st_element :: "packet_node list \<Rightarrow> packet_node list res" where
  "delete_1st_element [] = Inl NullDeref"
| "delete_1st_element (p # ps) = Inr ps"

definition delay_thd_us :: u64 where
  "delay_thd_us = of_int (NOF_LOG_DCI * 1000)"

text \<open>The loop of \<open>ngscope_list_checkTimeDelay_woTime\<close> (its condition is a disjunction).\<close>

function woTime_loop :: "u64 \<Rightarrow> u64 \<Rightarrow> packet_node list \<Rightarrow> packet_node list res" where
  "woTime_loop head_t curr_t_us ps =
     (if ps \<noteq> [] \<or> curr_t_us - head_t > delay_thd_us
      then bindE (delete_1st_element ps) (woTime_loop head_t curr_t_us)
      else Inr ps)"
  by auto
termination
  by (relation "measure (\<lambda>(h, c, ps). length ps)") (auto elim: delete_1st_element.elims)

declare woTime_loop.simps [simp del]

definition ngscope_list_checkTimeDelay_woTime :: "u64 \<Rightarrow> packet_node list \<Rightarrow> packet_node list res" where
  "ngscope_list_checkTimeDelay_woTime head_t ps =
     (if ps = [] then Inr ps else woTime_loop head_t (findLastNode head_t ps) ps)"

fun ngscope_list_checkTimeDelay_wTime :: "u64 \<Rightarrow> packet_node list \<Rightarrow> packet_node list" where
  "ngscope_list_checkTimeDelay_wTime curr_t_us [] = []"
| "ngscope_list_checkTimeDelay_wTime curr_t_us [p] = [p]"
| "ngscope_list_checkTimeDelay_wTime curr_t_us (p # p' # ps) =
     (if curr_t_us - recv_t_us p > delay_thd_us
      then ngscope_list_checkTimeDelay_wTime curr_t_us (p' # ps) else p # p' # ps)"

definition ngscope_list_insertNode :: "u64 \<Rightarrow> packet_node list \<Rightarrow> packet_node \<Rightarrow> packet_node list" where
  "ngscope_list_insertNode head_t ps node =
     (if findLastNode head_t ps > recv_t_us node then ps else ps @ [node])"

text \<open>The number of nodes that have a successor.\<close>

fun count_next :: "packet_node list \<Rightarrow> int" where
  "count_next [] = 0"
| "count_next [p] = 0"
| "count_next (p # p' # ps) = count_next (p' # ps) + 1"

definition ngscope_list_length :: "packet_node list \<Rightarrow> int" where
  "ngscope_list_length ps = (if ps = [] then 0 else count_next ps)"

definition ngscope_list_insertNode_checkTime :: "packet_node list \<Rightarrow> packet_node \<Rightarrow> packet_node list" where
  "ngscope_list_insertNode_checkTime ps node =
     (if ps = [] then [node]
      else if recv_t_us (last ps) > recv_t_us node then ps
      else ngscope_list_checkTimeDelay_wTime (recv_t_us node) (ps @ [node]))"


section \<open>Reverting the delay of a burst\<close>

text \<open>One packet of the loop: the two conditionals of its body.\<close>

definition revert_packet ::
  "packet_node \<Rightarrow> ngscope_reordering_buf_t \<Rightarrow> packet_node \<times> ngscope_reordering_buf_t" where
  "revert_packet p q =
     (let (p1, q1) =
        (if recv_t_us p = start_pkt_t q \<and> \<not> revert_flag p \<and> buffer_active q
         then (p\<lparr>oneway_us_new := ref_oneway q, revert_flag := True, burst_start := True\<rparr>,
               q\<lparr>buf_size := buf_size q - uint (recv_len_byte (pkt_header p) * 8)\<rparr>)
         else (p, q))
      in if recv_t_us p1 > start_pkt_t q1 \<and> \<not> revert_flag p1 \<and> buffer_active q1
         then (p1\<lparr>oneway_us_new := ref_oneway q1, revert_flag := True\<rparr>,
               q1\<lparr>buf_size := buf_size q1 - uint (recv_len_byte (pkt_header p1) * 8)\<rparr>)
         else (p1, q1))"

fun ngscope_list_revert_delay ::
  "packet_node list \<Rightarrow> ngscope_reordering_buf_t \<Rightarrow> packet_node list \<times> ngscope_reordering_buf_t" where
  "ngscope_list_revert_delay [] q = ([], q)"
| "ngscope_list_revert_delay (p # ps) q =
     (let (p', q') = revert_packet p q in
      if buf_size q' \<le> 0 then (p' # ps, ngscope_reTx_reset_buf q')
      else (let (ps', q'') = ngscope_list_revert_delay ps q' in (p' # ps', q'')))"


section \<open>Retransmissions among the packets\<close>

text \<open>
  Arrays that the callers allocate are lists; an array from \<open>malloc\<close> is a list of options whose
  elements are \<open>None\<close> until they are written.
\<close>

definition delay_jump_ms :: "u64 \<Rightarrow> u64 \<Rightarrow> int" where
  "delay_jump_ms next_oneway last_oneway =
     int_of_long \<bar>long_of next_oneway - long_of last_oneway\<bar> sdiv 1000"

text \<open>The loops over the indices \<open>is\<close>; \<open>ps\<close> are the nodes after the current one.\<close>

fun delay_diff_loop ::
  "packet_node list \<Rightarrow> int list \<Rightarrow> u64 \<Rightarrow> int option list \<times> u64 list \<Rightarrow> (int option list \<times> u64 list) res" where
  "delay_diff_loop ps [] last_oneway st = Inr st"
| "delay_diff_loop [] (i # is) last_oneway st = Inr st"
| "delay_diff_loop (p # ps) (i # is) last_oneway (dd, rt) =
     bindE (aset rt i (recv_t_us p)) (\<lambda>rt'.
     bindE (aset dd i (Some (delay_jump_ms (oneway_us p) last_oneway))) (\<lambda>dd'.
     delay_diff_loop ps is (oneway_us p) (dd', rt')))"

definition listDelayDiff ::
  "packet_node list \<Rightarrow> int \<Rightarrow> int option list \<Rightarrow> u64 list \<Rightarrow> (int \<times> int option list \<times> u64 list) res" where
  "listDelayDiff ps listLen delay_diff_ms recv_t =
     (case ps of [] \<Rightarrow> Inr (0, delay_diff_ms, recv_t)
      | p # ps' \<Rightarrow>
          bindE (aset delay_diff_ms 0 (Some 0)) (\<lambda>dd.
          bindE (aset recv_t 0 (recv_t_us p)) (\<lambda>rt.
          bindE (delay_diff_loop ps' (range_int 1 listLen) (oneway_us p) (dd, rt)) (\<lambda>st.
          Inr (listLen, st)))))"

definition read_init :: "'a option list \<Rightarrow> int \<Rightarrow> 'a res" where
  "read_init xs i = bindE (aget xs i) (\<lambda>x. case x of None \<Rightarrow> Inl UninitRead | Some v \<Rightarrow> Inr v)"

definition get_nof_reTx_pkt :: "int option list \<Rightarrow> int \<Rightarrow> int res" where
  "get_nof_reTx_pkt delay_diff_ms list_len =
     for_each (\<lambda>i cnt. bindE (read_init delay_diff_ms i) (\<lambda>d.
       Inr (if d \<ge> RE_TX_DELAY_THD then cnt + 1 else cnt))) (range_int 0 list_len) 0"

definition extract_reTx_from_pkt ::
  "int option list \<Rightarrow> u64 list \<Rightarrow> u64 option list \<Rightarrow> int \<Rightarrow> u64 option list res" where
  "extract_reTx_from_pkt delay_diff_ms recv_t reTx_recv_t list_len =
     bindE (for_each (\<lambda>i (reTx, cnt). bindE (read_init delay_diff_ms i) (\<lambda>d.
              if d \<ge> RE_TX_DELAY_THD then
                bindE (aget recv_t i) (\<lambda>t. bindE (aset reTx cnt (Some t)) (\<lambda>reTx'. Inr (reTx', cnt + 1)))
              else Inr (reTx, cnt))) (range_int 0 list_len) (reTx_recv_t, 0))
       (\<lambda>(reTx, cnt). Inr reTx)"

fun get_reTx_loop ::
  "packet_node list \<Rightarrow> int list \<Rightarrow> u64 \<Rightarrow> int option list \<times> u64 list \<times> u64 list
   \<Rightarrow> (int option list \<times> u64 list \<times> u64 list) res" where
  "get_reTx_loop ps [] last_oneway st = Inr st"
| "get_reTx_loop [] (i # is) last_oneway st = Inr st"
| "get_reTx_loop (p # ps) (i # is) last_oneway (dd, rt, ow) =
     bindE (aset rt i (recv_t_us p)) (\<lambda>rt'.
     bindE (aset dd i (Some (delay_jump_ms (oneway_us p) last_oneway))) (\<lambda>dd'.
     bindE (aset ow i (oneway_us p)) (\<lambda>ow'.
     get_reTx_loop ps is (oneway_us p) (dd', rt', ow'))))"

text \<open>
  The result: the array of retransmission times (\<open>None\<close> for the null pointer), the two arrays of
  the caller and the count, which keeps its value \<open>nof\<close> when the list is empty.
\<close>

definition ngscope_list_get_reTx ::
  "packet_node list \<Rightarrow> u64 list \<Rightarrow> u64 list \<Rightarrow> int \<Rightarrow> int
   \<Rightarrow> (u64 option list option \<times> u64 list \<times> u64 list \<times> int) res" where
  "ngscope_list_get_reTx ps recv_t oneway listLen nof =
     (case ps of [] \<Rightarrow> Inr (None, recv_t, oneway, nof)
      | p # ps' \<Rightarrow>
          bindE (aset (replicate (nat listLen) None) 0 (Some 0)) (\<lambda>dd.
          bindE (aset recv_t 0 (recv_t_us p)) (\<lambda>rt.
          bindE (aset oneway 0 (oneway_us p)) (\<lambda>ow.
          bindE (get_reTx_loop ps' (range_int 1 listLen) (oneway_us p) (dd, rt, ow)) (\<lambda>(dd, rt, ow).
          bindE (get_nof_reTx_pkt dd listLen) (\<lambda>nof_reTx.
          bindE (extract_reTx_from_pkt dd rt (replicate (nat nof_reTx) None) listLen) (\<lambda>reTx.
          Inr (Some reTx, rt, ow, nof_reTx))))))))"

text \<open>\<open>ngscope_list_get_pkt_t\<close> never writes the first element.\<close>

fun pkt_t_loop :: "packet_node list \<Rightarrow> int list \<Rightarrow> u64 option list \<Rightarrow> u64 option list res" where
  "pkt_t_loop ps [] rt = Inr rt"
| "pkt_t_loop [] (i # is) rt = Inr rt"
| "pkt_t_loop (p # ps) (i # is) rt = bindE (aset rt i (Some (recv_t_us p))) (pkt_t_loop ps is)"

definition ngscope_list_get_pkt_t :: "packet_node list \<Rightarrow> int \<Rightarrow> (u64 option list option \<times> int) res" where
  "ngscope_list_get_pkt_t ps nof_pkt =
     (case ps of [] \<Rightarrow> Inr (None, nof_pkt)
      | p # ps' \<Rightarrow>
          let listLen = ngscope_list_length ps in
          bindE (pkt_t_loop ps' (range_int 1 listLen) (replicate (nat listLen) None)) (\<lambda>rt.
          Inr (Some rt, listLen)))"

definition sum_cnt :: "u64 list \<Rightarrow> int list \<Rightarrow> (u64 \<times> int) res" where
  "sum_cnt oneway is =
     for_each (\<lambda>i (s, cnt). bindE (aget oneway i) (\<lambda>x. Inr (s + x, cnt + 1))) is (0, 0)"

definition ngscope_list_ave_oneway :: "u64 list \<Rightarrow> int \<Rightarrow> int \<Rightarrow> int \<Rightarrow> u64 res" where
  "ngscope_list_ave_oneway oneway nof_pkt index len =
     bindE (sum_cnt oneway (if index - len < 0 then range_int 0 (index - 1)
                            else range_int (index - len) (index - 1)))
       (\<lambda>(s, cnt). if cnt = 0 then Inl DivByZero else Inr (s div of_int cnt))"


section \<open>The list keeps one second of packets\<close>

definition time_sorted :: "packet_node list \<Rightarrow> bool" where
  "time_sorted ps \<longleftrightarrow> sorted (map recv_t_us ps)"

definition within_window :: "packet_node \<Rightarrow> packet_node \<Rightarrow> bool" where
  "within_window node p \<longleftrightarrow> uint (recv_t_us node) - uint (recv_t_us p) \<le> 1000000"

lemma older_than_window:
  assumes "recv_t_us p \<le> t"
  shows "t - recv_t_us p > delay_thd_us \<longleftrightarrow> uint t - uint (recv_t_us p) > 1000000"
  using assms uint_minus_simple_alt [of "recv_t_us p" t]
  by (simp add: delay_thd_us_def word_less_def)

lemma time_sorted_Cons [simp]:
  "time_sorted (p # ps) \<longleftrightarrow> (\<forall>x \<in> set ps. recv_t_us p \<le> recv_t_us x) \<and> time_sorted ps"
  by (auto simp: time_sorted_def)

lemma time_sorted_snoc:
  "time_sorted (ps @ [p]) \<longleftrightarrow> time_sorted ps \<and> (ps \<noteq> [] \<longrightarrow> recv_t_us (last ps) \<le> recv_t_us p)"
proof (induction ps)
  case (Cons x xs)
  then show ?case by (cases "xs = []") (auto intro: order_trans)
qed (simp add: time_sorted_def)

lemma wTime_filter:
  assumes "time_sorted ps" and "ps \<noteq> []" and "last ps = node"
  shows "ngscope_list_checkTimeDelay_wTime (recv_t_us node) ps = filter (within_window node) ps"
  using assms
proof (induction "recv_t_us node" ps rule: ngscope_list_checkTimeDelay_wTime.induct)
  case (3 p p' ps)
  have le: "\<forall>x \<in> set (p # p' # ps). recv_t_us p \<le> recv_t_us x" using 3(2) by auto
  have pn: "recv_t_us p \<le> recv_t_us node" using 3(2,4) by (metis last_in_set le list.discI)
  show ?case
  proof (cases "within_window node p")
    case True
    have "within_window node x" if "x \<in> set (p # p' # ps)" for x
      using True le that unfolding within_window_def word_le_def by fastforce
    then have all: "filter (within_window node) (p # p' # ps) = p # p' # ps"
      unfolding filter_id_conv by blast
    have "\<not> recv_t_us node - recv_t_us p > delay_thd_us"
      using True by (simp add: older_than_window [OF pn] within_window_def)
    then show ?thesis by (simp only: all ngscope_list_checkTimeDelay_wTime.simps if_False)
  next
    case False
    then show ?thesis using 3 by (simp add: older_than_window [OF pn] within_window_def)
  qed
qed (auto simp: within_window_def)


lemma time_sorted_filter: "time_sorted ps \<Longrightarrow> time_sorted (filter P ps)"
  by (induction ps) (auto simp: time_sorted_def)

text \<open>
  C15. Inserting a packet whose receiving time is not before the last one keeps exactly the packets
  of the last second (in the order of arrival, with the new packet last); inserting an earlier one
  leaves the list as it is. Either way the list stays sorted by receiving time.
\<close>

theorem insertNode_keeps_window:
  assumes "time_sorted ps"
  shows "ngscope_list_insertNode_checkTime ps node =
           (if ps \<noteq> [] \<and> recv_t_us node < recv_t_us (last ps) then ps
            else filter (within_window node) (ps @ [node]))
         \<and> time_sorted (ngscope_list_insertNode_checkTime ps node)
         \<and> (\<forall>p \<in> set (ngscope_list_insertNode_checkTime ps node). p \<in> set ps \<or> p = node)"
proof (cases "ps \<noteq> [] \<and> recv_t_us node < recv_t_us (last ps)")
  case True
  then show ?thesis using assms by (auto simp: ngscope_list_insertNode_checkTime_def)
next
  case False
  then have sorted: "time_sorted (ps @ [node])" using assms by (auto simp: time_sorted_snoc)
  have "ngscope_list_insertNode_checkTime ps node = filter (within_window node) (ps @ [node])"
  proof (cases "ps = []")
    case True
    then show ?thesis by (simp add: ngscope_list_insertNode_checkTime_def within_window_def)
  next
    case nonempty: False
    then show ?thesis using False wTime_filter [OF sorted]
      by (simp add: ngscope_list_insertNode_checkTime_def)
  qed
  then show ?thesis using False time_sorted_filter [OF sorted, of "within_window node"] by auto
qed

definition test_packet :: "u64 \<Rightarrow> u64 \<Rightarrow> packet_node" where
  "test_packet t oneway = \<lparr>pkt_header = \<lparr>sequence_number = 0, ack_number = 0, sent_timestamp = 0,
     sender_id = 0, recv_len_byte = 100\<rparr>, pkt_tcp_header = \<lparr>h_seq_num = 0, h_flow_id = 0,
     h_src_id = 0, h_sender_timestamp = 0, h_tx_timestamp = 0, h_receiver_timestamp = 0,
     h_adjust_us = 0\<rparr>, oneway_us = oneway, recv_t_us = t, oneway_us_new = oneway,
     revert_flag = False, acked = False, burst_start = False\<rparr>"

theorem insertNode_keeps_window_witness:
  "ngscope_list_insertNode_checkTime [test_packet 5 1] (test_packet 2000000 1) = [test_packet 2000000 1]"
  using insertNode_keeps_window [of "[test_packet 5 1]" "test_packet 2000000 1"]
  by (simp add: time_sorted_def test_packet_def within_window_def)

text \<open>
  The variant without the current time deletes every packet, whatever its age, and then follows the
  null pointer unless the uninitialised time of the head node happens to be recent.
\<close>

lemma woTime_loop_empties:
  "woTime_loop h c ps = (if c - h > delay_thd_us then Inl NullDeref else Inr [])"
proof (induction ps)
  case Nil
  then show ?case by (subst woTime_loop.simps) simp
next
  case (Cons p ps)
  then show ?case by (subst woTime_loop.simps) simp
qed

lemma checkTimeDelay_woTime_empties:
  "ps \<noteq> [] \<Longrightarrow> ngscope_list_checkTimeDelay_woTime h ps =
     (if recv_t_us (last ps) - h > delay_thd_us then Inl NullDeref else Inr [])"
  by (simp add: ngscope_list_checkTimeDelay_woTime_def findLastNode_def woTime_loop_empties)

lemma count_next_eq: "ps \<noteq> [] \<Longrightarrow> count_next ps = int (length ps) - 1"
  by (induction ps rule: count_next.induct) auto

text \<open>
  The length that the list reports is one less than the number of packets (and 0 for the empty
  list), so the newest packet is left out of every analysis that uses it.
\<close>

theorem list_length_one_short:
  "ngscope_list_length ps = (if ps = [] then 0 else int (length ps) - 1)"
  by (simp add: ngscope_list_length_def count_next_eq)


section \<open>Reverting drains the re-ordering buffer\<close>

definition eligible :: "ngscope_reordering_buf_t \<Rightarrow> packet_node \<Rightarrow> bool" where
  "eligible q p \<longleftrightarrow> start_pkt_t q \<le> recv_t_us p \<and> \<not> revert_flag p"

definition pkt_bits :: "packet_node \<Rightarrow> int" where
  "pkt_bits p = uint (recv_len_byte (pkt_header p) * 8)"

definition reverted :: "ngscope_reordering_buf_t \<Rightarrow> packet_node \<Rightarrow> packet_node" where
  "reverted q p = p\<lparr>oneway_us_new := ref_oneway q, revert_flag := True,
                   burst_start := burst_start p \<or> recv_t_us p = start_pkt_t q\<rparr>"

definition revert_if_eligible :: "ngscope_reordering_buf_t \<Rightarrow> packet_node \<Rightarrow> packet_node" where
  "revert_if_eligible q p = (if eligible q p then reverted q p else p)"

definition eligible_bits :: "ngscope_reordering_buf_t \<Rightarrow> packet_node list \<Rightarrow> int" where
  "eligible_bits q ps = sum_list (map pkt_bits (filter (eligible q) ps))"

lemma eligible_bits_simps [simp]:
  "eligible_bits q [] = 0"
  "eligible_bits q (p # ps) = (if eligible q p then pkt_bits p else 0) + eligible_bits q ps"
  by (simp_all add: eligible_bits_def)

lemma pkt_bits_nonneg [simp]: "0 \<le> pkt_bits p"
  by (simp add: pkt_bits_def)

lemma revert_packet_eq:
  assumes "buffer_active q"
  shows "revert_packet p q = (revert_if_eligible q p,
           if eligible q p then q\<lparr>buf_size := buf_size q - pkt_bits p\<rparr> else q)"
  using assms
  by (cases "recv_t_us p = start_pkt_t q")
    (auto simp: revert_packet_def revert_if_eligible_def eligible_def reverted_def pkt_bits_def
      intro!: packet_node.equality)

lemma eligible_buf_size [simp]: "eligible (q\<lparr>buf_size := n\<rparr>) = eligible q"
  by (auto simp: fun_eq_iff eligible_def)

lemma revert_buf_size [simp]:
  "reverted (q\<lparr>buf_size := n\<rparr>) = reverted q"
  "revert_if_eligible (q\<lparr>buf_size := n\<rparr>) = revert_if_eligible q"
  "eligible_bits (q\<lparr>buf_size := n\<rparr>) = eligible_bits q"
  by (auto simp: fun_eq_iff revert_if_eligible_def reverted_def eligible_bits_def)

lemma reset_buf_size [simp]: "ngscope_reTx_reset_buf (q\<lparr>buf_size := n\<rparr>) = ngscope_reTx_reset_buf q"
  by (simp add: ngscope_reTx_reset_buf_def)

lemma revert_delay_all:
  assumes "buffer_active q" and "eligible_bits q ps < buf_size q"
  shows "ngscope_list_revert_delay ps q
    = (map (revert_if_eligible q) ps, q\<lparr>buf_size := buf_size q - eligible_bits q ps\<rparr>)"
  using assms
proof (induction ps arbitrary: q)
  case (Cons p ps)
  define q' where "q' = (if eligible q p then q\<lparr>buf_size := buf_size q - pkt_bits p\<rparr> else q)"
  have nonneg: "0 \<le> eligible_bits q ps"
    by (auto simp: eligible_bits_def intro!: sum_list_nonneg)
  have q': "buffer_active q'" "eligible_bits q' ps < buf_size q'" "0 < buf_size q'"
    using Cons.prems nonneg by (auto simp: q'_def split: if_splits)
  show ?case
    using Cons.IH [OF q'(1,2)] q'(3) revert_packet_eq [OF Cons.prems(1), of p]
    by (auto simp: q'_def split: if_splits)
qed simp

lemma revert_delay_drained:
  assumes "buffer_active q" and "0 < buf_size q" and "buf_size q \<le> eligible_bits q ps"
  shows "\<exists>before p after. ps = before @ p # after \<and> eligible q p
    \<and> eligible_bits q before < buf_size q \<and> buf_size q \<le> eligible_bits q before + pkt_bits p
    \<and> ngscope_list_revert_delay ps q
        = (map (revert_if_eligible q) before @ reverted q p # after, ngscope_reTx_reset_buf q)"
  using assms
proof (induction ps arbitrary: q)
  case (Cons p ps)
  note step = revert_packet_eq [OF Cons.prems(1), of p]
  show ?case
  proof (cases "eligible q p \<and> buf_size q \<le> pkt_bits p")
    case True
    then show ?thesis using step Cons.prems(2)
      by (intro exI [of _ "[]"]) (auto simp: revert_if_eligible_def)
  next
    case False
    define q' where "q' = (if eligible q p then q\<lparr>buf_size := buf_size q - pkt_bits p\<rparr> else q)"
    have "buffer_active q'" "0 < buf_size q'" "buf_size q' \<le> eligible_bits q' ps"
      using False Cons.prems by (auto simp: q'_def split: if_splits)
    from Cons.IH [OF this] obtain bs x cs where split: "ps = bs @ x # cs" "eligible q' x"
      "eligible_bits q' bs < buf_size q'" "buf_size q' \<le> eligible_bits q' bs + pkt_bits x"
      "ngscope_list_revert_delay ps q' = (map (revert_if_eligible q') bs @ reverted q' x # cs,
         ngscope_reTx_reset_buf q')"
      by blast
    show ?thesis
      using split step \<open>0 < buf_size q'\<close>
      by (intro exI [of _ "p # bs"] exI [of _ x] exI [of _ cs]) (auto simp: q'_def split: if_splits)
  qed
qed simp

text \<open>
  C16. With an active buffer that is not empty, the packets of the burst that were not reverted before
  get the reference delay in order of arrival until their bits fill the buffer. If they do not fill
  it, all of them are reverted and their bits leave the buffer; otherwise the packet that fills it
  is the last one, the packets behind it keep their delay, and the buffer is reset.
\<close>

theorem revert_delay_drains:
  assumes "buffer_active q" and "0 < buf_size q"
  shows "if eligible_bits q ps < buf_size q
    then ngscope_list_revert_delay ps q
           = (map (revert_if_eligible q) ps, q\<lparr>buf_size := buf_size q - eligible_bits q ps\<rparr>)
    else \<exists>before p after. ps = before @ p # after \<and> eligible q p
           \<and> eligible_bits q before < buf_size q \<and> buf_size q \<le> eligible_bits q before + pkt_bits p
           \<and> ngscope_list_revert_delay ps q
               = (map (revert_if_eligible q) before @ reverted q p # after, ngscope_reTx_reset_buf q)"
  using assms revert_delay_all revert_delay_drained by (auto simp: not_less)

definition test_buffer :: "int \<Rightarrow> ngscope_reordering_buf_t" where
  "test_buffer n = ngscope_reTx_init_buf\<lparr>rb_ready := True, buffer_active := True, buf_size := n,
     start_pkt_found := True, start_pkt_t := 5, ref_oneway := 3\<rparr>"

theorem revert_delay_drains_witness:
  "\<exists>before p after. [test_packet 5 1, test_packet 6 1] = before @ p # after
     \<and> ngscope_list_revert_delay [test_packet 5 1, test_packet 6 1] (test_buffer 900)
       = (map (revert_if_eligible (test_buffer 900)) before @ reverted (test_buffer 900) p # after,
          ngscope_reTx_reset_buf (test_buffer 900))"
proof -
  have "buffer_active (test_buffer 900)" "0 < buf_size (test_buffer 900)"
    "\<not> eligible_bits (test_buffer 900) [test_packet 5 1, test_packet 6 1] < buf_size (test_buffer 900)"
    by (simp_all add: test_buffer_def test_packet_def eligible_def pkt_bits_def ngscope_reTx_init_buf_def)
  then show ?thesis
    using revert_delay_drains [of "test_buffer 900" "[test_packet 5 1, test_packet 6 1]"] by auto
qed


section \<open>The invariant of the re-ordering buffer\<close>





section \<open>Retransmitted packets are those with a delay jump\<close>

fun jumps :: "u64 \<Rightarrow> packet_node list \<Rightarrow> int list" where
  "jumps last_oneway [] = []"
| "jumps last_oneway (p # ps) = delay_jump_ms (oneway_us p) last_oneway # jumps (oneway_us p) ps"

lemma length_jumps [simp]: "length (jumps o1 ps) = length ps"
  by (induction ps arbitrary: o1) auto

lemma jumps_nth:
  "i < length ps \<Longrightarrow> jumps o1 ps ! i
     = delay_jump_ms (oneway_us (ps ! i)) (if i = 0 then o1 else oneway_us (ps ! (i - 1)))"
proof (induction ps arbitrary: o1 i)
  case (Cons p ps)
  then show ?case by (cases i) (auto split: nat.split)
qed simp

lemma aset_append: "aset (xs @ y # ys) (int (length xs)) v = Inr (xs @ v # ys)"
  by (simp add: aset_def)

lemma get_reTx_loop_eq:
  assumes "length dd1 = k" and "length rt1 = k" and "length ow1 = k"
    and "length dd2 = m" and "length rt2 = m" and "length ow2 = m" and "m \<le> length ps"
  shows "get_reTx_loop ps (range_int (int k) (int k + int m)) o1 (dd1 @ dd2, rt1 @ rt2, ow1 @ ow2)
    = Inr (dd1 @ map Some (jumps o1 (take m ps)), rt1 @ map recv_t_us (take m ps),
           ow1 @ map oneway_us (take m ps))"
  using assms
proof (induction m arbitrary: ps k dd1 rt1 ow1 dd2 rt2 ow2 o1)
  case (Suc m)
  obtain p ps' where ps: "ps = p # ps'" using Suc.prems by (cases ps) auto
  obtain d dd' where dd: "dd2 = d # dd'" using Suc.prems by (cases dd2) auto
  obtain r rt' where rt: "rt2 = r # rt'" using Suc.prems by (cases rt2) auto
  obtain w ow' where ow: "ow2 = w # ow'" using Suc.prems by (cases ow2) auto
  have range: "range_int (int k) (int k + int (Suc m))
      = int k # range_int (int (Suc k)) (int (Suc k) + int m)"
    by (subst range_int_Cons) (auto simp: algebra_simps)
  have "get_reTx_loop ps' (range_int (int (Suc k)) (int (Suc k) + int m)) (oneway_us p)
      ((dd1 @ [Some (delay_jump_ms (oneway_us p) o1)]) @ dd', (rt1 @ [recv_t_us p]) @ rt',
       (ow1 @ [oneway_us p]) @ ow')
    = Inr ((dd1 @ [Some (delay_jump_ms (oneway_us p) o1)]) @ map Some (jumps (oneway_us p) (take m ps')),
       (rt1 @ [recv_t_us p]) @ map recv_t_us (take m ps'), (ow1 @ [oneway_us p]) @ map oneway_us (take m ps'))"
    using Suc.prems ps dd rt ow by (intro Suc.IH) auto
  moreover have "aset (dd1 @ d # dd') (int k) v = Inr (dd1 @ v # dd')"
    "aset (rt1 @ r # rt') (int k) t = Inr (rt1 @ t # rt')"
    "aset (ow1 @ w # ow') (int k) u = Inr (ow1 @ u # ow')" for v t u
    using Suc.prems(1-3) aset_append [of dd1] aset_append [of rt1] aset_append [of ow1] by auto
  ultimately show ?case unfolding ps dd rt ow range by simp
qed simp

definition jump_times :: "int list \<Rightarrow> u64 list \<Rightarrow> nat \<Rightarrow> u64 list" where
  "jump_times ds rt k = map ((!) rt) (filter (\<lambda>i. ds ! i \<ge> RE_TX_DELAY_THD) [0..<k])"

lemma jump_times_Suc:
  "jump_times ds rt (Suc k) = jump_times ds rt k @ (if ds ! k \<ge> RE_TX_DELAY_THD then [rt ! k] else [])"
  by (simp add: jump_times_def)

lemma length_jump_times_mono:
  "k \<le> n \<Longrightarrow> length (jump_times ds rt k) \<le> length (jump_times ds rt n)"
proof (induction n)
  case (Suc n)
  then show ?case by (cases "k = Suc n") (auto simp: jump_times_Suc)
qed simp

lemma read_init_Some: "i < length ds \<Longrightarrow> read_init (map Some ds) (int i) = Inr (ds ! i)"
  by (simp add: read_init_def)

lemma get_nof_reTx_pkt_eq:
  "n \<le> length ds \<Longrightarrow> get_nof_reTx_pkt (map Some ds) (int n) = Inr (int (length (jump_times ds rt n)))"
proof (induction n)
  case (Suc n)
  then show ?case
    by (simp add: get_nof_reTx_pkt_def range_int_nat for_each_append read_init_Some jump_times_Suc
        del: of_nat_Suc)
qed (simp add: get_nof_reTx_pkt_def range_int_nat jump_times_def)

lemma extract_reTx_from_pkt_eq:
  assumes "n \<le> length ds" and "n \<le> length rt"
  shows "extract_reTx_from_pkt (map Some ds) rt (replicate (length (jump_times ds rt n)) None) (int n)
    = Inr (map Some (jump_times ds rt n))"
proof -
  let ?N = "length (jump_times ds rt n)" and ?J = "jump_times ds rt"
  let ?f = "\<lambda>i (reTx, cnt). bindE (read_init (map Some ds) i) (\<lambda>d.
              if d \<ge> RE_TX_DELAY_THD then
                bindE (aget rt i) (\<lambda>t. bindE (aset reTx cnt (Some t)) (\<lambda>reTx'. Inr (reTx', cnt + 1)))
              else Inr (reTx, cnt))"
  have "for_each ?f (map int [0..<k]) (replicate ?N None, 0)
      = Inr (map Some (?J k) @ replicate (?N - length (?J k)) None, int (length (?J k)))" if "k \<le> n" for k
    using that
  proof (induction k)
    case (Suc k)
    have d: "read_init (map Some ds) (int k) = Inr (ds ! k)" and t: "aget rt (int k) = Inr (rt ! k)"
      using Suc.prems assms by (auto intro: read_init_Some)
    have len: "length (?J (Suc k)) \<le> ?N" using Suc.prems by (intro length_jump_times_mono)
    show ?case
    proof (cases "ds ! k \<ge> RE_TX_DELAY_THD")
      case True
      then obtain m where m: "?N - length (?J k) = Suc m" "m = ?N - length (?J (Suc k))"
        using len by (auto simp: jump_times_Suc intro: that)
      have "aset (map Some (?J k) @ None # replicate m None) (int (length (?J k))) (Some (rt ! k))
          = Inr (map Some (?J k) @ Some (rt ! k) # replicate m None)"
        using aset_append [of "map Some (?J k)"] by simp
      with True Suc d t m show ?thesis
        by (simp add: for_each_append jump_times_Suc del: replicate.simps)
          (simp add: jump_times_Suc)
    next
      case False
      with Suc d show ?thesis by (simp add: for_each_append jump_times_Suc)
    qed
  qed (simp add: jump_times_def)
  from this [of n] show ?thesis
    unfolding extract_reTx_from_pkt_def range_int_nat by simp
qed


definition delay_jump_at :: "packet_node list \<Rightarrow> nat \<Rightarrow> bool" where
  "delay_jump_at ps i \<longleftrightarrow>
     0 < i \<and> \<bar>uint (oneway_us (ps ! i)) - uint (oneway_us (ps ! (i - 1)))\<bar> \<ge> 7000"

lemma delay_jump_ms_threshold:
  assumes "uint a < 2 ^ 31" and "uint b < 2 ^ 31"
  shows "delay_jump_ms a b \<ge> RE_TX_DELAY_THD \<longleftrightarrow> \<bar>uint a - uint b\<bar> \<ge> 7000"
proof -
  have "\<bar>uint a - uint b\<bar> < 2 ^ 31" using assms uint_ge_0 [of a] uint_ge_0 [of b] by linarith
  moreover have "long_of a = uint a" "long_of b = uint b" using assms by (simp_all add: long_of_small)
  moreover have "\<bar>uint a - uint b\<bar> sdiv 1000 = \<bar>uint a - uint b\<bar> div 1000"
    by (simp add: signed_divide_int_def sgn_if)
  ultimately show ?thesis by (simp add: delay_jump_ms_def int_of_long_small) linarith
qed

lemma get_reTx_eq:
  assumes "0 < n" and "n \<le> length ps" and "length rt = n" and "length ow = n"
    and "\<forall>p \<in> set ps. uint (oneway_us p) < 2 ^ 31"
  shows "ngscope_list_get_reTx ps rt ow (int n) nof
    = (let js = filter (delay_jump_at ps) [0..<n] in
       Inr (Some (map (\<lambda>i. Some (recv_t_us (ps ! i))) js), map recv_t_us (take n ps),
            map oneway_us (take n ps), int (length js)))"
proof -
  obtain m where n: "n = Suc m" using assms(1) by (cases n) auto
  obtain p ps' where ps: "ps = p # ps'" using assms n by (cases ps) auto
  obtain r rt' where rt: "rt = r # rt'" using assms n by (cases rt) auto
  obtain w ow' where ow: "ow = w # ow'" using assms n by (cases ow) auto
  define ds where "ds = 0 # jumps (oneway_us p) (take m ps')"
  let ?rt = "map recv_t_us (take n ps)"
  have loop: "get_reTx_loop ps' (range_int 1 (int n)) (oneway_us p)
      (Some 0 # replicate m None, recv_t_us p # rt', oneway_us p # ow')
    = Inr (map Some ds, ?rt, map oneway_us (take n ps))"
    using get_reTx_loop_eq [of "[Some 0]" 1 "[recv_t_us p]" "[oneway_us p]" "replicate m None" m rt' ow' ps'
        "oneway_us p"] assms n ps rt ow by (simp add: ds_def)
  have len: "length ds = n" "length ?rt = n" using assms n ps by (simp_all add: ds_def)
  have ds_nth: "RE_TX_DELAY_THD \<le> ds ! i \<longleftrightarrow> delay_jump_at ps i" if "i < n" for i
  proof (cases i)
    case (Suc j)
    then have "ds ! i = delay_jump_ms (oneway_us (ps ! i)) (oneway_us (ps ! (i - 1)))"
      using that n assms(2) ps by (cases j) (simp_all add: ds_def jumps_nth)
    moreover have "i < length ps" "i - 1 < length ps" using that assms(2) by simp_all
    ultimately show ?thesis using Suc assms(5) by (simp add: delay_jump_ms_threshold delay_jump_at_def)
  qed (simp add: ds_def delay_jump_at_def)
  have "filter (\<lambda>i. RE_TX_DELAY_THD \<le> ds ! i) [0..<n] = filter (delay_jump_at ps) [0..<n]"
    by (rule filter_cong) (auto simp: ds_nth)
  moreover have "map ((!) ?rt) (filter (delay_jump_at ps) [0..<n])
      = map (\<lambda>i. recv_t_us (ps ! i)) (filter (delay_jump_at ps) [0..<n])"
    using assms(2) by auto
  ultimately have times: "jump_times ds ?rt n
      = map (\<lambda>i. recv_t_us (ps ! i)) (filter (delay_jump_at ps) [0..<n])"
    by (simp add: jump_times_def)
  have count_eq: "get_nof_reTx_pkt (map Some ds) (int n) = Inr (int (length (jump_times ds ?rt n)))"
    using get_nof_reTx_pkt_eq len by simp
  have times_eq: "extract_reTx_from_pkt (map Some ds) ?rt (replicate (length (jump_times ds ?rt n)) None) (int n)
      = Inr (map Some (jump_times ds ?rt n))"
    using extract_reTx_from_pkt_eq len by simp
  have "aset (replicate n None) 0 (Some (0 :: int)) = Inr (Some 0 # replicate m None)"
    "aset rt 0 (recv_t_us p) = Inr (recv_t_us p # rt')" "aset ow 0 (oneway_us p) = Inr (oneway_us p # ow')"
    using n rt ow by (simp_all add: aset_def)
  then have "ngscope_list_get_reTx ps rt ow (int n) nof
      = Inr (Some (map Some (jump_times ds ?rt n)), ?rt, map oneway_us (take n ps),
             int (length (jump_times ds ?rt n)))"
    using loop count_eq times_eq by (simp add: ngscope_list_get_reTx_def ps)
  then show ?thesis by (simp add: times Let_def comp_def)
qed

text \<open>
  C17. For a list of at least \<open>n\<close> packets (\<open>n\<close> positive) and arrays of that size, the analysis
  returns the receiving times of exactly those of the first \<open>n\<close> packets whose one-way delay differs
  from that of the packet before by 7 ms or more, in order, with their number, and fills the arrays
  with the receiving times and delays of all \<open>n\<close> packets. No access is out of bounds and nothing
  uninitialised is read. (Comments in the code say that the difference is larger than the threshold of
  7 ms; one of exactly 7 ms counts.)
\<close>

theorem get_reTx_reports_delay_jumps:
  assumes "0 < n" and "n \<le> length ps" and "length rt = n" and "length ow = n"
    and "\<forall>p \<in> set ps. uint (oneway_us p) < 2 ^ 31"
  shows "ngscope_list_get_reTx ps rt ow (int n) nof
    = (let js = filter (delay_jump_at ps) [0..<n] in
       Inr (Some (map (\<lambda>i. Some (recv_t_us (ps ! i))) js), map recv_t_us (take n ps),
            map oneway_us (take n ps), int (length js)))"
  using assms by (rule get_reTx_eq)

theorem get_reTx_reports_delay_jumps_witness:
  "ngscope_list_get_reTx [test_packet 1 50, test_packet 2 9000] [0, 0] [0, 0] 2 0
     = Inr (Some [Some 2], [1, 2], [50, 9000], 1)"
  using get_reTx_reports_delay_jumps [of 2 "[test_packet 1 50, test_packet 2 9000]" "[0, 0]" "[0, 0]" 0]
  by (simp add: test_packet_def delay_jump_at_def upt_rec)


section \<open>The average delay before a burst\<close>

lemma sum_cnt_eq:
  assumes "a \<le> b" and "b \<le> length xs"
  shows "sum_cnt xs (range_int (int a) (int b)) = Inr (sum_list (take (b - a) (drop a xs)), int (b - a))"
  using assms
proof (induction b)
  case 0
  then show ?case by (simp add: sum_cnt_def)
next
  case (Suc b)
  show ?case
  proof (cases "a = Suc b")
    case True
    then show ?thesis by (simp add: sum_cnt_def)
  next
    case False
    then have le: "a \<le> b" using Suc.prems by simp
    then have "range_int (int a) (int (Suc b)) = range_int (int a) (int b) @ [int b]"
      by (simp add: range_int_def upto_rec2)
    moreover have "take (Suc b - a) (drop a xs) = take (b - a) (drop a xs) @ [xs ! b]"
      using le Suc.prems by (simp add: Suc_diff_le take_Suc_conv_app_nth)
    ultimately show ?thesis using Suc.IH [OF le] Suc.prems le
      by (simp add: sum_cnt_def for_each_append Suc_diff_le)
  qed
qed

lemma ave_oneway_eq:
  assumes "0 < index" and "index \<le> length oneway"
  shows "ngscope_list_ave_oneway oneway nof_pkt (int index) (int len)
    = (let start = index - len; cnt = index - 1 - start in
       if cnt = 0 then Inl DivByZero else Inr (sum_list (take cnt (drop start oneway)) div of_nat cnt))"
proof -
  have rng: "(if int index - int len < 0 then range_int 0 (int index - 1)
      else range_int (int index - int len) (int index - 1)) = range_int (int (index - len)) (int (index - 1))"
    using assms(1) by (auto simp: of_nat_diff)
  show ?thesis
  proof (cases "index - len \<le> index - 1")
    case True
    then show ?thesis unfolding ngscope_list_ave_oneway_def rng
      using sum_cnt_eq [OF True, of oneway] assms(2) by (simp add: Let_def)
  next
    case False
    then show ?thesis unfolding ngscope_list_ave_oneway_def rng by (simp add: sum_cnt_def Let_def)
  qed
qed

text \<open>
  For an index into the delays, the reference delay is the truncated mean of the delays from
  \<open>len\<close> packets before the index (or the first packet) to two packets before it; when there is no
  such packet, in particular for index 1, the code divides by zero.
\<close>

theorem ave_oneway_mean:
  assumes "0 < index" and "index \<le> length oneway"
  shows "ngscope_list_ave_oneway oneway nof_pkt (int index) (int len)
    = (let start = index - len; cnt = index - 1 - start in
       if cnt = 0 then Inl DivByZero else Inr (sum_list (take cnt (drop start oneway)) div of_nat cnt))"
  using assms by (rule ave_oneway_eq)

theorem ave_oneway_mean_witness:
  "ngscope_list_ave_oneway [10, 20, 60] 3 3 5 = Inr 15 \<and> ngscope_list_ave_oneway [10, 20, 60] 3 1 5 = Inl DivByZero"
  using ave_oneway_mean [of 3 "[10, 20, 60]" 3 5] ave_oneway_mean [of 1 "[10, 20, 60]" 3 5] by simp

end
