(* ===== verification/Ngscope_Sync.thy ===== *)
theory Ngscope_Sync
  imports Ngscope_Util
begin

text \<open>
  Model of \<open>src/ngscope_sync.cc\<close>: the clock offset between the DCI messages and the packets is the
  candidate offset with the least correlation distance between the two vectors of retransmission
  timestamps.
\<close>

definition ngscope_sync_dci_pkt :: "u64 list \<Rightarrow> u64 list \<Rightarrow> int list \<Rightarrow> int res" where
  "ngscope_sync_dci_pkt array1 array2 offset_vec =
     (let (dist_min, idx) =
        nn_scan (\<lambda>offset_us. correlate_2_vec_w_offset array1 array2 offset_us) offset_vec 0 (0, 0)
      in aget offset_vec idx)"

lemma ngscope_sync_dci_pkt_argmin:
  assumes "offset_vec \<noteq> []"
  shows "\<exists>k. ngscope_sync_dci_pkt array1 array2 offset_vec = Inr (offset_vec ! k)
    \<and> first_argmin (correlate_2_vec_w_offset array1 array2) offset_vec k"
proof -
  obtain k where k: "nn_scan (correlate_2_vec_w_offset array1 array2) offset_vec 0 (0, 0)
      = (correlate_2_vec_w_offset array1 array2 (offset_vec ! k), int k)"
    "first_argmin (correlate_2_vec_w_offset array1 array2) offset_vec k"
    using nn_scan_argmin [OF assms] by blast
  then have "k < length offset_vec" by (simp add: first_argmin_def)
  with k show ?thesis by (auto simp: ngscope_sync_dci_pkt_def)
qed

text \<open>
  The synchronisation returns the first candidate offset whose correlation distance is least.
\<close>

theorem ngscope_sync_least_distance:
  assumes "offset_vec \<noteq> []"
  shows "\<exists>k. ngscope_sync_dci_pkt pkt_t dci_t offset_vec = Inr (offset_vec ! k) \<and> k < length offset_vec
    \<and> (\<forall>o' \<in> set offset_vec. correlate_2_vec_w_offset pkt_t dci_t (offset_vec ! k)
          \<le> correlate_2_vec_w_offset pkt_t dci_t o')
    \<and> (\<forall>j < k. correlate_2_vec_w_offset pkt_t dci_t (offset_vec ! k)
          < correlate_2_vec_w_offset pkt_t dci_t (offset_vec ! j))"
  using ngscope_sync_dci_pkt_argmin [OF assms, of pkt_t dci_t]
  by (force simp: first_argmin_def in_set_conv_nth)

lemma correlate_exact_shift:
  assumes "\<forall>x \<in> set pkt_t. \<exists>y \<in> set dci_t. long_of x = long_of y + off"
  shows "correlate_2_vec_w_offset pkt_t dci_t off = 0"
proof -
  have "nearest_neighbour_dist_w_offset dci_t x off = 0" if "x \<in> set pkt_t" for x
  proof -
    obtain y where y: "y \<in> set dci_t" "long_of x = long_of y + off" using assms \<open>x \<in> set pkt_t\<close> by blast
    then have ne: "dci_t \<noteq> []" by auto
    have "Min ((\<lambda>z. \<bar>(long_of z + off) - long_of x\<bar>) ` set dci_t) \<le> \<bar>(long_of y + off) - long_of x\<bar>"
      using y(1) by (intro Min_le) auto
    then show ?thesis
      using dist_w_offset_nonneg [of dci_t x off] y(2) by (simp add: dist_w_offset_Min [OF ne])
  qed
  then show ?thesis by (simp add: correlate_2_vec_w_offset_sum cong: map_cong)
qed

text \<open>
  C13. When the packet retransmission times are DCI retransmission times shifted by one of the
  candidate offsets, the returned offset maps every packet time exactly onto a DCI time.
\<close>

theorem ngscope_sync_recovers_shift:
  assumes "off \<in> set offset_vec" and "dci_t \<noteq> []"
    and "\<forall>x \<in> set pkt_t. \<exists>y \<in> set dci_t. long_of x = long_of y + off"
  shows "\<exists>off' \<in> set offset_vec. ngscope_sync_dci_pkt pkt_t dci_t offset_vec = Inr off'
    \<and> (\<forall>x \<in> set pkt_t. \<exists>y \<in> set dci_t. long_of x = long_of y + off')"
proof -
  let ?c = "correlate_2_vec_w_offset pkt_t dci_t"
  have "offset_vec \<noteq> []" using assms(1) by auto
  then obtain k where k: "ngscope_sync_dci_pkt pkt_t dci_t offset_vec = Inr (offset_vec ! k)"
    "first_argmin ?c offset_vec k"
    using ngscope_sync_dci_pkt_argmin by blast
  let ?o = "offset_vec ! k"
  have mem: "?o \<in> set offset_vec" using k(2) by (simp add: first_argmin_def)
  have "?c ?o \<le> ?c off" using k(2) assms(1) by (auto simp: first_argmin_def in_set_conv_nth)
  then have "?c ?o \<le> 0" using correlate_exact_shift [OF assms(3)] by simp
  then have le: "sum_list (map (\<lambda>x. nearest_neighbour_dist_w_offset dci_t x ?o) pkt_t) \<le> 0"
    (is "sum_list ?ds \<le> 0")
    by (simp add: correlate_2_vec_w_offset_sum)
  have nonneg: "\<And>d. d \<in> set ?ds \<Longrightarrow> 0 \<le> d" by (auto simp: dist_w_offset_nonneg)
  have "sum_list ?ds = 0" using sum_list_nonneg [of ?ds, OF nonneg] le by linarith
  then have zero: "\<forall>x \<in> set pkt_t. nearest_neighbour_dist_w_offset dci_t x ?o = 0"
    using sum_list_nonneg_eq_0_iff [of ?ds, OF nonneg] by simp
  have "\<exists>y \<in> set dci_t. long_of x = long_of y + ?o" if "x \<in> set pkt_t" for x
  proof -
    have "Min ((\<lambda>z. \<bar>(long_of z + ?o) - long_of x\<bar>) ` set dci_t) = 0"
      using zero that by (simp add: dist_w_offset_Min [OF assms(2)])
    then have "0 \<in> (\<lambda>z. \<bar>(long_of z + ?o) - long_of x\<bar>) ` set dci_t"
      using Min_in [of "(\<lambda>z. \<bar>(long_of z + ?o) - long_of x\<bar>) ` set dci_t"] assms(2) by simp
    then show ?thesis by force
  qed
  with k(1) mem show ?thesis by blast
qed


theorem ngscope_sync_least_distance_witness:
  "\<exists>k. ngscope_sync_dci_pkt [1000] [500] [0, 500] = Inr ([0, 500] ! k)"
  using ngscope_sync_least_distance [of "[0, 500]" "[1000]" "[500]"] by auto

theorem ngscope_sync_recovers_shift_witness:
  "\<exists>off' \<in> set [0, 500]. ngscope_sync_dci_pkt [1000] [500] [0, 500] = Inr off'"
  using ngscope_sync_recovers_shift [of 500 "[0, 500]" "[500]" "[1000]"]
  by (auto simp: long_of_def)

end
