(* ===== verification/Ngscope_Client.thy ===== *)
theory Ngscope_Client
  imports Ngscope_Packet_List Ngscope_Sync
begin

text \<open>
  Model of \<open>src/ngscope_client.cc\<close> and of the receiver loop \<open>echo_packets\<close> in
  \<open>src/dci_copa_rx.cc\<close>: received packets are queued, their delay is corrected when the control
  messages show a retransmission, and they are acknowledged in order. The globals of the two files
  are the record \<open>client\<close>; the control messages that the other thread writes under the mutex are an
  argument of each iteration, as are the packets from the socket and the clock. Output on sockets is
  the list of headers that were sent.
\<close>


section \<open>State\<close>

record client =
  reTx_buffer :: ngscope_reordering_buf_t
  found_reTx :: bool
  Missing_DL :: bool
  stat_miss_reTx :: int
  last_tx_pkt_t_us :: u64


section \<open>Queueing\<close>

definition enqueue_pkt :: "packet_node list \<Rightarrow> tcp_header \<Rightarrow> int \<Rightarrow> u64 \<Rightarrow> packet_node list" where
  "enqueue_pkt pkt_list hdr received recv_time_ns =
     (let oneway_ns = recv_time_ns - h_tx_timestamp hdr
      in ngscope_list_insertNode_checkTime pkt_list
           \<lparr>pkt_header = \<lparr>sequence_number = of_int (h_seq_num hdr), ack_number = 0,
                          sent_timestamp = h_tx_timestamp hdr, sender_id = h_src_id hdr,
                          recv_len_byte = of_int received\<rparr>,
            pkt_tcp_header = hdr, oneway_us = oneway_ns div 1000,
            recv_t_us = recv_time_ns div 1000, oneway_us_new = oneway_ns div 1000,
            revert_flag = False, acked = False, burst_start = False\<rparr>)"


section \<open>Acknowledging\<close>

definition tx_pkt_ornot :: "ngscope_reordering_buf_t \<Rightarrow> packet_node \<Rightarrow> bool" where
  "tx_pkt_ornot q p \<longleftrightarrow>
     (let reTx_dci_t_us = buf_last_t q; reTx_empty = (\<not> buf_size q > 0) in
      if \<not> rb_ready q then True
      else if revert_flag p then True
      else if reTx_empty then recv_t_us p > reTx_dci_t_us
      else recv_t_us p - reTx_dci_t_us > 10000)"

definition ack_header :: "u64 \<Rightarrow> packet_node \<Rightarrow> tcp_header" where
  "ack_header curr_t_us p =
     pkt_tcp_header p\<lparr>h_adjust_us := int_of_u64 (oneway_us_new p - oneway_us p)
                                     - int_of_u64 (curr_t_us - recv_t_us p),
                      h_tx_timestamp := curr_t_us * 1000\<rparr>"

text \<open>
  The loop over the list; \<open>exits i\<close> is the value of \<open>go_exit\<close> at its \<open>i\<close>-th test (a signal handler
  sets it). The result holds the headers sent and the list.
\<close>

fun ack_loop_from ::
  "(nat \<Rightarrow> bool) \<Rightarrow> u64 \<Rightarrow> nat \<Rightarrow> packet_node list \<Rightarrow> client \<Rightarrow> tcp_header list \<times> packet_node list \<times> client" where
  "ack_loop_from exits curr_t_us i [] s = ([], [], s)"
| "ack_loop_from exits curr_t_us i (p # ps) s =
     (if exits i then ([], p # ps, s)
      else if \<not> acked p \<and> tx_pkt_ornot (reTx_buffer s) p then
        (let (sent, ps', s') = ack_loop_from exits curr_t_us (Suc i) ps (s\<lparr>last_tx_pkt_t_us := curr_t_us\<rparr>)
         in (ack_header curr_t_us p # sent,
             p\<lparr>pkt_tcp_header := ack_header curr_t_us p, acked := True\<rparr> # ps', s'))
      else
        (let (sent, ps', s') = ack_loop_from exits curr_t_us (Suc i) ps s in (sent, p # ps', s')))"

text \<open>
  The dummy packet of a quiet millisecond: the fields that are not assigned keep the contents
  \<open>stack\<close> of the memory.
\<close>

definition dummy_header :: "tcp_header \<Rightarrow> u64 \<Rightarrow> tcp_header" where
  "dummy_header stack curr_t_us = stack\<lparr>h_seq_num := - 1111, h_flow_id := 0, h_src_id := 0,
     h_tx_timestamp := curr_t_us\<rparr>"

text \<open>Opening the NAT: five copies of a header of which only one field is assigned.\<close>

definition NAT_punching :: "real \<Rightarrow> tcp_header \<Rightarrow> tcp_header list" where
  "NAT_punching receiver_ms stack = replicate 5 (stack\<lparr>h_receiver_timestamp := receiver_ms\<rparr>)"

definition send_pkt_list ::
  "(nat \<Rightarrow> bool) \<Rightarrow> tcp_header \<Rightarrow> u64 \<Rightarrow> packet_node list \<Rightarrow> client
   \<Rightarrow> tcp_header list \<times> packet_node list \<times> client" where
  "send_pkt_list exits stack now_ns ps s =
     (if ps = [] then ([], ps, s)
      else
        let curr_t_us = now_ns div 1000; (sent, ps', s') = ack_loop_from exits curr_t_us 0 ps s
        in if curr_t_us - last_tx_pkt_t_us s' \<ge> 1000
           then (sent @ [dummy_header stack curr_t_us], ps', s'\<lparr>last_tx_pkt_t_us := curr_t_us\<rparr>)
           else (sent, ps', s'))"


section \<open>Copying the control messages\<close>

text \<open>
  The arguments after the control messages are the arrays of the cells and the two trackers; the
  result: whether there is a new retransmission (downlink or uplink), both flags, the arrays, the
  trackers and the number of cells.
\<close>

definition copy_dci_data_from_struct ::
  "ngscope_dci_CA_t \<Rightarrow> ngscope_dci_t list \<Rightarrow> u64 list \<Rightarrow> u64 list
   \<Rightarrow> (bool \<times> bool \<times> bool \<times> ngscope_dci_t list \<times> u64 list \<times> u64 list \<times> int) res" where
  "copy_dci_data_from_struct dci_ca dci_all recent_dl_reTx_us recent_ul_reTx_us =
     bindE (ngscope_dci_new_dl_reTx dci_ca recent_dl_reTx_us) (\<lambda>(new_dl, dl).
     bindE (ngscope_dci_new_ul_reTx dci_ca recent_ul_reTx_us) (\<lambda>(new_ul, ul).
     bindE (if new_dl \<or> new_ul then ngscope_dci_extract_multi_cell dci_ca dci_all else Inr dci_all) (\<lambda>dci_all'.
     bindE (if new_dl then ngscope_dci_copy_dl_reTx dci_ca dl else Inr dl) (\<lambda>dl'.
     bindE (if new_ul then ngscope_dci_copy_ul_reTx dci_ca ul else Inr ul) (\<lambda>ul'.
     Inr (new_dl \<or> new_ul, new_dl, new_ul, dci_all', dl', ul', nof_cell dci_ca))))))"


section \<open>Handling the packets\<close>

definition OFFSET_SIZE :: int where
  "OFFSET_SIZE = 201"

definition offset_vec :: "int list" where
  "offset_vec = map (\<lambda>i. (i - 100) * 100) (range_int 0 OFFSET_SIZE)"

text \<open>All elements of an array that was allocated without being initialised.\<close>

definition read_all :: "'a option list \<Rightarrow> 'a list res" where
  "read_all xs = (if None \<in> set xs then Inl UninitRead else Inr (map the xs))"

text \<open>
  The offset between the clocks: computed from the retransmissions on both sides when there is a
  new one in the control messages, and 0 otherwise.
\<close>

definition find_offset :: "ngscope_dci_t list \<Rightarrow> u64 option list option \<Rightarrow> bool \<Rightarrow> int \<Rightarrow> int res" where
  "find_offset dci_all pkt_reTx new_dl_reTx cells =
     (if new_dl_reTx then
        bindE (ngscope_dci_get_reTx_t dci_all cells) (\<lambda>dci_t.
        bindE (ngscope_dci_get_reTx_tti dci_all cells) (\<lambda>dci_tti.
        bindE (read_all (case pkt_reTx of None \<Rightarrow> [] | Some xs \<Rightarrow> xs)) (\<lambda>pkt_t.
        ngscope_sync_dci_pkt pkt_t dci_t offset_vec)))
      else Inr 0)"

text \<open>
  The update of the re-ordering buffer. The arguments of the message that is printed read the last
  retransmission of the first cell.
\<close>

definition update_buffer :: "ngscope_dci_t list \<Rightarrow> bool \<Rightarrow> int \<Rightarrow> client \<Rightarrow> client res" where
  "update_buffer dci_all new_dl_reTx cells s =
     (if new_dl_reTx \<or> Missing_DL s \<and> rb_ready (reTx_buffer s) \<and> \<not> buffer_active (reTx_buffer s) then
        bindE (ngscope_reTx_update_buf dci_all cells (reTx_buffer s)) (\<lambda>(found, q).
        bindE (aget dci_all 0) (\<lambda>q0.
        bindE (aget (reTx_tti (dl_dci q0)) (nof_reTx (dl_dci q0) - 1)) (\<lambda>recent_dci.
        Inr (s\<lparr>reTx_buffer := q, found_reTx := found, Missing_DL := \<not> found\<rparr>))))
      else Inr s)"

definition find_start_pkt ::
  "ngscope_dci_t list \<Rightarrow> u64 list \<Rightarrow> u64 list \<Rightarrow> int \<Rightarrow> client \<Rightarrow> client res" where
  "find_start_pkt dci_all pkt_rx_t_us pkt_oneway_us nof_pkt s =
     (let q = reTx_buffer s in
      if rb_ready q \<and> buffer_active q \<and> \<not> start_pkt_found q then
        bindE (ngscope_reTx_find_burst_start pkt_rx_t_us pkt_oneway_us nof_pkt (buf_start_t q)) (\<lambda>index.
        if index > 0 then
          bindE (aget pkt_rx_t_us index) (\<lambda>t.
          bindE (ngscope_list_ave_oneway pkt_oneway_us nof_pkt index 5) (\<lambda>ref.
          Inr (s\<lparr>reTx_buffer := q\<lparr>start_pkt_found := True, start_pkt_t := t, ref_oneway := ref\<rparr>\<rparr>)))
        else
          bindE (aget dci_all 0) (\<lambda>q0.
          if tti_distance (buf_start_tti q) (of_int (d_ca_header q0)) > 20
          then Inr (s\<lparr>reTx_buffer := ngscope_reTx_reset_buf q, stat_miss_reTx := stat_miss_reTx s + 1\<rparr>)
          else Inr s))
      else Inr s)"

definition pkt_handling ::
  "ngscope_dci_t list \<Rightarrow> packet_node list \<Rightarrow> bool \<Rightarrow> int \<Rightarrow> client
   \<Rightarrow> (ngscope_dci_t list \<times> packet_node list \<times> client) res" where
  "pkt_handling dci_all pkt_list new_dl_reTx cells s =
     (let nof_pkt = ngscope_list_length pkt_list; arr = replicate (nat nof_pkt) 0 in
      bindE (ngscope_list_get_reTx pkt_list arr arr nof_pkt 0)
        (\<lambda>(pkt_reTx, pkt_rx_t_us, pkt_oneway_us, nof_reTx_pkt).
      bindE (find_offset dci_all pkt_reTx new_dl_reTx cells) (\<lambda>offset.
      bindE (ngscope_dci_sync_multi_cell cells offset dci_all) (\<lambda>dci_all'.
      bindE (update_buffer dci_all' new_dl_reTx cells s) (\<lambda>s1.
      bindE (find_start_pkt dci_all' pkt_rx_t_us pkt_oneway_us nof_pkt s1) (\<lambda>s2.
      let q = reTx_buffer s2 in
      if rb_ready q \<and> buffer_active q \<and> start_pkt_found q then
        (case ngscope_list_revert_delay pkt_list q of (ps', q') \<Rightarrow>
           Inr (dci_all', ps', s2\<lparr>reTx_buffer := q'\<rparr>))
      else Inr (dci_all', pkt_list, s2)))))))"


section \<open>The receiver loop\<close>

text \<open>Locals of \<open>echo_packets\<close> and the globals.\<close>

record echo_state =
  globals :: client
  e_dci_all :: "ngscope_dci_t list"
  e_recent_dl :: "u64 list"
  e_recent_ul :: "u64 list"
  e_pkt_list :: "packet_node list"

text \<open>
  What an iteration sees of its environment: the packet that the socket returns (header, length,
  receiving time), the clock in milliseconds since the start, the control messages, the clock for
  sending, and \<open>go_exit\<close>.
\<close>

record echo_input =
  in_packet :: "(tcp_header \<times> int \<times> u64) option"
  in_receiver_ms :: real
  in_dci_ca :: ngscope_dci_CA_t
  in_now_ns :: u64
  in_stack :: tcp_header
  in_exits :: "nat \<Rightarrow> bool"

definition receive_packet :: "echo_input \<Rightarrow> echo_state \<Rightarrow> echo_state res" where
  "receive_packet inp e =
     (case in_packet inp of None \<Rightarrow> Inr e
      | Some (h, received, recv_time_ns) \<Rightarrow>
          if received > 0 then
            let hdr = h\<lparr>h_receiver_timestamp := in_receiver_ms inp\<rparr> in
            bindE (copy_dci_data_from_struct (in_dci_ca inp) (e_dci_all e) (e_recent_dl e) (e_recent_ul e))
              (\<lambda>(any, new_dl, new_ul, dci_all, dl, ul, cells).
            let pkts = enqueue_pkt (e_pkt_list e) hdr received recv_time_ns in
            bindE (pkt_handling dci_all pkts new_dl cells (globals e)) (\<lambda>(dci_all', pkts', s).
            Inr \<lparr>globals = s, e_dci_all = dci_all', e_recent_dl = dl, e_recent_ul = ul, e_pkt_list = pkts'\<rparr>))
          else Inr e)"

definition echo_iteration :: "echo_input \<Rightarrow> echo_state \<Rightarrow> (tcp_header list \<times> echo_state) res" where
  "echo_iteration inp e =
     bindE (receive_packet inp e) (\<lambda>e1.
     case send_pkt_list (in_exits inp) (in_stack inp) (in_now_ns inp) (e_pkt_list e1) (globals e1) of
       (sent, ps, s) \<Rightarrow> Inr (sent, e1\<lparr>globals := s, e_pkt_list := ps\<rparr>))"

fun echo_loop :: "echo_input list \<Rightarrow> echo_state \<Rightarrow> (tcp_header list \<times> echo_state) res" where
  "echo_loop [] e = Inr ([], e)"
| "echo_loop (inp # inps) e =
     bindE (echo_iteration inp e) (\<lambda>(sent, e1).
     bindE (echo_loop inps e1) (\<lambda>(sent', e2). Inr (sent @ sent', e2)))"


section \<open>Acknowledgements\<close>

definition pending :: "ngscope_reordering_buf_t \<Rightarrow> packet_node \<Rightarrow> bool" where
  "pending q p \<longleftrightarrow> \<not> acked p \<and> tx_pkt_ornot q p"

definition ack_packet :: "u64 \<Rightarrow> packet_node \<Rightarrow> packet_node" where
  "ack_packet curr_t_us p = p\<lparr>pkt_tcp_header := ack_header curr_t_us p, acked := True\<rparr>"

lemma ack_loop_from_eq:
  assumes "\<And>j. \<not> exits j"
  shows "ack_loop_from exits curr_t_us i ps s =
    (map (ack_header curr_t_us) (filter (pending (reTx_buffer s)) ps),
     map (\<lambda>p. if pending (reTx_buffer s) p then ack_packet curr_t_us p else p) ps,
     if filter (pending (reTx_buffer s)) ps = [] then s else s\<lparr>last_tx_pkt_t_us := curr_t_us\<rparr>)"
  by (induction ps arbitrary: i s) (auto simp: assms pending_def ack_packet_def)

text \<open>
  C19. When no signal stops it, a pass over the list acknowledges exactly the packets that are not
  yet acknowledged and that may be sent, in the order of arrival, and marks them; a dummy packet is
  sent exactly when no packet was acknowledged and at least a millisecond passed since the last one.
\<close>

theorem send_pkt_list_acks_pending:
  assumes "\<And>j. \<not> exits j" and "ps \<noteq> []" and "curr_t_us = now_ns div 1000"
  shows "send_pkt_list exits stack now_ns ps s =
    (let todo = filter (pending (reTx_buffer s)) ps;
         idle = (todo = [] \<and> curr_t_us - last_tx_pkt_t_us s \<ge> 1000)
     in (map (ack_header curr_t_us) todo @ (if idle then [dummy_header stack curr_t_us] else []),
         map (\<lambda>p. if pending (reTx_buffer s) p then ack_packet curr_t_us p else p) ps,
         if todo \<noteq> [] \<or> idle then s\<lparr>last_tx_pkt_t_us := curr_t_us\<rparr> else s))"
  using assms(2,3) by (auto simp: send_pkt_list_def ack_loop_from_eq [of exits, OF assms(1)] Let_def)

definition quiet_client :: client where
  "quiet_client = \<lparr>reTx_buffer = ngscope_reTx_init_buf, found_reTx = False, Missing_DL = False,
     stat_miss_reTx = 0, last_tx_pkt_t_us = 0\<rparr>"

theorem send_pkt_list_acks_pending_witness:
  "fst (send_pkt_list (\<lambda>_. False) (pkt_tcp_header (test_packet 0 0)) 9000 [test_packet 5 1] quiet_client)
     = [ack_header 9 (test_packet 5 1)]"
  using send_pkt_list_acks_pending [of "\<lambda>_. False" "[test_packet 5 1]" 9 9000
    "pkt_tcp_header (test_packet 0 0)" quiet_client]
  by (simp add: pending_def tx_pkt_ornot_def test_packet_def quiet_client_def ngscope_reTx_init_buf_def)

text \<open>
  While the re-ordering buffer is not empty, a packet that was not reverted is acknowledged
  exactly when it is more than 10 ms later than the last retransmission or (because the difference
  wraps around) more than 10 ms short of \<open>2 ^ 64\<close> earlier, so every packet before the retransmission
  of a realistic clock is acknowledged with its inflated delay.
\<close>

theorem tx_pkt_ornot_wraps:
  assumes "rb_ready q" and "0 < buf_size q" and "\<not> revert_flag p"
  shows "tx_pkt_ornot q p \<longleftrightarrow>
    uint (recv_t_us p) > uint (buf_last_t q) + 10000
    \<or> uint (recv_t_us p) < uint (buf_last_t q) \<and> uint (buf_last_t q) < uint (recv_t_us p) + (2 ^ 64 - 10000)"
proof -
  have "uint (recv_t_us p - buf_last_t q)
      = (if uint (buf_last_t q) \<le> uint (recv_t_us p) then uint (recv_t_us p) - uint (buf_last_t q)
         else uint (recv_t_us p) - uint (buf_last_t q) + 2 ^ 64)"
    using uint_sub_if' [of "recv_t_us p" "buf_last_t q"] by simp
  then show ?thesis using assms by (auto simp: tx_pkt_ornot_def word_less_def split: if_splits)
qed

theorem tx_pkt_ornot_wraps_witness:
  "tx_pkt_ornot (test_buffer 900\<lparr>buf_last_t := 5000\<rparr>) (test_packet 4000 1)"
  using tx_pkt_ornot_wraps [of "test_buffer 900\<lparr>buf_last_t := 5000\<rparr>" "test_packet 4000 1"]
  by (simp add: test_buffer_def test_packet_def)

text \<open>Numbers of packets that wait, and of acknowledgements among the headers sent.\<close>

definition unacked :: "packet_node list \<Rightarrow> nat" where
  "unacked ps = length (filter (\<lambda>p. \<not> acked p) ps)"

definition acks_sent :: "tcp_header list \<Rightarrow> nat" where
  "acks_sent hs = length (filter (\<lambda>h. h_seq_num h \<noteq> - 1111) hs)"

lemma unacked_simps [simp]:
  "unacked [] = 0" "unacked (p # ps) = (if acked p then 0 else 1) + unacked ps"
  "unacked (ps @ qs) = unacked ps + unacked qs"
  by (simp_all add: unacked_def)

lemma acks_sent_simps [simp]:
  "acks_sent [] = 0" "acks_sent (h # hs) = (if h_seq_num h = - 1111 then 0 else 1) + acks_sent hs"
  "acks_sent (hs @ hs') = acks_sent hs + acks_sent hs'"
  by (simp_all add: acks_sent_def)

lemma unacked_filter_le: "unacked (filter P ps) \<le> unacked ps"
  by (induction ps) auto

lemma unacked_wTime: "unacked (ngscope_list_checkTimeDelay_wTime t ps) \<le> unacked ps"
  by (induction t ps rule: ngscope_list_checkTimeDelay_wTime.induct) auto

lemma unacked_insert:
  "unacked (ngscope_list_insertNode_checkTime ps node) \<le> unacked ps + (if acked node then 0 else 1)"
  using unacked_wTime [of "recv_t_us node" "ps @ [node]"]
  by (auto simp: ngscope_list_insertNode_checkTime_def)

lemma unacked_enqueue: "unacked (enqueue_pkt ps h n t) \<le> Suc (unacked ps)"
  unfolding enqueue_pkt_def Let_def
  by (rule order_trans [OF unacked_insert]) simp

lemma acked_revert_packet [simp]: "acked (fst (revert_packet p q)) = acked p"
  by (auto simp: revert_packet_def Let_def)

lemma unacked_revert: "unacked (fst (ngscope_list_revert_delay ps q)) = unacked ps"
proof (induction ps arbitrary: q)
  case (Cons p ps)
  have "acked (fst (revert_packet p q)) = acked p" by simp
  then show ?case using Cons [of "snd (revert_packet p q)"]
    by (auto simp: split_beta Let_def)
qed simp

lemma pkt_handling_unacked:
  assumes "pkt_handling dci_all ps new_dl cells s = Inr (dci_all', ps', s')"
  shows "unacked ps' = unacked ps"
proof -
  have "ps' = ps \<or> (\<exists>q. ps' = fst (ngscope_list_revert_delay ps q))"
    using assms unfolding pkt_handling_def Let_def bindE_eq_Inr split_paired_Ex prod.case
    by (elim exE conjE) (auto simp: split_beta split: if_splits)
  then show ?thesis by (auto simp: unacked_revert)
qed

lemma ack_loop_from_counts:
  "acks_sent (fst (ack_loop_from exits t i ps s)) + unacked (fst (snd (ack_loop_from exits t i ps s)))
     \<le> unacked ps"
proof (induction ps arbitrary: i s)
  case (Cons p ps)
  then show ?case
    using Cons.IH [of "Suc i" s] Cons.IH [of "Suc i" "s\<lparr>last_tx_pkt_t_us := t\<rparr>"]
    by (auto simp: split_beta Let_def intro: le_SucI)
qed simp

lemma send_pkt_list_counts:
  assumes "send_pkt_list exits stack now_ns ps s = (sent, ps', s')"
  shows "acks_sent sent + unacked ps' \<le> unacked ps"
  using assms ack_loop_from_counts [of exits "now_ns div 1000" 0 ps s]
  by (auto simp: send_pkt_list_def Let_def dummy_header_def split_beta split: if_splits)


definition received_packet :: "echo_input \<Rightarrow> bool" where
  "received_packet inp \<longleftrightarrow> (case in_packet inp of None \<Rightarrow> False | Some (h, received, t) \<Rightarrow> received > 0)"

lemma receive_packet_counts:
  assumes "receive_packet inp e = Inr e'"
  shows "unacked (e_pkt_list e') \<le> unacked (e_pkt_list e) + (if received_packet inp then 1 else 0)"
proof (cases "received_packet inp")
  case False
  then show ?thesis using assms
    by (auto simp: receive_packet_def received_packet_def split: option.splits)
next
  case True
  then obtain h n t where inp: "in_packet inp = Some (h, n, t)" "n > 0"
    by (auto simp: received_packet_def split: option.splits)
  obtain hdr dci_all new_dl cells dci_all' s where
    "pkt_handling dci_all (enqueue_pkt (e_pkt_list e) hdr n t) new_dl cells (globals e)
       = Inr (dci_all', e_pkt_list e', s)"
    using assms inp unfolding receive_packet_def Let_def
    by (auto simp: res_simps split: prod.splits)
  from pkt_handling_unacked [OF this] unacked_enqueue [of "e_pkt_list e" hdr n t] True
  show ?thesis by simp
qed

lemma echo_iteration_counts:
  assumes "echo_iteration inp e = Inr (sent, e')"
  shows "acks_sent sent + unacked (e_pkt_list e')
    \<le> unacked (e_pkt_list e) + (if received_packet inp then 1 else 0)"
proof -
  obtain e1 where e1: "receive_packet inp e = Inr e1"
    "(case send_pkt_list (in_exits inp) (in_stack inp) (in_now_ns inp) (e_pkt_list e1) (globals e1) of
       (sent, ps, s) \<Rightarrow> Inr (sent, e1\<lparr>globals := s, e_pkt_list := ps\<rparr>)) = (Inr (sent, e') :: (tcp_header list \<times> echo_state) res)"
    using assms unfolding echo_iteration_def bindE_eq_Inr by (elim exE conjE) (rule that)
  obtain x ps s where
    send: "send_pkt_list (in_exits inp) (in_stack inp) (in_now_ns inp) (e_pkt_list e1) (globals e1) = (x, ps, s)"
    by (rule prod_cases3)
  with e1 have "x = sent" "e' = e1\<lparr>globals := s, e_pkt_list := ps\<rparr>" by auto
  then show ?thesis using receive_packet_counts [OF e1(1)] send_pkt_list_counts [OF send] by simp
qed

lemma echo_loop_counts:
  "echo_loop inps e = Inr (sent, e') \<Longrightarrow>
     acks_sent sent + unacked (e_pkt_list e') \<le> unacked (e_pkt_list e) + length (filter received_packet inps)"
proof (induction inps arbitrary: e sent)
  case (Cons inp inps)
  then obtain s1 e1 s2 where "echo_iteration inp e = Inr (s1, e1)" "echo_loop inps e1 = Inr (s2, e')"
    "sent = s1 @ s2"
    by (auto simp: res_simps split: prod.splits)
  with Cons.IH [of e1 s2] echo_iteration_counts [of inp e s1 e1] show ?case
    by (auto split: if_splits)
qed simp

text \<open>
  Over any number of iterations the receiver sends at most one acknowledgement per packet that it
  received (and none for a packet that it acknowledged before): the acknowledgements sent and the
  packets still waiting never exceed those that waited at the start and those received since. (This is
  about lists that hold a packet already: see \<open>echo_loop_first_packet\<close> for the start.)
\<close>

theorem echo_loop_acks_at_most_once:
  assumes "echo_loop inps e = Inr (sent, e')"
  shows "acks_sent sent + unacked (e_pkt_list e')
    \<le> unacked (e_pkt_list e) + length (filter received_packet inps)"
  using assms by (rule echo_loop_counts)

text \<open>
  The first packet of a session makes the analysis write outside its arrays: the list reports
  length 0 for it, the arrays are allocated with that size, and their first element is written.
\<close>

theorem first_packet_out_of_bounds:
  "pkt_handling dci_all (enqueue_pkt [] hdr received recv_time_ns) new_dl_reTx cells s = Inl OutOfBounds"
  by (simp add: pkt_handling_def enqueue_pkt_def ngscope_list_insertNode_checkTime_def
      ngscope_list_length_def ngscope_list_get_reTx_def aset_def Let_def)

lemma quiet_iteration:
  assumes "e_pkt_list e = []" and "\<not> received_packet inp"
  shows "echo_iteration inp e = Inr ([], e)"
  using assms
  by (auto simp: echo_iteration_def receive_packet_def received_packet_def send_pkt_list_def split: option.splits)

text \<open>
  C18. From the start, with an empty list, the receiver does nothing while no packet comes: it sends no
  acknowledgement and no dummy packet, and its state stays as it is. The first packet ends it: when
  the control messages were copied, the packet is alone in the list, the list reports length 0 for it,
  the arrays of the analysis are allocated with that size, and their first element is written.
\<close>

theorem echo_loop_first_packet:
  assumes "e_pkt_list e = []" and "\<forall>i \<in> set quiet. \<not> received_packet i" and "received_packet inp"
  shows "echo_loop quiet e = Inr ([], e)
    \<and> echo_loop (quiet @ inp # later) e =
        (case copy_dci_data_from_struct (in_dci_ca inp) (e_dci_all e) (e_recent_dl e) (e_recent_ul e) of
           Inl err \<Rightarrow> Inl err | Inr _ \<Rightarrow> Inl OutOfBounds)"
proof -
  have quiet: "echo_loop quiet e = Inr ([], e) \<and> echo_loop (quiet @ xs) e = echo_loop xs e" for xs
    using assms(2)
  proof (induction quiet)
    case (Cons i quiet)
    then have "echo_iteration i e = Inr ([], e)" using quiet_iteration assms(1) by auto
    then show ?case using Cons by (auto simp: case_prod_unfold)
  qed simp
  obtain h n t where inp: "in_packet inp = Some (h, n, t)" "n > 0"
    using assms(3) by (auto simp: received_packet_def split: option.splits)
  have "receive_packet inp e =
      (case copy_dci_data_from_struct (in_dci_ca inp) (e_dci_all e) (e_recent_dl e) (e_recent_ul e) of
         Inl err \<Rightarrow> Inl err | Inr _ \<Rightarrow> Inl OutOfBounds)"
    using inp by (simp add: receive_packet_def assms(1) first_packet_out_of_bounds Let_def split: sum.split prod.split)
  then have "echo_loop (inp # later) e =
      (case copy_dci_data_from_struct (in_dci_ca inp) (e_dci_all e) (e_recent_dl e) (e_recent_ul e) of
         Inl err \<Rightarrow> Inl err | Inr _ \<Rightarrow> Inl OutOfBounds)"
    by (simp add: echo_iteration_def split: sum.split)
  then show ?thesis using quiet by auto
qed

text \<open>A quiet iteration, and then a packet, with the initial control messages.\<close>

definition quiet_input :: echo_input where
  "quiet_input = \<lparr>in_packet = None, in_receiver_ms = 0, in_dci_ca = ngscope_dci_CA_init, in_now_ns = 0,
     in_stack = pkt_tcp_header (test_packet 0 0), in_exits = (\<lambda>_. False)\<rparr>"

theorem echo_loop_first_packet_witness:
  "echo_loop [quiet_input, quiet_input\<lparr>in_packet := Some (pkt_tcp_header (test_packet 0 0), 40, 9000)\<rparr>]
     \<lparr>globals = quiet_client, e_dci_all = [], e_recent_dl = [0, 0, 0, 0], e_recent_ul = [0, 0, 0, 0],
      e_pkt_list = []\<rparr> = Inl OutOfBounds"
proof -
  let ?e = "\<lparr>globals = quiet_client, e_dci_all = [], e_recent_dl = [0, 0, 0, 0], e_recent_ul = [0, 0, 0, 0],
      e_pkt_list = []\<rparr>"
  let ?i = "quiet_input\<lparr>in_packet := Some (pkt_tcp_header (test_packet 0 0), 40, 9000)\<rparr>"
  have "\<exists>r. copy_dci_data_from_struct ngscope_dci_CA_init [] [0, 0, 0, 0] [0, 0, 0, 0] = Inr r"
    by (simp add: copy_dci_data_from_struct_def ngscope_dci_new_dl_reTx_def ngscope_dci_new_ul_reTx_def
        ngscope_dci_CA_init_def ngscope_dci_cell_init_def prefixE_def eval_nat_numeral)
      (rule exI [of _ False], simp)
  moreover have "e_pkt_list ?e = []" "\<forall>i \<in> set [quiet_input]. \<not> received_packet i" "received_packet ?i"
    by (simp_all add: received_packet_def quiet_input_def)
  ultimately show ?thesis
    using echo_loop_first_packet [of ?e "[quiet_input]" ?i "[]"] by (auto simp: quiet_input_def)
qed

definition searching :: "client \<Rightarrow> bool" where
  "searching s \<longleftrightarrow> rb_ready (reTx_buffer s) \<and> buffer_active (reTx_buffer s) \<and> \<not> start_pkt_found (reTx_buffer s)"

text \<open>
  While the start of a burst is searched among \<open>n\<close> packets, the search finds an index \<open>r\<close>; for
  \<open>r \<ge> 2\<close> the burst starts at the packet \<open>r\<close> with the mean delay before it as reference; for \<open>r = 1\<close>
  the client divides by zero; otherwise it waits, and gives up after 20 subframes.
\<close>

theorem find_start_pkt_outcome:
  assumes "searching s" and "pkts \<noteq> []" and "length oneway = length pkts" and "dci_all \<noteq> []"
  shows "\<exists>r. ngscope_reTx_find_burst_start pkts oneway (int (length pkts)) (buf_start_t (reTx_buffer s)) = Inr r
    \<and> r < int (length pkts)
    \<and> find_start_pkt dci_all pkts oneway (int (length pkts)) s =
        (if r = 1 then Inl DivByZero
         else if r > 1 then
           (let start = nat r - 5; cnt = nat r - 1 - start in
            Inr (s\<lparr>reTx_buffer := (reTx_buffer s)\<lparr>start_pkt_found := True, start_pkt_t := pkts ! nat r,
                   ref_oneway := sum_list (take cnt (drop start oneway)) div of_nat cnt\<rparr>\<rparr>))
         else if tti_distance (buf_start_tti (reTx_buffer s)) (of_int (d_ca_header (dci_all ! 0))) > 20
         then Inr (s\<lparr>reTx_buffer := ngscope_reTx_reset_buf (reTx_buffer s),
                     stat_miss_reTx := stat_miss_reTx s + 1\<rparr>)
         else Inr s)"
proof -
  obtain r where r: "ngscope_reTx_find_burst_start pkts oneway (int (length pkts)) (buf_start_t (reTx_buffer s)) = Inr r"
    "r = - 1 \<or> 0 \<le> r \<and> r < int (length pkts)"
    using find_burst_start_spec [OF assms(2,3)] by blast
  have first: "aget dci_all 0 = Inr (dci_all ! 0)" using assms(4) by (simp add: aget_def)
  show ?thesis
  proof (cases "r > 0")
    case True
    then have pos: "0 < nat r" "nat r \<le> length oneway" and t: "aget pkts r = Inr (pkts ! nat r)"
      using r(2) assms(3) by (auto simp: aget_def)
    have "ngscope_list_ave_oneway oneway (int (length pkts)) r 5
        = (let start = nat r - 5; cnt = nat r - 1 - start in
           if cnt = 0 then Inl DivByZero else Inr (sum_list (take cnt (drop start oneway)) div of_nat cnt))"
      using ave_oneway_eq [OF pos, of "int (length pkts)" 5] True by simp
    moreover have "nat r - 1 - (nat r - 5) = 0 \<longleftrightarrow> r = 1" using True by linarith
    ultimately have ave: "ngscope_list_ave_oneway oneway (int (length pkts)) r 5
        = (if r = 1 then Inl DivByZero
           else let start = nat r - 5; cnt = nat r - 1 - start in
             Inr (sum_list (take cnt (drop start oneway)) div of_nat cnt))"
      unfolding Let_def by (simp only:)
    show ?thesis
      by (intro exI [of _ r] conjI r(1))
        (use r True assms(1) in \<open>auto simp: find_start_pkt_def searching_def t ave Let_def\<close>)
  next
    case False
    then show ?thesis using r assms(1,2) first
      by (intro exI [of _ r]) (auto simp: find_start_pkt_def searching_def Let_def)
  qed
qed


definition quiet_echo :: echo_state where
  "quiet_echo = \<lparr>globals = quiet_client, e_dci_all = [], e_recent_dl = [], e_recent_ul = [],
     e_pkt_list = [test_packet 5 1]\<rparr>"

definition test_input :: echo_input where
  "test_input = \<lparr>in_packet = Some (pkt_tcp_header (test_packet 0 0), 1440, 9000), in_receiver_ms = 0,
     in_dci_ca = ngscope_dci_CA_init\<lparr>nof_cell := 0\<rparr>, in_now_ns = 20000, in_stack = pkt_tcp_header (test_packet 0 0),
     in_exits = (\<lambda>_. False)\<rparr>"

lemma list_length_two: "ngscope_list_length [p, q] = 1"
  by (simp add: ngscope_list_length_def)

lemma pkt_handling_quiet: "\<exists>ps s. pkt_handling [] [p, q] False 0 quiet_client = Inr ([], ps, s)"
  by (simp add: pkt_handling_def list_length_two ngscope_list_get_reTx_def get_nof_reTx_pkt_def
      range_int_Cons read_init_def extract_reTx_from_pkt_def aset_def aget_def find_offset_def
      ngscope_dci_sync_multi_cell_def update_buffer_def find_start_pkt_def quiet_client_def
      ngscope_reTx_init_buf_def Let_def)

theorem echo_loop_acks_at_most_once_witness:
  "\<exists>sent e'. echo_loop [test_input] quiet_echo = Inr (sent, e') \<and> acks_sent sent \<le> 2"
proof -
  obtain p q where enq: "enqueue_pkt [test_packet 5 1] (pkt_tcp_header (test_packet 0 0)) 1440 9000 = [p, q]"
    by (simp add: enqueue_pkt_def ngscope_list_insertNode_checkTime_def test_packet_def delay_thd_us_def)
  have copy: "copy_dci_data_from_struct (ngscope_dci_CA_init\<lparr>nof_cell := 0\<rparr>) [] [] [] = Inr (False, False, False, [], [], [], 0)"
    by (simp add: copy_dci_data_from_struct_def ngscope_dci_new_dl_reTx_def ngscope_dci_new_ul_reTx_def
        ngscope_dci_CA_init_def prefixE_def)
  have hdr: "(pkt_tcp_header (test_packet 0 0))\<lparr>h_receiver_timestamp := 0\<rparr> = pkt_tcp_header (test_packet 0 0)"
    by (simp add: test_packet_def)
  obtain ps s where "pkt_handling [] [p, q] False 0 quiet_client = Inr ([], ps, s)"
    using pkt_handling_quiet by blast
  then have "\<exists>e1. receive_packet test_input quiet_echo = Inr e1"
    using enq copy hdr by (simp add: receive_packet_def test_input_def quiet_echo_def Let_def)
  then obtain sent e' where run: "echo_loop [test_input] quiet_echo = Inr (sent, e')"
    by (force simp: echo_iteration_def split_beta)
  moreover have "unacked (e_pkt_list quiet_echo) = 1" by (simp add: quiet_echo_def test_packet_def)
  ultimately show ?thesis
    using echo_loop_acks_at_most_once [OF run] by (auto split: if_splits)
qed

definition searching_client :: client where
  "searching_client = quiet_client\<lparr>reTx_buffer := (test_buffer 900)\<lparr>start_pkt_found := False, buf_start_t := 9000\<rparr>\<rparr>"

theorem find_start_pkt_outcome_witness:
  "find_start_pkt [zero_dci] [1000, 9000] [50, 6000] 2 searching_client = Inl DivByZero"
proof -
  have "searching searching_client"
    by (simp add: searching_def searching_client_def quiet_client_def test_buffer_def)
  moreover have "ngscope_reTx_find_burst_start [1000, 9000] [50, 6000] 2
      (buf_start_t (reTx_buffer searching_client)) = Inr 1"
    by (simp add: searching_client_def test_buffer_def quiet_client_def) code_simp
  ultimately show ?thesis
    using find_start_pkt_outcome [of searching_client "[1000, 9000]" "[50, 6000]" "[zero_dci]"] by simp
qed

end
