(* ===== verification/Receivers.thy ===== *)
theory Receivers
  imports Ngscope_Client
begin

text \<open>
  The three other receiver programs: \<open>src/copa_recv.cc\<close> echoes every packet, \<open>src/copa_rx_fix.cc\<close>
  collects the packets of a millisecond and acknowledges them together, and \<open>src/receiver.cc\<close> analyses
  the delays like the receiver of \<open>Ngscope_Client\<close> but echoes the packets unchanged. What a program
  sees at each test of \<open>go_exit\<close> and each call of \<open>receivedata_w_time\<close> is a \<open>poll\<close>; the output is the list
  of headers sent. A loop whose polls are used up is still waiting: the result is \<open>None\<close>.
\<close>


section \<open>Polling the socket\<close>

text \<open>The value of \<open>go_exit\<close>, the result of the call, the header in the buffer, and the clock after it.\<close>

record poll =
  p_exit :: bool
  p_received :: int
  p_header :: tcp_header
  p_curr_t :: u64

definition fill_buffer :: "poll \<Rightarrow> tcp_header \<Rightarrow> tcp_header" where
  "fill_buffer p buff = (if p_received p > 0 then p_header p else buff)"

fun wait_packet :: "poll list \<Rightarrow> tcp_header \<Rightarrow> tcp_header res option" where
  "wait_packet [] buff = None"
| "wait_packet (p # ps) buff =
     (if p_exit p then Some (Inr buff)
      else if p_received p = - 1 then Some (Inl AssertFailed)
      else if p_received p > 0 then Some (Inr (fill_buffer p buff))
      else wait_packet ps buff)"


section \<open>Echoing every packet\<close>

abbreviation dummy_seq :: int where "dummy_seq \<equiv> - 1111"

definition stamp :: "real \<Rightarrow> u64 \<Rightarrow> tcp_header \<Rightarrow> tcp_header" where
  "stamp receiver_ms ack_t h = h\<lparr>h_receiver_timestamp := receiver_ms, h_tx_timestamp := ack_t\<rparr>"

definition echo_one :: "tcp_header \<Rightarrow> tcp_header list" where
  "echo_one h = (if h_seq_num h = dummy_seq then [] else [h])"

text \<open>One turn of the loop: \<open>go_exit\<close> at its start, the polls until a packet, and the two clocks.\<close>

record turn =
  t_exit :: bool
  t_polls :: "poll list"
  t_ms :: real
  t_ack_t :: u64

fun copa_recv_loop :: "turn list \<Rightarrow> tcp_header \<Rightarrow> (tcp_header list \<times> tcp_header) res option" where
  "copa_recv_loop [] buff = None"
| "copa_recv_loop (t # ts) buff =
     (if t_exit t then Some (Inr ([], buff))
      else case wait_packet (t_polls t) buff of
        None \<Rightarrow> None
      | Some (Inl e) \<Rightarrow> Some (Inl e)
      | Some (Inr h) \<Rightarrow>
          (let h' = stamp (t_ms t) (t_ack_t t) h in
           case copa_recv_loop ts h' of
             None \<Rightarrow> None
           | Some r \<Rightarrow> Some (bindE r (\<lambda>(sent, b). Inr (echo_one h' @ sent, b)))))"


section \<open>Acknowledging in batches\<close>

record batch_state =
  b_buff :: tcp_header
  b_list :: "tcp_header list"
  b_nof_pkt :: int

fun collect_batch :: "u64 \<Rightarrow> poll list \<Rightarrow> batch_state \<Rightarrow> batch_state res option" where
  "collect_batch start_t [] s = None"
| "collect_batch start_t (p # ps) s =
     (if p_exit p then Some (Inr s)
      else
        (let s1 = s\<lparr>b_buff := fill_buffer p (b_buff s)\<rparr> in
         case (if p_received p \<noteq> 0
               then bindE (aset (b_list s1) (b_nof_pkt s1) (b_buff s1)) (\<lambda>l.
                    Inr (s1\<lparr>b_list := l, b_nof_pkt := b_nof_pkt s1 + 1\<rparr>))
               else Inr s1) of
           Inl e \<Rightarrow> Some (Inl e)
         | Inr s2 \<Rightarrow>
             if p_curr_t p - start_t > 1000000 then Some (Inr s2) else collect_batch start_t ps s2))"

fun send_batch :: "(nat \<Rightarrow> real) \<Rightarrow> u64 \<Rightarrow> nat list \<Rightarrow> batch_state \<Rightarrow> (tcp_header list \<times> batch_state) res" where
  "send_batch ms ack_t [] s = Inr ([], s)"
| "send_batch ms ack_t (i # is) s =
     bindE (aget (b_list s) (int i)) (\<lambda>h.
     let h' = stamp (ms i) ack_t h in
     bindE (send_batch ms ack_t is (s\<lparr>b_buff := h', b_nof_pkt := b_nof_pkt s - 1\<rparr>)) (\<lambda>(sent, s').
     Inr (echo_one h' @ sent, s')))"

definition batch_dummy :: "u64 \<Rightarrow> tcp_header \<Rightarrow> tcp_header" where
  "batch_dummy curr_t h = h\<lparr>h_seq_num := dummy_seq, h_tx_timestamp := curr_t\<rparr>"

definition batch_turn ::
  "u64 \<Rightarrow> poll list \<Rightarrow> (nat \<Rightarrow> real) \<Rightarrow> u64 \<Rightarrow> batch_state \<Rightarrow> (tcp_header list \<times> batch_state) res option" where
  "batch_turn start_t ps ms now s =
     (case collect_batch start_t ps s of
        None \<Rightarrow> None
      | Some r \<Rightarrow> Some (bindE r (\<lambda>s1.
          if b_nof_pkt s1 = 0
          then let h = batch_dummy now (b_buff s1) in Inr ([h], s1\<lparr>b_buff := h\<rparr>)
          else send_batch ms now [0..<nat (b_nof_pkt s1)] s1)))"


section \<open>Analysing without correcting\<close>

record receiver_state =
  rv_buffer :: ngscope_reordering_buf_t
  rv_offset :: int
  rv_dci_all :: "ngscope_dci_t list"
  rv_recent_dl :: "u64 list"
  rv_recent_ul :: "u64 list"
  rv_pkt_list :: "packet_node list"

text \<open>
  The copy of the control messages under the mutex. The uplink is tested with the test of the
  downlink.
\<close>

definition copy_messages :: "ngscope_dci_CA_t \<Rightarrow> receiver_state \<Rightarrow> (bool \<times> receiver_state) res" where
  "copy_messages dci_ca s =
     bindE (ngscope_dci_new_dl_reTx dci_ca (rv_recent_dl s)) (\<lambda>(new_dl, dl).
     bindE (if new_dl
            then bindE (ngscope_dci_extract_multi_cell dci_ca (rv_dci_all s)) (\<lambda>d.
                 bindE (ngscope_dci_copy_dl_reTx dci_ca dl) (\<lambda>dl'. Inr (d, dl')))
            else Inr (rv_dci_all s, dl)) (\<lambda>(d, dl').
     bindE (ngscope_dci_new_dl_reTx dci_ca (rv_recent_ul s)) (\<lambda>(new_ul, ul).
     bindE (if new_ul then ngscope_dci_copy_ul_reTx dci_ca ul else Inr ul) (\<lambda>ul'.
     Inr (new_dl, s\<lparr>rv_dci_all := d, rv_recent_dl := dl', rv_recent_ul := ul'\<rparr>)))))"

text \<open>The offset of the clocks is kept from turn to turn; the re-ordering buffer is updated twice.\<close>

definition align_clocks :: "u64 option list option \<Rightarrow> int \<Rightarrow> bool \<Rightarrow> receiver_state \<Rightarrow> receiver_state res" where
  "align_clocks pkt_reTx cells new_dl s =
     bindE (if new_dl
            then bindE (find_offset (rv_dci_all s) pkt_reTx True cells) (\<lambda>offset.
                 bindE (ngscope_reTx_update_buf (rv_dci_all s) cells (rv_buffer s)) (\<lambda>(found, q).
                 Inr (s\<lparr>rv_offset := offset, rv_buffer := q\<rparr>)))
            else Inr s) (\<lambda>s1.
     bindE (ngscope_dci_sync_multi_cell cells (rv_offset s1) (rv_dci_all s1)) (\<lambda>d.
     let s2 = s1\<lparr>rv_dci_all := d\<rparr> in
     if new_dl
     then bindE (ngscope_reTx_update_buf d cells (rv_buffer s2)) (\<lambda>(found, q).
          bindE (aget d 0) (\<lambda>q0.
          bindE (aget (reTx_tti (dl_dci q0)) (nof_reTx (dl_dci q0) - 1)) (\<lambda>recent_dci.
          Inr (s2\<lparr>rv_buffer := q\<rparr>))))
     else Inr s2))"

definition revert_delays :: "u64 list \<Rightarrow> u64 list \<Rightarrow> int \<Rightarrow> receiver_state \<Rightarrow> receiver_state res" where
  "revert_delays pkt_rx_t_us pkt_oneway_us nof_pkt s =
     (let q = rv_buffer s in
      bindE (if rb_ready q \<and> buffer_active q \<and> \<not> start_pkt_found q
             then bindE (ngscope_reTx_find_burst_start pkt_rx_t_us pkt_oneway_us nof_pkt (buf_start_t q)) (\<lambda>index.
                  if index > 0
                  then bindE (aget pkt_rx_t_us index) (\<lambda>t.
                       bindE (ngscope_list_ave_oneway pkt_oneway_us nof_pkt index 5) (\<lambda>ref.
                       Inr (q\<lparr>start_pkt_found := True, start_pkt_t := t, ref_oneway := ref\<rparr>)))
                  else Inr q)
             else Inr q) (\<lambda>q1.
      if rb_ready q1 \<and> buffer_active q1 \<and> start_pkt_found q1
      then (case ngscope_list_revert_delay (rv_pkt_list s) q1 of (ps, q2) \<Rightarrow>
              Inr (s\<lparr>rv_buffer := q2, rv_pkt_list := ps\<rparr>))
      else Inr (s\<lparr>rv_buffer := q1\<rparr>)))"

text \<open>
  Each program has a copy of \<open>enqueue_pkt\<close>: that of \<open>receiver.cc\<close> fills the whole node, that of
  \<open>copa_recv.cc\<close>, which its loop does not call, leaves \<open>burst_start\<close> as \<open>malloc\<close> found it (\<open>raw\<close>).
\<close>

definition receiver_node :: "bool \<Rightarrow> tcp_header \<Rightarrow> int \<Rightarrow> u64 \<Rightarrow> packet_node" where
  "receiver_node burst hdr received recv_time_ns =
     (let oneway_ns = recv_time_ns - h_tx_timestamp hdr
      in \<lparr>pkt_header = \<lparr>sequence_number = of_int (h_seq_num hdr), ack_number = 0,
             sent_timestamp = h_tx_timestamp hdr, sender_id = h_src_id hdr, recv_len_byte = of_int received\<rparr>,
          pkt_tcp_header = hdr, oneway_us = oneway_ns div 1000, recv_t_us = recv_time_ns div 1000,
          oneway_us_new = oneway_ns div 1000, revert_flag = False, acked = False, burst_start = burst\<rparr>)"

definition receiver_enqueue_pkt :: "packet_node list \<Rightarrow> tcp_header \<Rightarrow> int \<Rightarrow> u64 \<Rightarrow> packet_node list" where
  "receiver_enqueue_pkt pkt_list hdr received recv_time_ns =
     ngscope_list_insertNode_checkTime pkt_list (receiver_node False hdr received recv_time_ns)"

definition copa_recv_enqueue_pkt :: "bool \<Rightarrow> packet_node list \<Rightarrow> tcp_header \<Rightarrow> int \<Rightarrow> u64 \<Rightarrow> packet_node list" where
  "copa_recv_enqueue_pkt raw pkt_list hdr received recv_time_ns =
     ngscope_list_insertNode_checkTime pkt_list (receiver_node raw hdr received recv_time_ns)"

lemma enqueue_pkt_copies:
  "receiver_enqueue_pkt = enqueue_pkt" "copa_recv_enqueue_pkt False = enqueue_pkt"
  by (intro ext; simp add: receiver_enqueue_pkt_def copa_recv_enqueue_pkt_def receiver_node_def enqueue_pkt_def Let_def)+

definition receiver_turn ::
  "tcp_header \<Rightarrow> int \<Rightarrow> u64 \<Rightarrow> real \<Rightarrow> ngscope_dci_CA_t \<Rightarrow> receiver_state \<Rightarrow> (tcp_header \<times> receiver_state) res" where
  "receiver_turn h received recv_time_ns receiver_ms dci_ca s =
     (let hdr = h\<lparr>h_receiver_timestamp := receiver_ms\<rparr>;
          s1 = s\<lparr>rv_pkt_list := receiver_enqueue_pkt (rv_pkt_list s) hdr received recv_time_ns\<rparr>
      in bindE (copy_messages dci_ca s1) (\<lambda>(new_dl, s2).
         let cells = nof_cell dci_ca;
             nof_pkt = ngscope_list_length (rv_pkt_list s2);
             arr = replicate (nat nof_pkt) 0
         in bindE (ngscope_list_get_reTx (rv_pkt_list s2) arr arr nof_pkt 0) (\<lambda>(pkt_reTx, rx_t, oneway, nof_reTx_pkt).
            bindE (align_clocks pkt_reTx cells new_dl s2) (\<lambda>s3.
            bindE (revert_delays rx_t oneway nof_pkt s3) (\<lambda>s4.
            Inr (hdr, s4))))))"


section \<open>Batches\<close>

definition delivered :: "poll list \<Rightarrow> tcp_header list" where
  "delivered ps = map p_header (filter (\<lambda>p. p_received p > 0) ps)"

lemma echo_ones_eq: "concat (map (\<lambda>x. echo_one (f x)) xs) = filter (\<lambda>h. h_seq_num h \<noteq> dummy_seq) (map f xs)"
  by (induction xs) (simp_all add: echo_one_def)

text \<open>The buffer after the packets \<open>hs\<close> have been received and appended.\<close>

definition append_batch :: "tcp_header list \<Rightarrow> batch_state \<Rightarrow> batch_state" where
  "append_batch hs s = s\<lparr>b_buff := last (b_buff s # hs),
     b_list := take (nat (b_nof_pkt s)) (b_list s) @ hs @ drop (nat (b_nof_pkt s) + length hs) (b_list s),
     b_nof_pkt := b_nof_pkt s + int (length hs)\<rparr>"

lemma append_batch_Nil [simp]: "append_batch [] s = s"
  by (simp add: append_batch_def)

lemma append_batch_Cons:
  assumes "0 \<le> b_nof_pkt s" and "nat (b_nof_pkt s) < length (b_list s)"
  shows "append_batch (h # hs) s
    = append_batch hs (s\<lparr>b_buff := h, b_list := (b_list s)[nat (b_nof_pkt s) := h], b_nof_pkt := b_nof_pkt s + 1\<rparr>)"
  using assms
  by (simp add: append_batch_def nat_add_distrib take_Suc_conv_app_nth Suc_diff_le)

lemma collect_batch_eq:
  assumes "0 \<le> b_nof_pkt s" and "length (b_list s) = 1000" and "b_nof_pkt s \<le> 1000"
    and "\<forall>p \<in> set ps. 0 \<le> p_received p \<and> \<not> p_exit p \<and> p_curr_t p - start_t \<le> 1000000"
    and "0 \<le> p_received q" and "\<not> p_exit q" and "p_curr_t q - start_t > 1000000"
  shows "collect_batch start_t (ps @ [q]) s =
    (if b_nof_pkt s + int (length (delivered (ps @ [q]))) > 1000 then Some (Inl OutOfBounds)
     else Some (Inr (append_batch (delivered (ps @ [q])) s)))"
  using assms(1-4)
proof (induction ps arbitrary: s)
  case Nil
  then show ?case using assms(5-7)
    by (cases "p_received q = 0") (auto simp: fill_buffer_def delivered_def aset_def append_batch_Cons Let_def)
next
  case (Cons p ps)
  show ?case
  proof (cases "p_received p = 0")
    case True
    then show ?thesis using Cons by (auto simp: fill_buffer_def delivered_def Let_def)
  next
    case False
    then have pos: "p_received p > 0" using Cons.prems by auto
    show ?thesis
    proof (cases "b_nof_pkt s < 1000")
      case True
      let ?s1 = "s\<lparr>b_buff := p_header p, b_list := (b_list s)[nat (b_nof_pkt s) := p_header p], b_nof_pkt := b_nof_pkt s + 1\<rparr>"
      have "collect_batch start_t ((p # ps) @ [q]) s = collect_batch start_t (ps @ [q]) ?s1"
        using Cons.prems pos True by (auto simp: fill_buffer_def aset_def Let_def)
      then show ?thesis using Cons.IH [of ?s1] Cons.prems pos True
        by (simp add: delivered_def append_batch_Cons)
    next
      case False
      then show ?thesis using Cons.prems pos by (auto simp: fill_buffer_def aset_def delivered_def Let_def)
    qed
  qed
qed

lemma send_batch_eq:
  assumes "\<forall>i \<in> set is. i < length (b_list s)"
  shows "\<exists>s'. send_batch ms ack_t is s = Inr (concat (map (\<lambda>i. echo_one (stamp (ms i) ack_t (b_list s ! i))) is), s')
    \<and> b_nof_pkt s' = b_nof_pkt s - int (length is) \<and> b_list s' = b_list s"
  using assms
proof (induction "is" arbitrary: s)
  case (Cons i "is")
  let ?s1 = "s\<lparr>b_buff := stamp (ms i) ack_t (b_list s ! i), b_nof_pkt := b_nof_pkt s - 1\<rparr>"
  obtain s' where "send_batch ms ack_t is ?s1 = Inr (concat (map (\<lambda>i. echo_one (stamp (ms i) ack_t (b_list s ! i))) is), s')"
    "b_nof_pkt s' = b_nof_pkt s - 1 - int (length is)" "b_list s' = b_list s"
    using Cons.IH [of ?s1] Cons.prems by auto
  then show ?case using Cons.prems by (simp add: Let_def)
qed simp

text \<open>
  C32. A turn of the batch receiver that starts with an empty batch and collects packets until more
  than a millisecond has passed: with at most 1000 packets it acknowledges each of them once, in order,
  except dummy packets, and sends one dummy packet when there is none; the batch is empty again. With
  more packets it writes beyond the array of headers.
\<close>

theorem batch_turn_acks_batch:
  assumes "b_nof_pkt s = 0" and "length (b_list s) = 1000"
    and "\<forall>p \<in> set (ps @ [q]). 0 \<le> p_received p \<and> \<not> p_exit p"
    and "\<forall>p \<in> set ps. p_curr_t p - start_t \<le> 1000000" and "p_curr_t q - start_t > 1000000"
  shows "let hs = delivered (ps @ [q]) in
    if 1000 < length hs then batch_turn start_t (ps @ [q]) ms now s = Some (Inl OutOfBounds)
    else \<exists>s'. b_nof_pkt s' = 0 \<and> length (b_list s') = 1000
      \<and> batch_turn start_t (ps @ [q]) ms now s
        = Some (Inr (if hs = [] then [batch_dummy now (b_buff s)]
                     else filter (\<lambda>h. h_seq_num h \<noteq> - 1111)
                       (map (\<lambda>(i, h). h\<lparr>h_receiver_timestamp := ms i, h_tx_timestamp := now\<rparr>) (enumerate 0 hs)), s'))"
proof -
  define hs where "hs = delivered (ps @ [q])"
  have col: "collect_batch start_t (ps @ [q]) s =
    (if int (length hs) > 1000 then Some (Inl OutOfBounds) else Some (Inr (append_batch hs s)))"
    using collect_batch_eq [of s ps start_t q] assms by (simp add: hs_def)
  show ?thesis
  proof (cases "length hs \<le> 1000 \<and> hs \<noteq> []")
    case False
    then show ?thesis using col assms(1,2) by (auto simp: batch_turn_def hs_def [symmetric] Let_def not_le)
  next
    case True
    let ?s1 = "append_batch hs s"
    have l: "b_list ?s1 = hs @ drop (length hs) (b_list s)" "b_nof_pkt ?s1 = int (length hs)"
      by (simp_all add: append_batch_def assms(1))
    obtain s' where s': "send_batch ms now [0..<length hs] ?s1
        = Inr (concat (map (\<lambda>i. echo_one (stamp (ms i) now (b_list ?s1 ! i))) [0..<length hs]), s')"
      "b_nof_pkt s' = 0" "b_list s' = b_list ?s1"
      using send_batch_eq [of "[0..<length hs]" ?s1 ms now] l by auto
    have "map (\<lambda>i. stamp (ms i) now (b_list ?s1 ! i)) [0..<length hs]
      = map (\<lambda>(i, h). h\<lparr>h_receiver_timestamp := ms i, h_tx_timestamp := now\<rparr>) (enumerate 0 hs)"
      by (rule nth_equalityI) (simp_all add: l nth_append nth_enumerate_eq stamp_def)
    moreover have "length (b_list s') = 1000" using True assms(2) by (simp add: s'(3) l)
    ultimately show ?thesis using True col l s'(1,2)
      by (auto simp: batch_turn_def hs_def [symmetric] echo_ones_eq)
  qed
qed


definition test_poll :: "int \<Rightarrow> u64 \<Rightarrow> poll" where
  "test_poll received t = \<lparr>p_exit = False, p_received = received, p_header = pkt_tcp_header (test_packet 0 0), p_curr_t = t\<rparr>"

definition empty_batch :: batch_state where
  "empty_batch = \<lparr>b_buff = pkt_tcp_header (test_packet 0 0),
     b_list = replicate 1000 (pkt_tcp_header (test_packet 0 0)), b_nof_pkt = 0\<rparr>"

theorem batch_turn_acks_batch_witness:
  "\<exists>s'. batch_turn 0 ([test_poll 40 5] @ [test_poll 0 1000001]) (\<lambda>i. 7) 9 empty_batch
    = Some (Inr ([stamp 7 9 (pkt_tcp_header (test_packet 0 0))], s')) \<and> b_nof_pkt s' = 0"
proof -
  let ?h = "pkt_tcp_header (test_packet 0 0)"
  have d: "delivered ([test_poll 40 5] @ [test_poll 0 1000001]) = [?h]"
    by (simp add: delivered_def test_poll_def)
  have e: "b_nof_pkt empty_batch = 0" "length (b_list empty_batch) = 1000"
    by (simp_all only: empty_batch_def batch_state.simps length_replicate)
  have w: "\<forall>p \<in> set ([test_poll 40 5] @ [test_poll 0 1000001]). 0 \<le> p_received p \<and> \<not> p_exit p"
    "\<forall>p \<in> set [test_poll 40 5]. p_curr_t p - 0 \<le> 1000000" "p_curr_t (test_poll 0 1000001) - 0 > 1000000"
    by (simp_all add: test_poll_def)
  have few: "\<not> 1000 < length [?h]" by simp
  have out: "(if [?h] = [] then [batch_dummy 9 (b_buff empty_batch)]
      else filter (\<lambda>h. h_seq_num h \<noteq> - 1111)
        (map (\<lambda>(i, h). h\<lparr>h_receiver_timestamp := 7, h_tx_timestamp := 9\<rparr>) (enumerate 0 [?h]))) = [stamp 7 9 ?h]"
    by (simp add: stamp_def test_packet_def)
  from batch_turn_acks_batch [OF e w, of "\<lambda>i. 7" 9, unfolded d Let_def if_not_P [OF few] out]
  show ?thesis by blast
qed


section \<open>Echoes\<close>

text \<open>A turn in which the socket times out some times and then delivers a packet.\<close>

definition delivers :: "turn \<Rightarrow> tcp_header \<Rightarrow> bool" where
  "delivers t h \<longleftrightarrow> \<not> t_exit t \<and> (\<exists>ps q. t_polls t = ps @ [q] \<and> (\<forall>p \<in> set ps. \<not> p_exit p \<and> p_received p = 0)
     \<and> \<not> p_exit q \<and> 0 < p_received q \<and> p_header q = h)"

lemma wait_packet_quiet:
  assumes "\<forall>p \<in> set ps. \<not> p_exit p \<and> p_received p = 0"
  shows "wait_packet (ps @ qs) buff = wait_packet qs buff"
  using assms
proof (induction ps)
  case Nil
  show ?case by (simp only: append_Nil)
next
  case (Cons p ps)
  have "\<not> p_exit p" "p_received p = 0" using Cons.prems by simp_all
  moreover have "wait_packet (ps @ qs) buff = wait_packet qs buff"
  proof (rule Cons.IH)
    show "\<forall>p \<in> set ps. \<not> p_exit p \<and> p_received p = 0" using Cons.prems unfolding list.set ball_simps by (rule conjunct2)
  qed
  ultimately show ?case by (simp only: append_Cons wait_packet.simps if_False) simp
qed

lemma delivers_wait: "delivers t h \<Longrightarrow> \<not> t_exit t \<and> wait_packet (t_polls t) buff = Some (Inr h)"
  unfolding delivers_def by (elim conjE exE) (simp add: wait_packet_quiet fill_buffer_def)

definition echoed :: "turn \<times> tcp_header \<Rightarrow> tcp_header" where
  "echoed = (\<lambda>(t, h). stamp (t_ms t) (t_ack_t t) h)"

lemma copa_recv_loop_delivers:
  assumes "list_all2 delivers ts hs"
  shows "copa_recv_loop (ts @ us) buff =
    (case copa_recv_loop us (last (buff # map echoed (zip ts hs))) of None \<Rightarrow> None
     | Some r \<Rightarrow> Some (bindE r (\<lambda>(sent, b). Inr (concat (map (echo_one \<circ> echoed) (zip ts hs)) @ sent, b))))"
  using assms
proof (induction ts hs arbitrary: buff rule: list_all2_induct)
  case Nil
  then show ?case by (auto split: option.splits sum.splits)
next
  case (Cons t ts h hs)
  then show ?case using delivers_wait [of t h buff]
    by (auto simp: Let_def echoed_def bindE_assoc case_prod_unfold split: option.splits)
qed

text \<open>
  While packets arrive, the simple receiver sends back each packet that is not a dummy once, in
  order, with only its two times replaced, and it stops when \<open>go_exit\<close> is set between two packets.
\<close>

theorem copa_recv_echoes:
  assumes "list_all2 delivers ts hs" and "t_exit u"
  shows "copa_recv_loop (ts @ [u]) buff =
      Some (Inr (filter (\<lambda>h. h_seq_num h \<noteq> - 1111)
                   (map (\<lambda>(t, h). h\<lparr>h_receiver_timestamp := t_ms t, h_tx_timestamp := t_ack_t t\<rparr>) (zip ts hs)),
                 last (buff # map echoed (zip ts hs))))"
proof -
  have "concat (map (echo_one \<circ> echoed) (zip ts hs)) = filter (\<lambda>h. h_seq_num h \<noteq> - 1111)
      (map (\<lambda>(t, h). h\<lparr>h_receiver_timestamp := t_ms t, h_tx_timestamp := t_ack_t t\<rparr>) (zip ts hs))"
    by (simp only: comp_def echo_ones_eq) (simp add: echoed_def stamp_def case_prod_unfold)
  then show ?thesis using copa_recv_loop_delivers [OF assms(1)] assms(2) by simp
qed

definition test_turn :: "bool \<Rightarrow> poll list \<Rightarrow> turn" where
  "test_turn e ps = \<lparr>t_exit = e, t_polls = ps, t_ms = 7, t_ack_t = 9\<rparr>"

lemma test_turn_delivers: "delivers (test_turn False [test_poll 0 1, test_poll 40 2]) (pkt_tcp_header (test_packet 0 0))"
  unfolding delivers_def test_turn_def
  by (intro conjI exI [of _ "[test_poll 0 1]"] exI [of _ "test_poll 40 2"]) (simp_all add: test_poll_def)

theorem copa_recv_echoes_witness:
  "copa_recv_loop ([test_turn False [test_poll 0 1, test_poll 40 2]] @ [test_turn True []]) (pkt_tcp_header (test_packet 0 0))
    = Some (Inr ([stamp 7 9 (pkt_tcp_header (test_packet 0 0))], stamp 7 9 (pkt_tcp_header (test_packet 0 0))))"
proof -
  let ?h = "pkt_tcp_header (test_packet 0 0)" and ?t = "test_turn False [test_poll 0 1, test_poll 40 2]"
  have "list_all2 delivers [?t] [?h]" by (simp only: list_all2_Cons list_all2_Nil test_turn_delivers)
  moreover have "t_exit (test_turn True [])" by (simp add: test_turn_def)
  ultimately have "copa_recv_loop ([?t] @ [test_turn True []]) ?h
    = Some (Inr (filter (\<lambda>h. h_seq_num h \<noteq> - 1111)
                   (map (\<lambda>(t, h). h\<lparr>h_receiver_timestamp := t_ms t, h_tx_timestamp := t_ack_t t\<rparr>) (zip [?t] [?h])),
                 last (?h # map echoed (zip [?t] [?h]))))"
    by (rule copa_recv_echoes)
  then show ?thesis by (simp add: echoed_def stamp_def test_turn_def test_packet_def)
qed

text \<open>
  When \<open>go_exit\<close> is set while the receiver waits for a packet, the header that is left in the buffer, in
  general the last echo, is sent once more.
\<close>

theorem copa_recv_repeats_echo_at_exit:
  assumes "list_all2 delivers ts hs" and "\<not> t_exit t" and "t_polls t = p # ps" and "p_exit p" and "t_exit u"
  shows "copa_recv_loop (ts @ [t, u]) buff =
      Some (Inr (concat (map (echo_one \<circ> echoed) (zip ts hs))
                 @ echo_one (echoed (t, last (buff # map echoed (zip ts hs)))),
                 echoed (t, last (buff # map echoed (zip ts hs)))))"
  using copa_recv_loop_delivers [OF assms(1)] assms(2-5) by (simp add: Let_def echoed_def)

end
