(* ===== verification/Packet_List_Heap.thy ===== *)
theory Packet_List_Heap
  imports Ngscope_Packet_List "HOL-Library.Sublist"
begin

text \<open>
  The packet list of \<open>src/ngscope_packet_list.cc\<close> as it is in memory: nodes at addresses, with the
  pointers \<open>next\<close> and \<open>prev\<close>; \<open>None\<close> is \<open>NULL\<close>. The first node is a head without a packet. The
  operations are shown to implement those of \<open>Ngscope_Packet_List\<close>, which work on the list of the packets.
  Reading a \<open>NULL\<close> pointer or freed memory is the failure \<open>NullDeref\<close>. The loops follow pointers and
  need not end on a cyclic list: they are partial functions, and \<open>None\<close> stands for not returning.
\<close>


section \<open>Memory\<close>

record heap_node =
  hn_packet :: packet_node
  hn_next :: "nat option"
  hn_prev :: "nat option"

type_synonym heap = "nat \<Rightarrow> heap_node option"

definition deref :: "heap \<Rightarrow> nat option \<Rightarrow> heap_node res" where
  "deref h p = (case p of None \<Rightarrow> Inl NullDeref | Some a \<Rightarrow> (case h a of None \<Rightarrow> Inl NullDeref | Some n \<Rightarrow> Inr n))"

definition set_next :: "nat option \<Rightarrow> nat option \<Rightarrow> heap \<Rightarrow> heap res" where
  "set_next p v h = bindE (deref h p) (\<lambda>n. Inr (h(the p \<mapsto> n\<lparr>hn_next := v\<rparr>)))"

definition set_prev :: "nat option \<Rightarrow> nat option \<Rightarrow> heap \<Rightarrow> heap res" where
  "set_prev p v h = bindE (deref h p) (\<lambda>n. Inr (h(the p \<mapsto> n\<lparr>hn_prev := v\<rparr>)))"

text \<open>\<open>free(NULL)\<close> does nothing; freeing twice is undefined.\<close>

definition free :: "nat option \<Rightarrow> heap \<Rightarrow> heap res" where
  "free p h = (if p = None then Inr h else bindE (deref h p) (\<lambda>_. Inr (h(the p := None))))"


section \<open>Operations\<close>

text \<open>The allocator returns the fresh address \<open>a\<close>, whose contents are \<open>p\<close>.\<close>

definition ngscope_list_createNode :: "nat \<Rightarrow> packet_node \<Rightarrow> heap \<Rightarrow> nat \<times> heap" where
  "ngscope_list_createNode a p h = (a, h(a \<mapsto> \<lparr>hn_packet = p, hn_next = None, hn_prev = None\<rparr>))"

definition ngscope_list_deleteNode :: "nat option \<Rightarrow> nat option \<Rightarrow> nat option \<Rightarrow> heap \<Rightarrow> (nat option \<times> heap) res" where
  "ngscope_list_deleteNode head node prev h =
     (if head = None \<or> prev = None then Inr (head, h)
      else if head = node then
        bindE (deref h head) (\<lambda>x0.
        if hn_next x0 \<noteq> None then bindE (free (hn_next x0) h) (\<lambda>h1. Inr (hn_next x0, h1))
        else bindE (free head h) (\<lambda>h1. Inr (None, h1)))
      else
        bindE (deref h node) (\<lambda>n.
        if hn_next n \<noteq> None then bindE (set_next prev (hn_next n) h) (\<lambda>h1. bindE (free node h1) (\<lambda>h2. Inr (head, h2)))
        else bindE (set_next prev None h) (\<lambda>h1. bindE (free node h1) (\<lambda>h2. Inr (head, h2)))))"

partial_function (option) last_node_loop :: "heap \<Rightarrow> nat option \<Rightarrow> nat option res option" where
  "last_node_loop h p =
     (case deref h p of Inl e \<Rightarrow> Some (Inl e)
      | Inr n \<Rightarrow> if hn_next n \<noteq> None then last_node_loop h (hn_next n) else Some (Inr p))"

definition heap_findLastNode :: "heap \<Rightarrow> nat option \<Rightarrow> nat option res option" where
  "heap_findLastNode h head =
     (case deref h head of Inl e \<Rightarrow> Some (Inl e)
      | Inr n \<Rightarrow> if hn_next n = None then Some (Inr head) else last_node_loop h head)"

definition heap_delete_1st_element :: "nat option \<Rightarrow> heap \<Rightarrow> heap res" where
  "heap_delete_1st_element head h =
     bindE (deref h head) (\<lambda>x0. bindE (deref h (hn_next x0)) (\<lambda>first.
     let p = hn_next first in
     if hn_next x0 = None then Inr h
     else bindE (free (hn_next x0) h) (\<lambda>h1.
          if p \<noteq> None then bindE (set_next head p h1) (set_prev p head) else set_next head None h1)))"

partial_function (option) heap_wTime_loop :: "nat option \<Rightarrow> u64 \<Rightarrow> nat option \<Rightarrow> heap \<Rightarrow> heap res option" where
  "heap_wTime_loop head curr_t_us p h =
     (case deref h head of Inl e \<Rightarrow> Some (Inl e)
      | Inr x0 \<Rightarrow> if hn_next x0 = None then Some (Inr h)
        else (case deref h p of Inl e \<Rightarrow> Some (Inl e)
        | Inr n \<Rightarrow> if hn_next n \<noteq> None \<and> curr_t_us - recv_t_us (hn_packet n) > delay_thd_us
          then (case bindE (heap_delete_1st_element head h) (\<lambda>h1. bindE (deref h1 head) (\<lambda>x1. Inr (h1, hn_next x1))) of
                  Inl e \<Rightarrow> Some (Inl e)
                | Inr (h1, p1) \<Rightarrow> heap_wTime_loop head curr_t_us p1 h1)
          else Some (Inr h)))"

definition heap_checkTimeDelay_wTime :: "nat option \<Rightarrow> u64 \<Rightarrow> heap \<Rightarrow> heap res option" where
  "heap_checkTimeDelay_wTime head curr_t_us h =
     (if head = None then Some (Inr h)
      else case deref h head of Inl e \<Rightarrow> Some (Inl e) | Inr x0 \<Rightarrow> heap_wTime_loop head curr_t_us (hn_next x0) h)"

definition link_node :: "nat option \<Rightarrow> nat option \<Rightarrow> heap \<Rightarrow> heap res" where
  "link_node p node h = bindE (set_next p node h) (set_prev node p)"

definition heap_insertNode :: "nat option \<Rightarrow> nat option \<Rightarrow> heap \<Rightarrow> heap res option" where
  "heap_insertNode head node h =
     (if node = None \<or> head = None then Some (Inr h)
      else case heap_findLastNode h head of None \<Rightarrow> None | Some (Inl e) \<Rightarrow> Some (Inl e)
      | Some (Inr p) \<Rightarrow> Some (bindE (deref h p) (\<lambda>np. bindE (deref h node) (\<lambda>n.
          if recv_t_us (hn_packet np) > recv_t_us (hn_packet n) then Inr h else link_node p node h))))"

definition heap_insertNode_checkTime :: "nat option \<Rightarrow> nat option \<Rightarrow> heap \<Rightarrow> heap res option" where
  "heap_insertNode_checkTime head node h =
     (if node = None \<or> head = None then Some (Inr h)
      else case deref h head of Inl e \<Rightarrow> Some (Inl e)
      | Inr x0 \<Rightarrow> if hn_next x0 = None then Some (link_node head node h)
        else (case deref h node of Inl e \<Rightarrow> Some (Inl e)
        | Inr n \<Rightarrow> (case heap_findLastNode h head of None \<Rightarrow> None | Some (Inl e) \<Rightarrow> Some (Inl e)
          | Some (Inr p) \<Rightarrow> (case deref h p of Inl e \<Rightarrow> Some (Inl e)
            | Inr np \<Rightarrow> if recv_t_us (hn_packet np) > recv_t_us (hn_packet n) then Some (Inr h)
              else (case link_node p node h of Inl e \<Rightarrow> Some (Inl e)
              | Inr h1 \<Rightarrow> heap_checkTimeDelay_wTime head (recv_t_us (hn_packet n)) h1)))))"

partial_function (option) heap_length_loop :: "heap \<Rightarrow> nat option \<Rightarrow> int \<Rightarrow> int res option" where
  "heap_length_loop h p len =
     (case deref h p of Inl e \<Rightarrow> Some (Inl e)
      | Inr n \<Rightarrow> if hn_next n \<noteq> None then heap_length_loop h (hn_next n) (len + 1) else Some (Inr len))"

definition heap_list_length :: "heap \<Rightarrow> nat option \<Rightarrow> int res option" where
  "heap_list_length h head =
     (case deref h head of Inl e \<Rightarrow> Some (Inl e)
      | Inr x0 \<Rightarrow> if hn_next x0 = None then Some (Inr 0) else heap_length_loop h (hn_next x0) 0)"


section \<open>The list in memory\<close>

text \<open>From the node at \<open>a\<close> on, the nodes at \<open>bs\<close> hold the packets \<open>ps\<close>, linked in both directions.\<close>

fun chain :: "heap \<Rightarrow> nat \<Rightarrow> nat list \<Rightarrow> packet_node list \<Rightarrow> bool" where
  "chain h a [] [] \<longleftrightarrow> (\<exists>n. h a = Some n \<and> hn_next n = None)"
| "chain h a (b # bs) (p # ps) \<longleftrightarrow> (\<exists>n m. h a = Some n \<and> hn_next n = Some b \<and> h b = Some m \<and> hn_prev m = Some a
     \<and> hn_packet m = p \<and> chain h b bs ps)"
| "chain h a _ _ \<longleftrightarrow> False"

definition holds_list :: "heap \<Rightarrow> nat \<Rightarrow> nat list \<Rightarrow> packet_node list \<Rightarrow> bool" where
  "holds_list h head bs ps \<longleftrightarrow> distinct (head # bs) \<and> chain h head bs ps"

lemma deref_Some [simp]: "h a = Some n \<Longrightarrow> deref h (Some a) = Inr n"
  by (simp add: deref_def)

lemma chain_head: "chain h a bs ps \<Longrightarrow> \<exists>n. h a = Some n \<and> hn_next n = (case bs of [] \<Rightarrow> None | b # _ \<Rightarrow> Some b)"
  by (cases "(h, a, bs, ps)" rule: chain.cases) auto

lemma chain_length: "chain h a bs ps \<Longrightarrow> length bs = length ps"
  by (induction h a bs ps rule: chain.induct) auto

lemma chain_other [simp]: "c \<noteq> a \<Longrightarrow> c \<notin> set bs \<Longrightarrow> chain (h(c := v)) a bs ps \<longleftrightarrow> chain h a bs ps"
  by (induction h a bs ps rule: chain.induct) auto

text \<open>The fields of the first node other than \<open>next\<close> do not matter.\<close>

lemma chain_first:
  "a \<notin> set bs \<Longrightarrow> h a = Some n \<Longrightarrow> hn_next n' = hn_next n \<Longrightarrow> chain (h(a \<mapsto> n')) a bs ps \<longleftrightarrow> chain h a bs ps"
  by (cases "(h, a, bs, ps)" rule: chain.cases) auto

lemma last_node_chain: "chain h a bs ps \<Longrightarrow> last_node_loop h (Some a) = Some (Inr (Some (last (a # bs))))"
proof (induction h a bs ps rule: chain.induct)
  case (2 h a b bs p ps)
  then show ?case by (subst last_node_loop.simps) auto
qed (auto simp: last_node_loop.simps)

lemma findLastNode_chain: "chain h a bs ps \<Longrightarrow> heap_findLastNode h (Some a) = Some (Inr (Some (last (a # bs))))"
  using last_node_chain [of h a bs ps] chain_head [of h a bs ps]
  by (auto simp: heap_findLastNode_def split: list.splits)

lemma chain_last: "chain h a bs ps \<Longrightarrow> bs \<noteq> [] \<Longrightarrow> \<exists>n. h (last bs) = Some n \<and> hn_packet n = last ps \<and> hn_next n = None"
proof (induction h a bs ps rule: chain.induct)
  case (2 h a b bs p ps)
  then show ?case using chain_length [of h b bs ps] chain_head [of h b bs ps] by (cases "bs = []") auto
qed auto

lemma chain_append:
  assumes "chain h a bs ps" and "distinct (a # bs)" and "c \<notin> set (a # bs)" and "h c = Some m" and "hn_next m = None"
  shows "\<exists>h'. link_node (Some (last (a # bs))) (Some c) h = Inr h' \<and> chain h' a (bs @ [c]) (ps @ [hn_packet m])"
  using assms
proof (induction h a bs ps rule: chain.induct)
  case (1 h a)
  then show ?case by (auto simp: link_node_def set_next_def set_prev_def)
next
  case (2 h a b bs p ps)
  then obtain h' where h': "link_node (Some (last (b # bs))) (Some c) h = Inr h'" "chain h' b (bs @ [c]) (ps @ [hn_packet m])"
    by auto
  obtain x where x: "h (last (b # bs)) = Some x" using chain_last [of h a "b # bs" "p # ps"] 2(2) by auto
  have eq: "h' = (h(last (b # bs) \<mapsto> x\<lparr>hn_next := Some c\<rparr>))(c \<mapsto> m\<lparr>hn_prev := Some (last (b # bs))\<rparr>)"
    using h'(1) x 2 by (auto simp: link_node_def set_next_def set_prev_def deref_def split: if_splits)
  have ne: "last (b # bs) \<noteq> a" using 2(3) last_in_set [of "b # bs"] by auto
  have "h' a = h a" using ne 2(4) by (auto simp: eq)
  moreover have "\<exists>m'. h' b = Some m' \<and> hn_prev m' = Some a \<and> hn_packet m' = p"
    using 2 x by (cases "bs = []") (auto simp: eq)
  ultimately show ?case using h' 2(2) by auto
qed auto


section \<open>The operations implement those on lists\<close>

lemma delete_1st_chain:
  assumes "chain h a (b # bs) (p # ps)" and "distinct (a # b # bs)"
  shows "\<exists>h'. heap_delete_1st_element (Some a) h = Inr h' \<and> chain h' a bs ps \<and> dom h' = dom h - {b}"
proof -
  obtain n m where n: "h a = Some n" "hn_next n = Some b" "h b = Some m" "chain h b bs ps" using assms(1) by auto
  show ?thesis
  proof (cases bs)
    case Nil
    then have "ps = []" "hn_next m = None" using n chain_length [OF n(4)] by auto
    then show ?thesis using n Nil assms(2)
      by (auto simp: heap_delete_1st_element_def set_next_def free_def Let_def)
  next
    case (Cons c cs)
    then obtain q qs where ps: "ps = q # qs" using chain_length [OF n(4)] by (cases ps) auto
    then obtain k where k: "hn_next m = Some c" "h c = Some k" "hn_packet k = q" "chain h c cs qs" using n Cons by auto
    let ?h = "(h(b := None, a \<mapsto> n\<lparr>hn_next := Some c\<rparr>))(c \<mapsto> k\<lparr>hn_prev := Some a\<rparr>)"
    have d: "a \<noteq> b" "a \<noteq> c" "b \<noteq> c" "a \<notin> set cs" "b \<notin> set cs" "c \<notin> set cs" using assms(2) Cons by auto
    have "chain ?h c cs qs" using k(2,4) d by (subst chain_first) auto
    moreover have "heap_delete_1st_element (Some a) h = Inr ?h"
      using n k d by (simp add: heap_delete_1st_element_def set_next_def set_prev_def free_def Let_def)
    ultimately show ?thesis using Cons ps n k d by (auto simp: fun_upd_def dom_def)
  qed
qed

lemma wTime_loop_chain:
  assumes "chain h a bs ps" and "distinct (a # bs)" and "bs \<noteq> []"
  shows "\<exists>h' bs'. heap_wTime_loop (Some a) t (Some (hd bs)) h = Some (Inr h') \<and> suffix bs' bs \<and> bs' \<noteq> []
    \<and> chain h' a bs' (ngscope_list_checkTimeDelay_wTime t ps) \<and> dom h' = dom h - (set bs - set bs')"
  using assms
proof (induction bs arbitrary: h ps)
  case (Cons b bs)
  obtain p qs where ps: "ps = p # qs" using Cons.prems(1) chain_length [OF Cons.prems(1)] by (cases ps) auto
  obtain n m where n: "h a = Some n" "hn_next n = Some b" "h b = Some m" "hn_packet m = p" "chain h b bs qs"
    using Cons.prems(1) ps by auto
  note next_b = chain_head [OF n(5)]
  show ?case
  proof (cases "bs \<noteq> [] \<and> t - recv_t_us p > delay_thd_us")
    case True
    obtain h1 where h1: "heap_delete_1st_element (Some a) h = Inr h1" "chain h1 a bs qs" "dom h1 = dom h - {b}"
      using delete_1st_chain Cons.prems(1,2) ps by blast
    obtain q rs where qs: "qs = q # rs" using True chain_length [OF n(5)] by (cases qs) auto
    obtain n1 where n1: "h1 a = Some n1" "hn_next n1 = Some (hd bs)" using chain_head [OF h1(2)] True by (auto split: list.splits)
    obtain h' bs' where h': "heap_wTime_loop (Some a) t (Some (hd bs)) h1 = Some (Inr h')" "suffix bs' bs" "bs' \<noteq> []"
      "chain h' a bs' (ngscope_list_checkTimeDelay_wTime t qs)" "dom h' = dom h1 - (set bs - set bs')"
      using Cons.IH [OF h1(2)] Cons.prems(2) True by auto
    have "heap_wTime_loop (Some a) t (Some (hd (b # bs))) h = heap_wTime_loop (Some a) t (Some (hd bs)) h1"
      using n next_b True h1(1) n1 by (subst heap_wTime_loop.simps) (auto split: list.splits)
    moreover have "dom h' = dom h - (set (b # bs) - set bs')"
      using h'(2,5) h1(3) Cons.prems(2) by (auto dest: set_mono_suffix)
    ultimately show ?thesis using h' True ps qs by (auto simp: suffix_Cons)
  next
    case False
    have "heap_wTime_loop (Some a) t (Some (hd (b # bs))) h = Some (Inr h)"
      using n next_b False by (subst heap_wTime_loop.simps) (auto split: list.splits)
    moreover have "ngscope_list_checkTimeDelay_wTime t ps = ps"
      using False ps chain_length [OF n(5)] by (cases qs) auto
    ultimately show ?thesis using Cons.prems(1) by (intro exI [of _ h] exI [of _ "b # bs"]) simp
  qed
qed simp

lemma link_node_dom: "link_node (Some a) (Some c) h = Inr h' \<Longrightarrow> dom h' = dom h"
  by (auto simp: link_node_def set_next_def set_prev_def deref_def bindE_eq_Inr split: option.splits if_splits)

lemma snoc_nonempty: "bs @ [c] \<noteq> []"
  by simp

text \<open>
  C38. The pointer operation that inserts a packet implements the operation on the list of packets: it
  returns, the nodes of the resulting list are linked in both directions, and exactly the nodes that
  were dropped from the list have been freed.
\<close>

theorem heap_insert_implements_list:
  assumes "holds_list h a bs ps" and "c \<notin> set (a # bs)" and "h c = Some m" and "hn_next m = None"
  shows "\<exists>h' bs'. heap_insertNode_checkTime (Some a) (Some c) h = Some (Inr h')
    \<and> holds_list h' a bs' (ngscope_list_insertNode_checkTime ps (hn_packet m))
    \<and> set bs' \<subseteq> insert c (set bs) \<and> dom h' = dom h - (set bs - set bs')"
proof -
  have ch: "chain h a bs ps" "distinct (a # bs)" using assms(1) by (auto simp: holds_list_def)
  obtain h1 where h1: "link_node (Some (last (a # bs))) (Some c) h = Inr h1" "chain h1 a (bs @ [c]) (ps @ [hn_packet m])"
    using chain_append [OF ch assms(2-4)] by blast
  note dom1 = link_node_dom [OF h1(1)]
  obtain n where n: "h a = Some n" "hn_next n = (case bs of [] \<Rightarrow> None | b # _ \<Rightarrow> Some b)" using chain_head [OF ch(1)] by blast
  show ?thesis
  proof (cases "bs = []")
    case True
    then have "ps = []" using chain_length [OF ch(1)] by simp
    moreover have "heap_insertNode_checkTime (Some a) (Some c) h = Some (Inr h1)"
      using True n h1(1) by (simp add: heap_insertNode_checkTime_def)
    ultimately show ?thesis using True h1(2) assms(2) dom1
      by (intro exI [of _ h1] exI [of _ "[c]"]) (auto simp: holds_list_def ngscope_list_insertNode_checkTime_def)
  next
    case False
    obtain k where k: "h (last bs) = Some k" "hn_packet k = last ps" using chain_last [OF ch(1) False] by blast
    have ps: "ps \<noteq> []" using chain_length [OF ch(1)] False by auto
    show ?thesis
    proof (cases "recv_t_us (last ps) > recv_t_us (hn_packet m)")
      case True
      then have "heap_insertNode_checkTime (Some a) (Some c) h = Some (Inr h)"
        using False n k assms(3) findLastNode_chain [OF ch(1)] by (auto simp: heap_insertNode_checkTime_def split: list.splits)
      then show ?thesis using True ps assms(1)
        by (intro exI [of _ h] exI [of _ bs]) (auto simp: ngscope_list_insertNode_checkTime_def)
    next
      case older: False
      have d: "distinct (a # bs @ [c])" using ch(2) assms(2) by auto
      obtain h' bs' where h': "heap_wTime_loop (Some a) (recv_t_us (hn_packet m)) (Some (hd (bs @ [c]))) h1 = Some (Inr h')"
        "suffix bs' (bs @ [c])" "bs' \<noteq> []"
        "chain h' a bs' (ngscope_list_checkTimeDelay_wTime (recv_t_us (hn_packet m)) (ps @ [hn_packet m]))"
        "dom h' = dom h1 - (set (bs @ [c]) - set bs')"
        using wTime_loop_chain [OF h1(2) d snoc_nonempty] by blast
      obtain n1 where n1: "h1 a = Some n1" "hn_next n1 = Some (hd (bs @ [c]))"
        using chain_head [OF h1(2)] by (cases bs) auto
      have "heap_insertNode_checkTime (Some a) (Some c) h = Some (Inr h')"
        using False n n1 k assms(3) findLastNode_chain [OF ch(1)] older h1(1) h'(1)
        by (auto simp: heap_insertNode_checkTime_def heap_checkTimeDelay_wTime_def split: list.splits)
      moreover have "c \<in> set bs'" using h'(2,3) by (auto simp: suffix_def append_eq_append_conv2 Cons_eq_append_conv)
      moreover have "set bs' \<subseteq> insert c (set bs)" using set_mono_suffix [OF h'(2)] by auto
      moreover have "distinct (a # bs')"
      proof -
        obtain zs where "bs @ [c] = zs @ bs'" using h'(2) by (auto simp: suffix_def)
        then have "distinct (a # zs @ bs')" using d by (simp only: append_assoc [symmetric])
        then show ?thesis by simp
      qed
      ultimately show ?thesis using h'(4,5) ps older dom1 assms(2)
        by (intro exI [of _ h'] exI [of _ bs']) (auto simp: holds_list_def ngscope_list_insertNode_checkTime_def)
    qed
  qed
qed

definition node_of :: "packet_node \<Rightarrow> nat option \<Rightarrow> nat option \<Rightarrow> heap_node" where
  "node_of p n q = \<lparr>hn_packet = p, hn_next = n, hn_prev = q\<rparr>"

text \<open>A packet that arrives two seconds after the only one in the list replaces it.\<close>

theorem heap_insert_implements_list_witness:
  "\<exists>h' x. heap_insertNode_checkTime (Some 0) (Some 2)
      [0 \<mapsto> node_of (test_packet 0 0) (Some 1) None, 1 \<mapsto> node_of (test_packet 5 1) None (Some 0),
       2 \<mapsto> node_of (test_packet 2000000 1) None None] = Some (Inr h') \<and> holds_list h' 0 [x] [test_packet 2000000 1]"
proof -
  let ?h = "[0 \<mapsto> node_of (test_packet 0 0) (Some 1) None, 1 \<mapsto> node_of (test_packet 5 1) None (Some 0),
       2 \<mapsto> node_of (test_packet 2000000 1) None None] :: heap"
  have "holds_list ?h 0 [1] [test_packet 5 1]" by (simp add: holds_list_def node_of_def)
  then obtain h' bs' where h': "heap_insertNode_checkTime (Some 0) (Some 2) ?h = Some (Inr h')"
    "holds_list h' 0 bs' (ngscope_list_insertNode_checkTime [test_packet 5 1] (test_packet 2000000 1))"
    using heap_insert_implements_list [of ?h 0 "[1]" "[test_packet 5 1]" 2 "node_of (test_packet 2000000 1) None None"]
    by (auto simp: node_of_def)
  have "ngscope_list_insertNode_checkTime [test_packet 5 1] (test_packet 2000000 1) = [test_packet 2000000 1]"
    by (simp add: ngscope_list_insertNode_checkTime_def test_packet_def delay_thd_us_def)
  moreover have "length bs' = 1" using h'(2) chain_length calculation by (fastforce simp: holds_list_def)
  ultimately show ?thesis using h' by (auto simp: length_Suc_conv)
qed

text \<open>The length counts the nodes of the list that have a successor.\<close>

theorem heap_length_implements_list:
  assumes "holds_list h a bs ps"
  shows "heap_list_length h (Some a) = Some (Inr (ngscope_list_length ps))"
proof -
  have loop: "chain h b cs qs \<Longrightarrow> heap_length_loop h (Some b) k = Some (Inr (k + int (length cs)))" for b cs qs k
  proof (induction h b cs qs arbitrary: k rule: chain.induct)
    case (2 h a b bs p ps)
    then show ?case by (subst heap_length_loop.simps) auto
  qed (auto simp: heap_length_loop.simps)
  have cnt: "count_next (p # qs) = int (length qs)" for p qs by (induction qs arbitrary: p) auto
  have ch: "chain h a bs ps" using assms by (simp add: holds_list_def)
  show ?thesis
  proof (cases bs)
    case Nil
    then show ?thesis using ch chain_length [OF ch] by (auto simp: heap_list_length_def ngscope_list_length_def)
  next
    case (Cons b cs)
    then obtain p qs where "ps = p # qs" using chain_length [OF ch] by (cases ps) auto
    then show ?thesis using Cons ch loop [of b cs qs 0] chain_length [of h b cs qs] cnt
      by (auto simp: heap_list_length_def ngscope_list_length_def)
  qed
qed

text \<open>
  Deleting a node behind the head unlinks it, but the back pointer of the node after it is not updated;
  deleting a head that has a successor returns the address of that successor, which it has just freed.
\<close>

theorem deleteNode_head_dangles:
  assumes "h a = Some n" and "hn_next n = Some b" and "h b = Some m"
  shows "\<exists>h'. ngscope_list_deleteNode (Some a) (Some a) (Some p) h = Inr (Some b, h') \<and> h' b = None"
  using assms by (simp add: ngscope_list_deleteNode_def free_def)

end
