(* ===== verification/Rtt_Window.thy ===== *)
theory Rtt_Window
  imports Prelude
begin

text \<open>
  Model of \<open>src/rtt-window.hh\<close> and \<open>src/rtt-window.cc\<close>: the sliding-window minimum and maximum of
  round-trip times, kept as a monotone deque, and the window object with the four trackers that Copa
  uses. Times and values are reals; \<open>numeric_limits<double>::max()\<close> and \<open>min()\<close> (the smallest positive
  number) are the constants \<open>DBL_MAX\<close> and \<open>DBL_MIN\<close>. Where the code overflows to infinity
  (\<open>20 * DBL_MAX\<close>) the model has a number larger than any time, with the same comparisons.
\<close>

definition DBL_MAX :: real where
  "DBL_MAX = (2 - 1 / 2 ^ 52) * 2 ^ 1023"

definition DBL_MIN :: real where
  "DBL_MIN = 1 / 2 ^ 1022"

lemma DBL_MIN_pos: "0 < DBL_MIN"
  by (simp add: DBL_MIN_def)


section \<open>The extreme-value tracker\<close>

text \<open>The deque holds pairs of time and value, its front first.\<close>

record extreme_window =
  ew_find_min :: bool
  ew_max_time :: real
  ew_vals :: "(real \<times> real) list"
  ew_extreme :: real

definition ExtremeWindow :: "bool \<Rightarrow> extreme_window" where
  "ExtremeWindow find_min =
     \<lparr>ew_find_min = find_min, ew_max_time = 10000, ew_vals = [],
      ew_extreme = (if find_min then DBL_MAX else DBL_MIN)\<rparr>"

definition ew_clear :: "extreme_window \<Rightarrow> extreme_window" where
  "ew_clear w = w\<lparr>ew_max_time := 10000, ew_vals := [],
     ew_extreme := (if ew_find_min w then DBL_MAX else DBL_MIN)\<rparr>"

text \<open>The loop of \<open>clear_old_hist\<close>: whether to recompute, and the remaining deque.\<close>

fun pop_old :: "bool \<Rightarrow> real \<Rightarrow> real \<Rightarrow> (real \<times> real) list \<Rightarrow> bool \<times> (real \<times> real) list" where
  "pop_old find_min ext cutoff (x # y # zs) =
     (if fst x < cutoff then
        (case pop_old find_min ext cutoff (y # zs) of (recompute, vs) \<Rightarrow>
           ((find_min \<and> snd x \<le> ext \<or> \<not> find_min \<and> snd x \<ge> ext) \<or> recompute, vs))
      else (False, x # y # zs))"
| "pop_old find_min ext cutoff vs = (False, vs)"

definition clear_old_hist :: "real \<Rightarrow> extreme_window \<Rightarrow> extreme_window" where
  "clear_old_hist now w =
     (case pop_old (ew_find_min w) (ew_extreme w) (now - ew_max_time w) (ew_vals w) of
        (recompute, vs) \<Rightarrow>
          if recompute then w\<lparr>ew_vals := vs, ew_extreme := snd (hd vs)\<rparr> else w\<lparr>ew_vals := vs\<rparr>)"

definition ew_new_sample :: "real \<Rightarrow> real \<Rightarrow> extreme_window \<Rightarrow> extreme_window" where
  "ew_new_sample val now w =
     (let kept = rev (dropWhile (\<lambda>x. ew_find_min w \<and> snd x > val \<or> \<not> ew_find_min w \<and> snd x < val)
                  (rev (ew_vals w)));
          ext = (if ew_find_min w \<and> val < ew_extreme w \<or> \<not> ew_find_min w \<and> val > ew_extreme w
                 then val else ew_extreme w)
      in clear_old_hist now (w\<lparr>ew_vals := kept @ [(now, val)], ew_extreme := ext\<rparr>))"

definition update_max_time :: "real \<Rightarrow> extreme_window \<Rightarrow> extreme_window" where
  "update_max_time t w = w\<lparr>ew_max_time := t\<rparr>"


section \<open>The window object\<close>

record rtt_window =
  srtt :: real
  latest_rtt :: real
  min_rtt_w :: extreme_window
  unjittered_rtt_w :: extreme_window
  is_copa_min_w :: extreme_window
  is_copa_max_w :: extreme_window

abbreviation srtt_alpha :: real where "srtt_alpha \<equiv> 1 / 16"

definition RTTWindow :: rtt_window where
  "RTTWindow = \<lparr>srtt = 0, latest_rtt = 0, min_rtt_w = ExtremeWindow True,
     unjittered_rtt_w = ExtremeWindow True, is_copa_min_w = ExtremeWindow True,
     is_copa_max_w = ExtremeWindow False\<rparr>"

definition rtt_window_clear :: "rtt_window \<Rightarrow> rtt_window" where
  "rtt_window_clear w = w\<lparr>srtt := 0, min_rtt_w := ew_clear (min_rtt_w w),
     unjittered_rtt_w := ew_clear (unjittered_rtt_w w),
     is_copa_min_w := ew_clear (is_copa_min_w w), is_copa_max_w := ew_clear (is_copa_max_w w)\<rparr>"

definition new_rtt_sample :: "real \<Rightarrow> real \<Rightarrow> rtt_window \<Rightarrow> rtt_window" where
  "new_rtt_sample rtt now w =
     (let s0 = (if srtt w = 0 then rtt else srtt w);
          s = srtt_alpha * rtt + (1 - srtt_alpha) * s0;
          max_time = max 10000 (20 * ew_extreme (min_rtt_w w))
      in w\<lparr>srtt := s, latest_rtt := rtt,
           min_rtt_w := ew_new_sample rtt now (update_max_time max_time (min_rtt_w w)),
           unjittered_rtt_w :=
             ew_new_sample rtt now (update_max_time (min max_time (s * 0.5)) (unjittered_rtt_w w)),
           is_copa_min_w :=
             ew_new_sample rtt now (update_max_time (min max_time (s * 4)) (is_copa_min_w w)),
           is_copa_max_w :=
             ew_new_sample rtt now (update_max_time (min max_time (s * 4)) (is_copa_max_w w))\<rparr>)"

definition get_min_rtt :: "rtt_window \<Rightarrow> real" where
  "get_min_rtt w = ew_extreme (min_rtt_w w)"

definition get_unjittered_rtt :: "rtt_window \<Rightarrow> real" where
  "get_unjittered_rtt w = ew_extreme (unjittered_rtt_w w)"

definition get_latest_rtt :: "rtt_window \<Rightarrow> real" where
  "get_latest_rtt w = latest_rtt w"

definition is_copa :: "rtt_window \<Rightarrow> bool" where
  "is_copa w =
     (let threshold = ew_extreme (min_rtt_w w) + 0.1 * (ew_extreme (is_copa_max_w w) - ew_extreme (min_rtt_w w))
      in ew_extreme (is_copa_min_w w) < threshold)"


section \<open>The monotone deque refines the plain window\<close>

text \<open>
  The abstract tracker keeps every sample of the window; \<open>key\<close> turns a maximum into a minimum;
  \<open>suffix_minima\<close> is what the deque keeps of the window.
\<close>

definition window_step :: "real \<Rightarrow> real \<Rightarrow> real \<Rightarrow> (real \<times> real) list \<Rightarrow> (real \<times> real) list" where
  "window_step max_time val now W = filter (\<lambda>x. fst x \<ge> now - max_time) W @ [(now, val)]"

definition key :: "bool \<Rightarrow> real \<Rightarrow> real" where
  "key find_min v = (if find_min then v else - v)"

fun suffix_minima :: "('a \<Rightarrow> real) \<Rightarrow> 'a list \<Rightarrow> 'a list" where
  "suffix_minima k [] = []"
| "suffix_minima k (x # xs) =
     (if \<forall>y \<in> set xs. k x \<le> k y then x # suffix_minima k xs else suffix_minima k xs)"

lemma suffix_minima_subset: "set (suffix_minima k xs) \<subseteq> set xs"
  by (induction xs) auto

lemma suffix_minima_sorted: "sorted (map k (suffix_minima k xs))"
  using suffix_minima_subset by (induction xs) fastforce+

lemma suffix_minima_snoc:
  "suffix_minima k (xs @ [x]) = filter (\<lambda>y. k y \<le> k x) (suffix_minima k xs) @ [x]"
  by (induction xs) auto

lemma suffix_minima_hd:
  "xs \<noteq> [] \<Longrightarrow> suffix_minima k xs \<noteq> [] \<and> k (hd (suffix_minima k xs)) = Min (k ` set xs)"
proof (induction xs)
  case (Cons x xs)
  show ?case
  proof (cases "xs = []")
    case False
    then have IH: "suffix_minima k xs \<noteq> []" "k (hd (suffix_minima k xs)) = Min (k ` set xs)"
      using Cons.IH by auto
    have M: "Min (k ` set (x # xs)) = min (k x) (Min (k ` set xs))" using False by simp
    have le: "(\<forall>y \<in> set xs. k x \<le> k y) \<longleftrightarrow> k x \<le> Min (k ` set xs)" using False by simp
    show ?thesis using IH unfolding M by (simp add: le min_def)
  qed simp
qed simp

lemma suffix_minima_filter_time:
  "sorted (map fst xs) \<Longrightarrow>
   suffix_minima k (filter (\<lambda>x. fst x \<ge> c) xs) = filter (\<lambda>x. fst x \<ge> (c::real)) (suffix_minima k xs)"
proof (induction xs)
  case (Cons x xs)
  show ?case
  proof (cases "fst x \<ge> c")
    case True
    then have all: "\<forall>y \<in> set (x # xs). fst y \<ge> c" using Cons.prems by auto
    then have "filter (\<lambda>x. fst x \<ge> c) (x # xs) = x # xs" by simp
    moreover have "filter (\<lambda>x. fst x \<ge> c) (suffix_minima k (x # xs)) = suffix_minima k (x # xs)"
      using all suffix_minima_subset [of k "x # xs"] by (intro filter_True) blast
    ultimately show ?thesis by simp
  next
    case False
    then show ?thesis using Cons by simp
  qed
qed simp

text \<open>Popping from the back of a sorted list, and from the front of a list sorted by time.\<close>

lemma dropWhile_rev_sorted:
  "sorted (map k xs) \<Longrightarrow> rev (dropWhile (\<lambda>x. k x > (v::real)) (rev xs)) = filter (\<lambda>x. k x \<le> v) xs"
proof (induction xs rule: rev_induct)
  case (snoc x xs)
  show ?case
  proof (cases "k x > v")
    case False
    then have "\<forall>y \<in> set xs. k y \<le> v" using snoc.prems by (force simp: sorted_append)
    then show ?thesis using False by simp
  qed (use snoc in \<open>simp add: sorted_append\<close>)
qed simp

lemma pop_old_eq:
  assumes "vs \<noteq> []" and "sorted (map fst vs)" and "sorted (map (\<lambda>x. key fm (snd x)) vs)"
    and "key fm ext = key fm (snd (hd vs))"
  shows "\<exists>r. pop_old fm ext c vs = (r, filter (\<lambda>x. fst x \<ge> c) (butlast vs) @ [last vs])
    \<and> (r \<longleftrightarrow> length vs > 1 \<and> fst (hd vs) < c)"
proof -
  have gen: "\<exists>r. pop_old fm ext c vs = (r, filter (\<lambda>x. fst x \<ge> c) (butlast vs) @ [last vs])
      \<and> (r \<longrightarrow> length vs > 1 \<and> fst (hd vs) < c)"
    if "vs \<noteq> []" "sorted (map fst vs)" for vs
    using that
  proof (induction fm ext c vs rule: pop_old.induct)
    case (1 fm ext c x y zs)
    show ?case
    proof (cases "fst x < c")
      case True
      then show ?thesis using 1 by (auto split: prod.splits)
    next
      case False
      then have "\<forall>z \<in> set (y # zs). fst z \<ge> c" using 1(3) by auto
      then have "filter (\<lambda>x. fst x \<ge> c) (butlast (x # y # zs)) = butlast (x # y # zs)"
        using False by (intro filter_True) (auto dest: in_set_butlastD)
      then show ?thesis using False by (intro exI [of _ False]) simp
    qed
  qed auto
  obtain r where r: "pop_old fm ext c vs = (r, filter (\<lambda>x. fst x \<ge> c) (butlast vs) @ [last vs])"
    "r \<longrightarrow> length vs > 1 \<and> fst (hd vs) < c"
    using gen assms(1,2) by blast
  have "r" if "length vs > 1" "fst (hd vs) < c"
    using that r(1) assms(4)
    by (cases "(fm, ext, c, vs)" rule: pop_old.cases) (auto simp: key_def split: prod.splits if_splits)
  with r show ?thesis by blast
qed

text \<open>What the deque and the extreme value are for a given window.\<close>

definition tracks :: "extreme_window \<Rightarrow> (real \<times> real) list \<Rightarrow> bool" where
  "tracks w W \<longleftrightarrow> ew_vals w = suffix_minima (\<lambda>x. key (ew_find_min w) (snd x)) W \<and> sorted (map fst W)
     \<and> (if W = [] then ew_extreme w = (if ew_find_min w then DBL_MAX else DBL_MIN)
        else key (ew_find_min w) (ew_extreme w) = Min ((\<lambda>x. key (ew_find_min w) (snd x)) ` set W))"

definition in_range :: "bool \<Rightarrow> real \<Rightarrow> bool" where
  "in_range find_min v \<longleftrightarrow> (if find_min then v \<le> DBL_MAX else DBL_MIN \<le> v)"

lemma key_inj [simp]: "key fm a = key fm b \<longleftrightarrow> a = b"
  by (simp add: key_def)

lemma tracks_clear: "tracks (ew_clear w) []" "tracks (ExtremeWindow fm) []"
  by (simp_all add: tracks_def ew_clear_def ExtremeWindow_def)

lemma window_step_last:
  "filter (\<lambda>x. fst x \<ge> c) (W @ [x]) = (if fst x \<ge> c then filter (\<lambda>x. fst x \<ge> c) W @ [x]
     else filter (\<lambda>x. fst x \<ge> c) W)"
  by simp

lemma tracks_new_sample:
  assumes t: "tracks w W" and rng: "in_range (ew_find_min w) val"
    and now: "\<forall>x \<in> set W. fst x \<le> now"
  shows "tracks (ew_new_sample val now w) (window_step (ew_max_time w) val now W)"
proof -
  define k where "k = (\<lambda>x :: real \<times> real. key (ew_find_min w) (snd x))"
  define c where "c = now - ew_max_time w"
  let ?x = "(now, val)" and ?fm = "ew_find_min w"
  let ?W' = "W @ [?x]" and ?V = "suffix_minima k (W @ [(now, val)])"
  have vals: "ew_vals w = suffix_minima k W" and srt: "sorted (map fst W)"
    using t by (simp_all add: tracks_def k_def)
  have cond: "(\<lambda>x. ?fm \<and> snd x > val \<or> \<not> ?fm \<and> snd x < val) = (\<lambda>x. k x > key ?fm val)"
    by (rule ext) (auto simp: k_def key_def)
  have kept: "rev (dropWhile (\<lambda>x. ?fm \<and> snd x > val \<or> \<not> ?fm \<and> snd x < val) (rev (ew_vals w))) @ [?x] = ?V"
    unfolding cond vals dropWhile_rev_sorted [OF suffix_minima_sorted]
    by (simp add: suffix_minima_snoc k_def)
  define ext where "ext = (if ?fm \<and> val < ew_extreme w \<or> \<not> ?fm \<and> val > ew_extreme w
      then val else ew_extreme w)"
  have ext: "key ?fm ext = Min (k ` set ?W')"
  proof (cases "W = []")
    case True
    then have "ext = val"
      using t rng by (auto simp: ext_def tracks_def in_range_def split: if_splits)
    then show ?thesis using True by (simp add: k_def)
  next
    case False
    then have "key ?fm (ew_extreme w) = Min (k ` set W)" using t by (simp add: tracks_def k_def)
    moreover have "key ?fm ext = min (key ?fm val) (key ?fm (ew_extreme w))"
      by (auto simp: ext_def key_def)
    ultimately show ?thesis using False by (simp add: k_def)
  qed
  have V: "?V \<noteq> []" "last ?V = ?x" by (simp_all add: suffix_minima_snoc)
  have V_times: "sorted (map fst ?V)"
  proof -
    have sub: "sorted (map fst (suffix_minima k xs))" if "sorted (map fst xs)" for xs :: "(real \<times> real) list"
      using that suffix_minima_subset [of k] by (induction xs) fastforce+
    show ?thesis by (rule sub) (use srt now in \<open>simp add: sorted_append\<close>)
  qed
  have hd: "key ?fm ext = key ?fm (snd (hd ?V))"
    using suffix_minima_hd [of ?W' k] ext by (simp add: k_def)
  obtain r where r: "pop_old ?fm ext c ?V = (r, filter (\<lambda>x. fst x \<ge> c) (butlast ?V) @ [?x])"
    "r \<longleftrightarrow> length ?V > 1 \<and> fst (hd ?V) < c"
    using pop_old_eq [OF V(1) V_times _ hd, of c] suffix_minima_sorted [of k ?W'] V(2)
    by (auto simp: k_def)
  let ?F = "filter (\<lambda>x. fst x \<ge> c) W @ [?x]"
  have "suffix_minima k ?F = filter (\<lambda>y. k y \<le> k ?x) (filter (\<lambda>x. fst x \<ge> c) (suffix_minima k W)) @ [?x]"
    by (simp add: suffix_minima_snoc suffix_minima_filter_time [OF srt])
  also have "\<dots> = filter (\<lambda>x. fst x \<ge> c) (butlast ?V) @ [?x]"
    by (simp add: suffix_minima_snoc conj_commute)
  finally have F: "suffix_minima k ?F = filter (\<lambda>x. fst x \<ge> c) (butlast ?V) @ [?x]" .
  have F_srt: "sorted (map fst ?F)"
    using srt now by (auto simp: sorted_append sorted_filter)
  have F_hd: "key ?fm (snd (hd (suffix_minima k ?F))) = Min (k ` set ?F)"
    using suffix_minima_hd [of ?F k] by (simp add: k_def)
  have no_r: "suffix_minima k ?F = ?V" if "\<not> r"
  proof (cases "length ?V > 1")
    case True
    then have "fst (hd ?V) \<ge> c" using that r(2) by simp
    then have "\<forall>y \<in> set ?V. fst y \<ge> c" using V_times V(1) by (cases ?V) auto
    then have "filter (\<lambda>x. fst x \<ge> c) (butlast ?V) = butlast ?V"
      by (intro filter_True) (auto dest: in_set_butlastD)
    then show ?thesis using V F by (metis append_butlast_last_id)
  next
    case False
    then have "butlast ?V = []" by (simp add: suffix_minima_snoc)
    then show ?thesis unfolding F using V by (metis append_butlast_last_id filter.simps(1))
  qed
  have "ew_new_sample val now w = (if r then w\<lparr>ew_vals := suffix_minima k ?F,
        ew_extreme := snd (hd (suffix_minima k ?F))\<rparr>
      else w\<lparr>ew_vals := suffix_minima k ?F, ew_extreme := ext\<rparr>)"
    using r(1) unfolding F ew_new_sample_def Let_def kept clear_old_hist_def
    by (simp add: ext_def [symmetric] c_def)
  moreover have "key ?fm ext = Min (k ` set ?F)" if "\<not> r"
    using hd F_hd no_r [OF that] by simp
  ultimately show ?thesis
    using F_srt F_hd by (auto simp: tracks_def window_step_def k_def c_def)
qed

lemma ew_new_sample_find_min [simp]:
  "ew_find_min (ew_new_sample v now w) = ew_find_min w" "ew_find_min (update_max_time m w) = ew_find_min w"
  "ew_find_min (ew_clear w) = ew_find_min w" "ew_max_time (update_max_time m w) = m"
  "ew_find_min (ExtremeWindow fm) = fm"
  by (auto simp: ExtremeWindow_def ew_new_sample_def clear_old_hist_def update_max_time_def ew_clear_def Let_def
      split: prod.splits)

lemma tracks_update_max_time [simp]: "tracks (update_max_time m w) W = tracks w W"
  by (simp add: tracks_def update_max_time_def)

lemma tracks_extreme:
  assumes "tracks w W" and "W \<noteq> []"
  shows "ew_find_min w \<Longrightarrow> ew_extreme w = Min (snd ` set W)"
    and "\<not> ew_find_min w \<Longrightarrow> ew_extreme w = Max (snd ` set W)"
proof -
  assume "ew_find_min w"
  then show "ew_extreme w = Min (snd ` set W)" using assms by (simp add: tracks_def key_def)
next
  assume fm: "\<not> ew_find_min w"
  then have e: "- ew_extreme w = Min (uminus ` snd ` set W)"
    using assms by (simp add: tracks_def key_def image_image)
  have "- ew_extreme w \<in> uminus ` snd ` set W" unfolding e using assms(2) by (intro Min_in) auto
  moreover have "x \<le> ew_extreme w" if "x \<in> snd ` set W" for x
  proof -
    have "Min (uminus ` snd ` set W) \<le> - x" using that by (intro Min_le) auto
    then show ?thesis using e by simp
  qed
  ultimately show "ew_extreme w = Max (snd ` set W)"
    by (intro Max_eqI [symmetric]) (auto simp del: image_iff intro: rev_image_eqI)
qed

text \<open>One tracker and the plain window over a whole sequence of (\<open>max_time\<close>, value, time).\<close>

definition run_tracker :: "bool \<Rightarrow> (real \<times> real \<times> real) list \<Rightarrow> extreme_window" where
  "run_tracker fm ss = fold (\<lambda>(m, v, now) w. ew_new_sample v now (update_max_time m w)) ss (ExtremeWindow fm)"

definition plain_window :: "(real \<times> real \<times> real) list \<Rightarrow> (real \<times> real) list" where
  "plain_window ss = fold (\<lambda>(m, v, now) W. window_step m v now W) ss []"

lemma run_tracker_tracks:
  assumes "sorted (map (\<lambda>(m, v, now). now) ss)" and "\<forall>(m, v, now) \<in> set ss. in_range fm v"
  shows "tracks (run_tracker fm ss) (plain_window ss) \<and> ew_find_min (run_tracker fm ss) = fm
    \<and> (\<forall>x \<in> set (plain_window ss). \<exists>(m, v, now) \<in> set ss. fst x = now)
    \<and> (ss \<noteq> [] \<longrightarrow> plain_window ss \<noteq> [])"
  using assms
proof (induction ss rule: rev_induct)
  case Nil
  then show ?case by (simp add: run_tracker_def plain_window_def tracks_clear)
next
  case (snoc s ss)
  obtain m v now where s: "s = (m, v, now)" by (cases s) auto
  have run: "run_tracker fm (ss @ [s]) = ew_new_sample v now (update_max_time m (run_tracker fm ss))"
    and win: "plain_window (ss @ [s]) = window_step m v now (plain_window ss)"
    by (simp_all add: run_tracker_def plain_window_def s)
  have IH: "tracks (run_tracker fm ss) (plain_window ss)" "ew_find_min (run_tracker fm ss) = fm"
    "\<forall>x \<in> set (plain_window ss). \<exists>(m, v, now) \<in> set ss. fst x = now"
    using snoc by (auto simp: sorted_append)
  have times: "\<forall>x \<in> set (plain_window ss). fst x \<le> now"
    using IH(3) snoc.prems(1) by (fastforce simp: sorted_append s)
  have "tracks (run_tracker fm (ss @ [s])) (plain_window (ss @ [s]))"
    using tracks_new_sample [of "update_max_time m (run_tracker fm ss)" "plain_window ss" v now]
      IH(1,2) snoc.prems(2) times by (simp add: run [unfolded s] win [unfolded s] s)
  then show ?case
    using IH(2,3) by (auto simp: run [unfolded s] win [unfolded s] window_step_def s)
qed

text \<open>
  C7. The tracker, which keeps a monotone deque and recomputes the extreme only when the front
  leaves, always reports the minimum (or maximum) of the plain window that keeps every sample: those
  not older than each \<open>max_time\<close> in force since they arrived, and the newest one in any case.
\<close>

theorem extreme_window_refines_plain_window:
  assumes "sorted (map (\<lambda>(m, v, now). now) ss)" and "\<forall>(m, v, now) \<in> set ss. in_range fm v"
    and "ss \<noteq> []"
  shows "ew_extreme (run_tracker fm ss)
    = (if fm then Min (snd ` set (plain_window ss)) else Max (snd ` set (plain_window ss)))"
  using run_tracker_tracks [OF assms(1,2)] assms(3)
    tracks_extreme [of "run_tracker fm ss" "plain_window ss"] by auto

theorem extreme_window_refines_plain_window_witness:
  "ew_extreme (run_tracker True [(10, 5, 1), (10, 3, 2), (10, 4, 15)]) = 4"
proof -
  have "(5::real) \<le> DBL_MAX" by (simp add: DBL_MAX_def)
  then show ?thesis
    using extreme_window_refines_plain_window [of "[(10, 5, 1), (10, 3, 2), (10, 4, 15)]" True]
    by (simp add: in_range_def plain_window_def window_step_def)
qed


section \<open>The trackers of the window object are ordered\<close>

definition rtt_window_ok :: "rtt_window \<Rightarrow> real \<Rightarrow> bool" where
  "rtt_window_ok w now \<longleftrightarrow> (\<exists>Wm Wu. ew_find_min (min_rtt_w w) \<and> ew_find_min (unjittered_rtt_w w)
     \<and> tracks (min_rtt_w w) Wm \<and> tracks (unjittered_rtt_w w) Wu \<and> set Wu \<subseteq> set Wm
     \<and> (\<forall>x \<in> set Wm. fst x \<le> now \<and> snd x \<le> DBL_MAX)
     \<and> (Wu = [] \<longrightarrow> Wm = []) \<and> (Wu \<noteq> [] \<longrightarrow> snd (last Wu) = latest_rtt w))"

lemma rtt_window_ok_init: "rtt_window_ok RTTWindow now"
  unfolding rtt_window_ok_def
  by (intro exI [of _ "[]"]) (simp add: RTTWindow_def tracks_clear)

lemma rtt_window_ok_clear:
  "rtt_window_ok w now \<Longrightarrow> rtt_window_ok (rtt_window_clear w) now'"
  unfolding rtt_window_ok_def [of "rtt_window_clear w"]
  by (intro exI [of _ "[]"]) (auto simp: rtt_window_clear_def tracks_clear rtt_window_ok_def)

lemma rtt_window_ok_sample:
  assumes "rtt_window_ok w t" and "t \<le> now" and "rtt \<le> DBL_MAX"
  shows "rtt_window_ok (new_rtt_sample rtt now w) now"
proof -
  obtain Wm Wu where W: "ew_find_min (min_rtt_w w)" "ew_find_min (unjittered_rtt_w w)"
    "tracks (min_rtt_w w) Wm" "tracks (unjittered_rtt_w w) Wu" "set Wu \<subseteq> set Wm"
    "\<forall>x \<in> set Wm. fst x \<le> t \<and> snd x \<le> DBL_MAX"
    using assms(1) unfolding rtt_window_ok_def by auto
  define s where "s = srtt_alpha * rtt + (1 - srtt_alpha) * (if srtt w = 0 then rtt else srtt w)"
  define m where "m = max 10000 (20 * ew_extreme (min_rtt_w w))"
  define mu where "mu = min m (s * 0.5)"
  let ?Wm = "window_step m rtt now Wm" and ?Wu = "window_step mu rtt now Wu"
  have now: "\<forall>x \<in> set Wm. fst x \<le> now" "\<forall>x \<in> set Wu. fst x \<le> now"
    using W(5,6) assms(2) by force+
  have new: "min_rtt_w (new_rtt_sample rtt now w) = ew_new_sample rtt now (update_max_time m (min_rtt_w w))"
    "unjittered_rtt_w (new_rtt_sample rtt now w)
      = ew_new_sample rtt now (update_max_time mu (unjittered_rtt_w w))"
    "latest_rtt (new_rtt_sample rtt now w) = rtt"
    by (simp_all add: new_rtt_sample_def s_def m_def mu_def Let_def)
  have "tracks (min_rtt_w (new_rtt_sample rtt now w)) ?Wm"
    using tracks_new_sample [of "update_max_time m (min_rtt_w w)" Wm rtt now] W now assms(3)
    by (simp add: new in_range_def)
  moreover have "tracks (unjittered_rtt_w (new_rtt_sample rtt now w)) ?Wu"
    using tracks_new_sample [of "update_max_time mu (unjittered_rtt_w w)" Wu rtt now] W now assms(3)
    by (simp add: new in_range_def)
  moreover have "set ?Wu \<subseteq> set ?Wm" using W(5) by (auto simp: window_step_def mu_def)
  moreover have "\<forall>x \<in> set ?Wm. fst x \<le> now \<and> snd x \<le> DBL_MAX"
    using W(6) now(1) assms(3) by (auto simp: window_step_def)
  ultimately show ?thesis
    unfolding rtt_window_ok_def using W(1,2)
    by - (rule exI [of _ ?Wm], rule exI [of _ ?Wu], auto simp: new window_step_def)
qed

lemma rtt_window_ok_order:
  assumes "rtt_window_ok w now"
  shows "get_min_rtt w \<le> get_unjittered_rtt w" and "get_min_rtt w \<le> DBL_MAX"
    and "get_unjittered_rtt w \<le> DBL_MAX"
proof -
  obtain Wm Wu where W: "ew_find_min (min_rtt_w w)" "ew_find_min (unjittered_rtt_w w)"
    "tracks (min_rtt_w w) Wm" "tracks (unjittered_rtt_w w) Wu" "set Wu \<subseteq> set Wm"
    "Wu = [] \<longrightarrow> Wm = []" "\<forall>x \<in> set Wm. snd x \<le> DBL_MAX"
    using assms unfolding rtt_window_ok_def by auto
  have "get_min_rtt w \<le> get_unjittered_rtt w \<and> get_min_rtt w \<le> DBL_MAX \<and> get_unjittered_rtt w \<le> DBL_MAX"
  proof (cases "Wu = []")
    case True
    then show ?thesis using W by (simp add: get_min_rtt_def get_unjittered_rtt_def tracks_def)
  next
    case False
    then have ne: "Wm \<noteq> []" using W(5) by auto
    have e: "get_min_rtt w = Min (snd ` set Wm)" "get_unjittered_rtt w = Min (snd ` set Wu)"
      using tracks_extreme(1) [OF W(3) ne W(1)] tracks_extreme(1) [OF W(4) False W(2)]
      by (simp_all add: get_min_rtt_def get_unjittered_rtt_def)
    have "Min (snd ` set Wm) \<le> Min (snd ` set Wu)" using False W(5) by (intro Min_antimono) auto
    moreover have "Min (snd ` set Wu) \<in> snd ` set Wu" using False by (intro Min_in) auto
    ultimately show ?thesis using W(5,7) e by fastforce
  qed
  then show "get_min_rtt w \<le> get_unjittered_rtt w" "get_min_rtt w \<le> DBL_MAX" "get_unjittered_rtt w \<le> DBL_MAX"
    by simp_all
qed

end
