(* ===== verification/Estimators.thy ===== *)
theory Estimators
  imports Rtt_Window
begin

text \<open>
  Model of \<open>src/estimators.hh\<close> and \<open>src/estimators.cc\<close>: moving averages, a percentile of a small
  window, the loss-rate estimate, the once-per-RTT loss detector, the time window and the test
  whether values are uniformly distributed. A C++ \<open>assert\<close> is the failure \<open>AssertFailed\<close>.
\<close>


section \<open>TimeEwma\<close>

record time_ewma =
  te_ewma :: real
  te_denominator :: real
  te_alpha :: real
  te_last_update_timestamp :: real

text \<open>\<open>pow\<close> for a non-negative base.\<close>

definition c_pow :: "real \<Rightarrow> real \<Rightarrow> real" where
  "c_pow a x = (if x = 0 then 1 else a powr x)"

definition TimeEwma :: "real \<Rightarrow> time_ewma res" where
  "TimeEwma s_alpha =
     (let a = 1 - s_alpha in
      bindE (guardE (a < 1) AssertFailed) (\<lambda>_.
      Inr \<lparr>te_ewma = 0, te_denominator = 0, te_alpha = a, te_last_update_timestamp = 0\<rparr>))"

definition te_reset :: "time_ewma \<Rightarrow> time_ewma" where
  "te_reset e = e\<lparr>te_ewma := 0, te_denominator := 0, te_last_update_timestamp := 0\<rparr>"

definition te_update :: "real \<Rightarrow> real \<Rightarrow> time_ewma \<Rightarrow> time_ewma res" where
  "te_update val timestamp e =
     bindE (guardE (timestamp \<ge> te_last_update_timestamp e) AssertFailed) (\<lambda>_.
     if te_denominator e = 0 then
       Inr (e\<lparr>te_ewma := val, te_denominator := 1, te_last_update_timestamp := timestamp\<rparr>)
     else
       let denom = (if te_denominator e > 0.01 * DBL_MAX then 1 else te_denominator e);
           e1 = e\<lparr>te_denominator := denom\<rparr>;
           ewma_factor = c_pow (te_alpha e) (timestamp - te_last_update_timestamp e);
           new_denom = 1 + ewma_factor * denom;
           new_ewma = (val + ewma_factor * te_ewma e * denom) / new_denom;
           fine = (val < te_ewma e \<and> new_ewma < te_ewma e \<or> val \<ge> te_ewma e \<and> new_ewma \<ge> te_ewma e)
       in if \<not> fine then Inr e1
          else Inr (e1\<lparr>te_ewma := new_ewma, te_denominator := new_denom,
                       te_last_update_timestamp := timestamp\<rparr>))"

definition te_add :: "real \<Rightarrow> time_ewma \<Rightarrow> time_ewma" where
  "te_add val e = e\<lparr>te_ewma := te_ewma e + val\<rparr>"

definition te_round :: "time_ewma \<Rightarrow> time_ewma" where
  "te_round e = e\<lparr>te_ewma := of_int (trunc_real (te_ewma e * 100000)) / 100000\<rparr>"

definition te_force_set :: "real \<Rightarrow> real \<Rightarrow> time_ewma \<Rightarrow> time_ewma" where
  "te_force_set val timestamp e =
     e\<lparr>te_ewma := val, te_denominator := 1, te_last_update_timestamp := timestamp\<rparr>"

definition te_is_valid :: "time_ewma \<Rightarrow> bool" where
  "te_is_valid e \<longleftrightarrow> te_denominator e \<noteq> 0"


section \<open>PlainEwma\<close>

record plain_ewma =
  pe_ewma :: real
  pe_alpha :: real
  pe_valid :: bool

definition PlainEwma :: "real \<Rightarrow> plain_ewma" where
  "PlainEwma alpha = \<lparr>pe_ewma = 0, pe_alpha = alpha, pe_valid = False\<rparr>"

definition pe_force_set :: "real \<Rightarrow> plain_ewma \<Rightarrow> plain_ewma" where
  "pe_force_set val e = e\<lparr>pe_valid := True, pe_ewma := val\<rparr>"

definition pe_update :: "real \<Rightarrow> plain_ewma \<Rightarrow> plain_ewma" where
  "pe_update val e = e\<lparr>pe_valid := True, pe_ewma := pe_alpha e * val + (1 - pe_alpha e) * pe_ewma e\<rparr>"

definition pe_round :: "plain_ewma \<Rightarrow> plain_ewma" where
  "pe_round e = e\<lparr>pe_ewma := of_int (trunc_real (pe_ewma e * 100000)) / 100000\<rparr>"

definition pe_reset :: "plain_ewma \<Rightarrow> plain_ewma" where
  "pe_reset e = e\<lparr>pe_ewma := 0\<rparr>"


section \<open>WindowAverage\<close>

text \<open>The queue of pairs of value and time, its front first.\<close>

record window_average =
  wa_window :: "(real \<times> real) list"
  wa_window_size :: real
  wa_sum :: real
  wa_prev_popped :: real

definition WindowAverage :: "real \<Rightarrow> window_average" where
  "WindowAverage win_size = \<lparr>wa_window = [], wa_window_size = win_size, wa_sum = 0, wa_prev_popped = 0\<rparr>"

fun wa_pop_old :: "real \<Rightarrow> (real \<times> real) list \<Rightarrow> real \<Rightarrow> real \<Rightarrow> (real \<times> real) list \<times> real \<times> real" where
  "wa_pop_old cutoff (x # y # z # zs) s prev =
     (if snd x < cutoff then
        wa_pop_old cutoff (y # z # zs) (if prev \<noteq> 0 then s - fst x * (snd x - prev) else s) (snd x)
      else (x # y # z # zs, s, prev))"
| "wa_pop_old cutoff w s prev = (w, s, prev)"

definition wa_update :: "real \<Rightarrow> real \<Rightarrow> window_average \<Rightarrow> window_average res" where
  "wa_update val timestamp w =
     bindE (guardE (wa_window w \<noteq> [] \<or> wa_prev_popped w = 0) AssertFailed) (\<lambda>_.
     let win = (if wa_window w = [] then [(val, timestamp - 1 / 1000)] else wa_window w);
         s = wa_sum w + val * (timestamp - snd (last win))
     in case wa_pop_old (timestamp - wa_window_size w) (win @ [(val, timestamp)]) s (wa_prev_popped w) of
          (win', s', prev') \<Rightarrow> Inr (w\<lparr>wa_window := win', wa_sum := s', wa_prev_popped := prev'\<rparr>))"

definition wa_reset :: "window_average \<Rightarrow> window_average" where
  "wa_reset w = w\<lparr>wa_window := [], wa_sum := 0, wa_prev_popped := 0\<rparr>"

definition wa_force_set :: "real \<Rightarrow> real \<Rightarrow> window_average \<Rightarrow> window_average res" where
  "wa_force_set val timestamp w = wa_update val timestamp (wa_reset w)"

definition wa_value :: "window_average \<Rightarrow> real res" where
  "wa_value w =
     bindE (guardE (length (wa_window w) \<noteq> 1) AssertFailed) (\<lambda>_.
     Inr (if length (wa_window w) < 2 then 0
          else wa_sum w / (snd (last (wa_window w)) - snd (hd (wa_window w)))))"


section \<open>Percentile\<close>

abbreviation window_len :: nat where "window_len \<equiv> 100"

record percentile_t =
  pc_percentile :: real
  pc_window :: "real list"

definition pc_push :: "real \<Rightarrow> percentile_t \<Rightarrow> percentile_t" where
  "pc_push val p =
     (let w = pc_window p @ [val]
      in p\<lparr>pc_window := (if length w > window_len then tl w else w)\<rparr>)"

text \<open>The inner loop: carry \<open>x\<close> through the array of the largest values.\<close>

fun pc_carry :: "nat \<Rightarrow> nat list \<Rightarrow> real \<Rightarrow> real list \<Rightarrow> real list" where
  "pc_carry N [] x largest = largest"
| "pc_carry N (j # js) x largest =
     (if x \<le> largest ! (N - 1) then pc_carry N js x largest
      else if x > largest ! j then pc_carry N js (largest ! j) (largest[j := x])
      else pc_carry N js x largest)"

fun pc_rotate :: "nat \<Rightarrow> nat \<Rightarrow> real list \<Rightarrow> real list \<Rightarrow> real list \<times> real list" where
  "pc_rotate 0 N window largest = (window, largest)"
| "pc_rotate (Suc i) N window largest =
     (let val = hd window
      in pc_rotate i N (tl window @ [val]) (pc_carry N [0..<N] val largest))"

definition get_percentile_value :: "percentile_t \<Rightarrow> (real \<times> percentile_t) res" where
  "get_percentile_value p =
     (let N = trunc_real ((1 - pc_percentile p) * real window_len)
      in if N > int window_len + 1 then Inl OutOfBounds
         else if pc_window p = [] then Inr (0, p)
         else case pc_rotate window_len (nat N) (pc_window p) (replicate (nat N) (- 1)) of
           (w, largest) \<Rightarrow> bindE (aget largest (N - 1)) (\<lambda>v. Inr (v, p\<lparr>pc_window := w\<rparr>)))"

definition pc_reset :: "percentile_t \<Rightarrow> percentile_t" where
  "pc_reset p = p\<lparr>pc_window := []\<rparr>"


section \<open>LossRateEstimate\<close>

record loss_rate_estimate =
  loss_events :: "real list"
  cur_loss_interval :: int

abbreviation loss_window :: int where "loss_window \<equiv> 8"

definition LossRateEstimate :: loss_rate_estimate where
  "LossRateEstimate = \<lparr>loss_events = [], cur_loss_interval = 0\<rparr>"

definition lr_reset :: "loss_rate_estimate \<Rightarrow> loss_rate_estimate" where
  "lr_reset l = l\<lparr>loss_events := [], cur_loss_interval := 0\<rparr>"

definition lr_update :: "bool \<Rightarrow> loss_rate_estimate \<Rightarrow> loss_rate_estimate" where
  "lr_update lost l =
     (if lost then
        if cur_loss_interval l \<le> 2 then l
        else
          let ev = loss_events l @ [of_int (cur_loss_interval l)]
          in l\<lparr>loss_events := (if int (length ev) > loss_window then tl ev else ev), cur_loss_interval := 0\<rparr>
      else l\<lparr>cur_loss_interval := cur_loss_interval l + 1\<rparr>)"

text \<open>
  \<open>value\<close>: the code declares \<open>i = 0\<close> and never increments it, so every interval has the same weight:
  1, or less when there is a single interval.
\<close>

definition lr_weight :: "int \<Rightarrow> int \<Rightarrow> real" where
  "lr_weight i cur_window =
     (if i \<ge> cur_window div 2
      then 1 - (of_int i + 1 - of_int cur_window / 2) / (of_int cur_window / 2 + 1) else 1)"

definition lr_value :: "loss_rate_estimate \<Rightarrow> real" where
  "lr_value l =
     (if loss_events l = [] then 0
      else
        let i = 0; cur_window = int (length (loss_events l));
            (sm, sw) = fold (\<lambda>x (sm, sw). (sm + lr_weight i cur_window * x, sw + lr_weight i cur_window))
              (rev (loss_events l)) (0, 0);
            (sm, sw) = (if sm / sw < of_int (cur_loss_interval l)
              then (sm + of_int (cur_loss_interval l), sw + 1) else (sm, sw))
        in sw / sm)"

definition lr_is_valid :: "loss_rate_estimate \<Rightarrow> bool" where
  "lr_is_valid l \<longleftrightarrow> int (length (loss_events l)) = loss_window"


section \<open>ReduceOnLoss\<close>

record reduce_on_loss =
  rl_num_lost :: int
  rl_num_pkts :: int
  rl_prev_win_time :: real

definition ReduceOnLoss :: reduce_on_loss where
  "ReduceOnLoss = \<lparr>rl_num_lost = 0, rl_num_pkts = 0, rl_prev_win_time = 0\<rparr>"

definition rl_update :: "bool \<Rightarrow> real \<Rightarrow> real \<Rightarrow> reduce_on_loss \<Rightarrow> bool \<times> reduce_on_loss" where
  "rl_update loss cur_time rtt r =
     (let r1 = (if loss then r\<lparr>rl_num_lost := rl_num_lost r + 1\<rparr> else r);
          r2 = r1\<lparr>rl_num_pkts := rl_num_pkts r1 + 1\<rparr>
      in if cur_time > rl_prev_win_time r2 + 2 * rtt \<and> rl_num_pkts r2 > 20 then
           (of_int (rl_num_lost r2) / of_int (rl_num_pkts r2) > (0.3 :: real),
            r2\<lparr>rl_prev_win_time := cur_time, rl_num_lost := 0, rl_num_pkts := 0\<rparr>)
         else (False, r2))"

definition rl_reset :: "reduce_on_loss \<Rightarrow> reduce_on_loss" where
  "rl_reset r = r\<lparr>rl_num_lost := 0, rl_num_pkts := 0, rl_prev_win_time := 0\<rparr>"

section \<open>TimeWindow\<close>

text \<open>The deque of pairs of time and value, its front first.\<close>

record time_window =
  tw_window_size :: real
  tw_window :: "(real \<times> real) list"

definition TimeWindow :: "real \<Rightarrow> time_window" where
  "TimeWindow win_size = \<lparr>tw_window_size = win_size, tw_window = []\<rparr>"

definition tw_update :: "real \<Rightarrow> real \<Rightarrow> time_window \<Rightarrow> time_window" where
  "tw_update d time w =
     w\<lparr>tw_window := dropWhile (\<lambda>x. fst x < time - tw_window_size w) (tw_window w @ [(time, d)])\<rparr>"

definition tw_update_window_size :: "real \<Rightarrow> time_window \<Rightarrow> time_window" where
  "tw_update_window_size s w = w\<lparr>tw_window_size := s\<rparr>"

definition tw_get_min :: "time_window \<Rightarrow> real" where
  "tw_get_min w =
     (if tw_window w = [] then 0
      else fold (\<lambda>x r. if snd x < r then snd x else r) (tw_window w) DBL_MAX)"

definition tw_get_max :: "time_window \<Rightarrow> real" where
  "tw_get_max w =
     (if tw_window w = [] then 0
      else fold (\<lambda>x r. if snd x > r then snd x else r) (tw_window w) DBL_MIN)"

text \<open>The second loop of \<open>is_copa\<close>, from the newest sample backwards: (before, after, counts).\<close>

fun tw_copa_loop ::
  "real \<Rightarrow> real \<Rightarrow> real \<Rightarrow> (real \<times> real) list \<Rightarrow> bool \<times> bool \<times> int \<times> int \<Rightarrow> bool \<times> bool \<times> int \<times> int" where
  "tw_copa_loop threshold cur_time rtt [] acc = acc"
| "tw_copa_loop threshold cur_time rtt (x # xs) (before, after, num_before, num_after) =
     (if fst x > cur_time - 2 * rtt then
        tw_copa_loop threshold cur_time rtt xs (before, after \<or> snd x < threshold, num_before, num_after + 1)
      else if fst x > cur_time - 4 * rtt then
        tw_copa_loop threshold cur_time rtt xs (before \<or> snd x < threshold, after, num_before + 1, num_after)
      else (before, after, num_before, num_after))"

definition tw_is_copa :: "time_window \<Rightarrow> real \<Rightarrow> real \<Rightarrow> bool" where
  "tw_is_copa w rtt cur_time =
     (let (min_rtt, max_rtt) = fold (\<lambda>x (mn, mx).
            (min mn (snd x), if fst x > cur_time - 4 * rtt then max mx (snd x) else mx))
            (rev (tw_window w)) (DBL_MAX, DBL_MIN);
          threshold = min_rtt + 0.1 * (max_rtt - min_rtt);
          (before, after, num_before, num_after) =
            tw_copa_loop threshold cur_time rtt (rev (tw_window w)) (False, False, 0, 0)
      in if num_after < 4 \<or> num_before < 4 then True else before \<and> after)"

definition tw_empty :: "time_window \<Rightarrow> bool" where
  "tw_empty w \<longleftrightarrow> tw_window w = []"

definition tw_reset :: "time_window \<Rightarrow> time_window" where
  "tw_reset w = w\<lparr>tw_window := []\<rparr>"


section \<open>IsUniformDistr\<close>

definition combinatoral_nck :: "int \<Rightarrow> int \<Rightarrow> real" where
  "combinatoral_nck n k0 =
     (let k = (if k0 > n div 2 then n - k0 else k0);
          res = fold (\<lambda>i r. r * of_int i) [n - k + 1..n] 1
      in fold (\<lambda>i r. r / of_int i) [1..k] res)"

text \<open>The entry \<open>precomputed[i][j]\<close>, \<open>0 \<le> j \<le> i \<le> window_len\<close>.\<close>

definition confidence_entry :: "nat \<Rightarrow> nat \<Rightarrow> real" where
  "confidence_entry i j =
     fold (\<lambda>k c. c / 2) [0..<i] (fold (\<lambda>k c. c + combinatoral_nck (int i) (int k)) [0..<j] 0)"

record is_uniform_distr =
  iu_window_len :: int
  iu_window :: "real list"
  iu_sum :: real
  iu_precomputed :: "real list list"

definition IsUniformDistr :: "nat \<Rightarrow> is_uniform_distr" where
  "IsUniformDistr len = \<lparr>iu_window_len = int len, iu_window = [], iu_sum = 0,
     iu_precomputed = map (\<lambda>i. map (confidence_entry i) [0..<Suc i]) [0..<Suc len]\<rparr>"

definition iu_update :: "real \<Rightarrow> is_uniform_distr \<Rightarrow> is_uniform_distr" where
  "iu_update d u =
     (let w = iu_window u @ [d]; s = iu_sum u + d
      in if int (length w) > iu_window_len u
         then u\<lparr>iu_window := tl w, iu_sum := s - hd w\<rparr>
         else u\<lparr>iu_window := w, iu_sum := s\<rparr>)"

fun iu_confidence_loop ::
  "real list list \<Rightarrow> real \<Rightarrow> real list \<Rightarrow> int \<Rightarrow> int \<Rightarrow> real \<Rightarrow> real res" where
  "iu_confidence_loop table mid [] num_seen num_greater best = Inr best"
| "iu_confidence_loop table mid (x # xs) num_seen num_greater best =
     (let g = (if x > mid then num_greater + 1 else num_greater); s = num_seen + 1
      in bindE (aget table s) (\<lambda>row. bindE (aget row g) (\<lambda>confidence.
           iu_confidence_loop table mid xs s g (if confidence > best then confidence else best))))"

definition iu_get_confidence :: "time_window \<Rightarrow> is_uniform_distr \<Rightarrow> real res" where
  "iu_get_confidence rtt_window u =
     (if iu_window u = [] \<or> tw_empty rtt_window then Inr 0
      else let mid = 0.5 * (tw_get_min rtt_window + tw_get_max rtt_window)
           in iu_confidence_loop (iu_precomputed u) mid (rev (iu_window u)) 0 0 0)"

definition iu_reset :: "is_uniform_distr \<Rightarrow> is_uniform_distr" where
  "iu_reset u = u\<lparr>iu_window := [], iu_sum := 0\<rparr>"


section \<open>Properties of the estimators\<close>

lemma fold_mult_upto: "fold (\<lambda>i r. r * real_of_int i) [a..a + int m - 1] c
    = c * (\<Prod>i < m. real_of_int a + real i)"
proof (induction m)
  case (Suc m)
  have "[a..a + int (Suc m) - 1] = [a..a + int m - 1] @ [a + int m]"
    by (simp add: upto_rec2)
  then show ?case using Suc by simp
qed simp

lemma fold_div_upto: "fold (\<lambda>i r. r / real_of_int i) [1..int m] c = c / fact m"
proof (induction m)
  case (Suc m)
  have "[1..int (Suc m)] = [1..int m] @ [int m + 1]" by (simp add: upto_rec2)
  then show ?case using Suc by (simp add: algebra_simps)
qed simp

lemma rising_prod: "fact d * (\<Prod>i < m. real d + 1 + real i) = fact (d + m)"
proof (induction m)
  case (Suc m)
  have "fact (d + Suc m) = fact (d + m) * (real d + 1 + real m)" by simp
  then show ?case by (simp only: prod.lessThan_Suc mult.assoc [symmetric] Suc)
qed simp

lemma nck_binomial:
  assumes "k \<le> n" shows "combinatoral_nck (int n) (int k) = real (n choose k)"
proof -
  have main: "fold (\<lambda>i r. r / real_of_int i) [1..int m]
      (fold (\<lambda>i r. r * real_of_int i) [int n - int m + 1..int n] 1) = real (n choose m)"
    if "m \<le> n" for m
  proof -
    have "[int n - int m + 1..int n] = [int (n - m) + 1..int (n - m) + 1 + int m - 1]"
      using that by (simp add: of_nat_diff)
    moreover have "(\<Prod>i < m. real_of_int (int (n - m) + 1) + real i) = fact n / fact (n - m)"
      using rising_prod [of "n - m" m] that by (simp add: field_simps)
    ultimately show ?thesis
      using that by (simp only: fold_mult_upto fold_div_upto) (simp add: binomial_fact mult.commute)
  qed
  show ?thesis
  proof (cases "int k > int n div 2")
    case True
    then have "int n - int k = int (n - k)" using assms by (simp add: of_nat_diff)
    then show ?thesis
      unfolding combinatoral_nck_def Let_def if_P [OF True]
      using main [of "n - k"] binomial_symmetric [OF assms] by (simp only: diff_le_self)
  next
    case False
    then show ?thesis
      unfolding combinatoral_nck_def Let_def if_not_P [OF False] by (intro main assms)
  qed
qed

lemma fold_add_nck:
  "j \<le> Suc i \<Longrightarrow>
   fold (\<lambda>k c. c + combinatoral_nck (int i) (int k)) [0..<j] c0 = c0 + (\<Sum>k < j. real (i choose k))"
  by (induction j) (simp_all add: nck_binomial)

lemma fold_half: "fold (\<lambda>k c. c / 2) [0..<n] c = c / (2 ^ n :: real)"
  by (induction n) simp_all

lemma confidence_entry_eq:
  "j \<le> Suc i \<Longrightarrow> confidence_entry i j = (\<Sum>k < j. real (i choose k)) / 2 ^ i"
  by (simp add: confidence_entry_def fold_add_nck fold_half)

lemma confidence_entry_range:
  assumes "j \<le> i" shows "0 \<le> confidence_entry i j \<and> confidence_entry i j \<le> 1"
proof -
  have "(\<Sum>k < j. real (i choose k)) \<le> (\<Sum>k \<le> i. real (i choose k))"
    using assms by (intro sum_mono2) auto
  also have "\<dots> = real (\<Sum>k \<le> i. i choose k)" by simp
  also have "\<dots> = 2 ^ i" unfolding choose_row_sum by simp
  finally have "(\<Sum>k < j. real (i choose k)) / 2 ^ i \<le> 1" by simp
  moreover have "0 \<le> (\<Sum>k < j. real (i choose k)) / 2 ^ i" by (simp add: sum_nonneg)
  ultimately show ?thesis using assms by (simp add: confidence_entry_eq)
qed

text \<open>The window of the uniformity test never outgrows the table.\<close>

definition iu_ok :: "is_uniform_distr \<Rightarrow> bool" where
  "iu_ok u \<longleftrightarrow> (\<exists>len. iu_window_len u = int len \<and> length (iu_window u) \<le> len
     \<and> iu_precomputed u = map (\<lambda>i. map (confidence_entry i) [0..<Suc i]) [0..<Suc len])"

lemma iu_ok_init: "iu_ok (IsUniformDistr len)"
  by (auto simp: iu_ok_def IsUniformDistr_def)

lemma iu_ok_update: "iu_ok u \<Longrightarrow> iu_ok (iu_update d u)"
  by (auto simp: iu_ok_def iu_update_def Let_def)

lemma iu_ok_reset: "iu_ok u \<Longrightarrow> iu_ok (iu_reset u)"
  by (auto simp: iu_ok_def iu_reset_def)

lemma iu_confidence_loop_range:
  assumes "table = map (\<lambda>i. map (confidence_entry i) [0..<Suc i]) [0..<Suc len]"
    and "s + length xs \<le> len" and "g \<le> s" and "0 \<le> best" and "best \<le> 1"
  shows "\<exists>c. iu_confidence_loop table mid xs (int s) (int g) best = Inr c \<and> 0 \<le> c \<and> c \<le> 1"
  using assms(2-5)
proof (induction xs arbitrary: s g best)
  case (Cons x xs)
  define g' where "g' = (if x > mid then Suc g else g)"
  have g': "g' \<le> Suc s" "(if x > mid then int g + 1 else int g) = int g'"
    using Cons.prems(2) by (auto simp: g'_def)
  have row: "aget table (int s + 1) = Inr (map (confidence_entry (Suc s)) [0..<Suc (Suc s)])"
    using aget_nat [of "Suc s" table] Cons.prems(1) by (simp add: assms(1) add.commute del: upt_Suc)
  have entry: "aget (map (confidence_entry (Suc s)) [0..<Suc (Suc s)]) (int g') = Inr (confidence_entry (Suc s) g')"
    using g'(1) by (simp del: upt_Suc)
  have IH: "\<exists>c. iu_confidence_loop table mid xs (int s + 1) (int g') b = Inr c \<and> 0 \<le> c \<and> c \<le> 1"
    if "0 \<le> b" "b \<le> 1" for b
    using Cons.IH [of "Suc s" g' b] Cons.prems(1) g'(1) that by (simp add: add.commute)
  show ?case
    using IH [of best] IH [of "confidence_entry (Suc s) g'"] Cons.prems(3,4)
      confidence_entry_range [OF g'(1)]
    by (simp add: Let_def g'(2) row entry del: upt_Suc)
qed simp

text \<open>
  The uniformity test never reads outside its precomputed table, and its confidence is a
  probability: the entry \<open>precomputed[i][j]\<close> is the probability of fewer than \<open>j\<close> successes in \<open>i\<close>
  fair trials.
\<close>

theorem iu_get_confidence_probability:
  assumes "iu_ok u"
  shows "\<exists>c. iu_get_confidence rtt_window u = Inr c \<and> 0 \<le> c \<and> c \<le> 1"
proof -
  obtain len where "length (iu_window u) \<le> len"
    "iu_precomputed u = map (\<lambda>i. map (confidence_entry i) [0..<Suc i]) [0..<Suc len]"
    using assms by (auto simp: iu_ok_def)
  then show ?thesis
    using iu_confidence_loop_range [of "iu_precomputed u" len 0 "rev (iu_window u)" 0 0]
    by (simp add: iu_get_confidence_def Let_def)
qed

theorem iu_get_confidence_probability_witness:
  "\<exists>c. iu_get_confidence (TimeWindow 1) (iu_update 2 (IsUniformDistr 32)) = Inr c \<and> 0 \<le> c \<and> c \<le> 1"
  by (rule iu_get_confidence_probability [OF iu_ok_update [OF iu_ok_init]])

text \<open>
  An update of the time-weighted average with a value at a time not before the last one never
  fails, and the new average lies between the old one and the value: the guard against rounding
  errors never discards an update in exact arithmetic.
\<close>

theorem te_update_between:
  assumes "0 \<le> te_alpha e" and "0 < te_denominator e" and "te_last_update_timestamp e \<le> t"
  shows "\<exists>e'. te_update v t e = Inr e' \<and> te_last_update_timestamp e' = t
    \<and> min v (te_ewma e) \<le> te_ewma e' \<and> te_ewma e' \<le> max v (te_ewma e) \<and> 1 \<le> te_denominator e'"
proof -
  define f where "f = c_pow (te_alpha e) (t - te_last_update_timestamp e)"
  define d where "d = (if te_denominator e > 0.01 * DBL_MAX then 1 else te_denominator e)"
  define a where "a = te_ewma e"
  define n where "n = (v + f * a * d) / (1 + f * d)"
  have pos: "0 \<le> f" "0 < d" using assms by (auto simp: f_def d_def c_pow_def)
  then have D: "0 < 1 + f * d" by (simp add: add_pos_nonneg)
  have n: "n * (1 + f * d) = v + f * a * d" using D by (simp add: n_def)
  have fd: "0 \<le> f * d" using pos by simp
  have low: "v < a \<longrightarrow> n < a" and high: "v \<ge> a \<longrightarrow> n \<ge> a"
    using D by (simp_all add: n_def divide_less_eq le_divide_eq algebra_simps)
  have "v < a \<longrightarrow> v \<le> n"
  proof
    assume "v < a"
    then have "v * (f * d) \<le> a * (f * d)" using fd by (intro mult_right_mono) auto
    then show "v \<le> n" using D by (simp add: n_def le_divide_eq algebra_simps)
  qed
  moreover have "v \<ge> a \<longrightarrow> n \<le> v"
  proof
    assume "v \<ge> a"
    then have "a * (f * d) \<le> v * (f * d)" using fd by (intro mult_right_mono) auto
    then show "n \<le> v" using D by (simp add: n_def divide_le_eq algebra_simps)
  qed
  moreover have "te_update v t e = Inr (e\<lparr>te_denominator := d, te_ewma := n,
      te_denominator := 1 + f * d, te_last_update_timestamp := t\<rparr>)"
    unfolding te_update_def Let_def f_def [symmetric] d_def [symmetric] a_def [symmetric] n_def [symmetric]
    using assms low high by auto
  ultimately show ?thesis using low high fd by (auto simp: a_def)
qed

theorem te_update_between_witness:
  "\<exists>e'. te_update 4 2 \<lparr>te_ewma = 2, te_denominator = 1, te_alpha = 1 / 2, te_last_update_timestamp = 1\<rparr> = Inr e'
    \<and> 2 \<le> te_ewma e' \<and> te_ewma e' \<le> 4"
  using te_update_between [of "\<lparr>te_ewma = 2, te_denominator = 1, te_alpha = 1 / 2, te_last_update_timestamp = 1\<rparr>" 2 4]
  by auto


section \<open>The older update\<close>

text \<open>
  \<open>TimeEwma::update\<close> of \<open>src/utilities.cc\<close>, the older copy of these classes, asserts what the newer
  one checks. The other classes of that file are textually those above.
\<close>

definition asserting_update :: "real \<Rightarrow> real \<Rightarrow> time_ewma \<Rightarrow> time_ewma res" where
  "asserting_update val timestamp e =
     bindE (guardE (timestamp \<ge> te_last_update_timestamp e) AssertFailed) (\<lambda>_.
     if te_denominator e = 0 then
       Inr (e\<lparr>te_ewma := val, te_denominator := 1, te_last_update_timestamp := timestamp\<rparr>)
     else
       let denom = (if te_denominator e > 0.01 * DBL_MAX then 1 else te_denominator e);
           ewma_factor = c_pow (te_alpha e) (timestamp - te_last_update_timestamp e);
           new_denom = 1 + ewma_factor * denom;
           new_ewma = (val + ewma_factor * te_ewma e * denom) / new_denom
       in bindE (guardE (val < te_ewma e \<and> new_ewma < te_ewma e \<or> val \<ge> te_ewma e \<and> new_ewma \<ge> te_ewma e) AssertFailed)
            (\<lambda>_. Inr (e\<lparr>te_ewma := new_ewma, te_denominator := new_denom,
                        te_last_update_timestamp := timestamp\<rparr>)))"

text \<open>
  In exact arithmetic the assertion of the old update never fails and the early return of the new one
  is never taken, so on a time that does not go back the two updates agree.
\<close>

theorem asserting_update_agrees:
  assumes "0 \<le> te_denominator e" and "te_last_update_timestamp e \<le> t"
  shows "asserting_update v t e = te_update v t e \<and> (\<exists>e'. te_update v t e = Inr e')"
proof (cases "te_denominator e = 0")
  case True
  with assms show ?thesis by (simp add: asserting_update_def te_update_def)
next
  case False
  define f where "f = c_pow (te_alpha e) (t - te_last_update_timestamp e)"
  define d where "d = (if te_denominator e > 0.01 * DBL_MAX then 1 else te_denominator e)"
  define n where "n = (v + f * te_ewma e * d) / (1 + f * d)"
  have pos: "0 \<le> f" "0 < d" using assms False by (auto simp: f_def d_def c_pow_def)
  then have D: "0 < 1 + f * d" by (simp add: add_pos_nonneg)
  have fine: "v < te_ewma e \<and> n < te_ewma e \<or> v \<ge> te_ewma e \<and> n \<ge> te_ewma e"
    using D by (auto simp: n_def divide_less_eq le_divide_eq algebra_simps)
  show ?thesis
    unfolding asserting_update_def te_update_def Let_def f_def [symmetric] d_def [symmetric] n_def [symmetric]
    using assms False fine by auto
qed

theorem asserting_update_agrees_witness:
  "asserting_update 3 2 \<lparr>te_ewma = 1, te_denominator = 1, te_alpha = 1 / 2, te_last_update_timestamp = 1\<rparr>
   = te_update 3 2 \<lparr>te_ewma = 1, te_denominator = 1, te_alpha = 1 / 2, te_last_update_timestamp = 1\<rparr>"
  using asserting_update_agrees [of "\<lparr>te_ewma = 1, te_denominator = 1, te_alpha = 1 / 2,
    te_last_update_timestamp = 1\<rparr>" 2 3] by simp

end
