(* ===== verification/Markovian_CC.thy ===== *)
theory Markovian_CC
  imports Estimators
begin

text \<open>
  Model of \<open>src/ccc.hh\<close> (the fields of the base class), \<open>src/markoviancc.hh\<close> and
  \<open>src/markoviancc.cc\<close>: the Copa congestion controller. Its state is one record; every callback is a
  function of the state, failing with \<open>AssertFailed\<close> where the code asserts. Times are milliseconds.

  The ordered map of unacknowledged packets is a list of pairs sorted by sequence number. What is
  written to the console and into \<open>data/rtt_interval_update.txt\<close> is left out, but not that this file
  has to be opened: \<open>fopen\<close> gives a null pointer when there is no directory \<open>data\<close>, and \<open>fprintf\<close> and
  \<open>fclose\<close> use it unchecked. The argument \<open>dir\<close> of the operations that write the file says whether it can
  be opened. The random generator is left out too:
  \<open>randomize_intersend\<close> returns its argument. Quotients are those of the reals; where the code may
  divide by zero (the average sending rate of a packet sent at the time of the last update) the
  quotient is only stored.
\<close>


section \<open>State\<close>

datatype utility_mode_t = CONSTANT_DELTA | PFABRIC_FCT | DEL_FCT | BOUNDED_DELAY | BOUNDED_DELAY_END
  | MAX_THROUGHPUT | BOUNDED_QDELAY_END | BOUNDED_FDELAY_END | TCP_COOP | CONST_BEHAVIOR | AUTO_MODE

datatype operation_mode_t = DEFAULT_MODE | LOSS_SENSITIVE_MODE | TCP_MODE

record packet_data =
  pd_sent_time :: real
  pd_intersend_time :: real
  pd_intersend_time_vel :: real
  pd_rtt :: real
  pd_prev_avg_sending_rate :: real

record markovian =
  the_window :: real
  intersend_time :: real
  timeout_ms :: real
  delta :: real
  unacknowledged_packets :: "(int \<times> packet_data) list"
  min_rtt :: real
  external_min_rtt :: real
  rtt_unacked :: plain_ewma
  rtt_window :: rtt_window
  prev_intersend_time :: real
  cur_intersend_time :: real
  interarrival :: percentile_t
  is_uniform :: is_uniform_distr
  last_update_time :: real
  update_dir :: int
  prev_update_dir :: int
  pkts_per_rtt :: int
  update_amt :: real
  intersend_time_vel :: real
  prev_intersend_time_vel :: real
  prev_rtt :: real
  prev_rtt_update_time :: real
  prev_avg_sending_rate :: real
  num_pkts_lost :: int
  num_pkts_acked :: int
  num_pkts_sent :: int
  utility_mode :: utility_mode_t
  operation_mode :: operation_mode_t
  do_slow_start :: bool
  keep_ext_min_rtt :: bool
  default_delta :: real
  flow_length :: int
  delay_bound :: real
  prev_delta_update_time :: real
  prev_delta_update_time_loss :: real
  max_queuing_delay_estimate :: real
  loss_rate :: loss_rate_estimate
  reduce_on_loss :: reduce_on_loss
  loss_in_last_rtt :: bool
  behavior :: real
  interarrival_ewma :: plain_ewma
  prev_ack_time :: real
  exp_increment :: real
  prev_delta :: plain_ewma
  slow_start :: bool
  slow_start_threshold :: real
  flow_id :: int
  cur_tick :: real

abbreviation num_probe_pkts :: int where "num_probe_pkts \<equiv> 10"

text \<open>The constructor; \<open>fid\<close> is the new value of the static \<open>flow_id_counter\<close>.\<close>

definition MarkovianCC :: "real \<Rightarrow> int \<Rightarrow> markovian" where
  "MarkovianCC d fid =
     \<lparr>the_window = 2, intersend_time = 0, timeout_ms = 1000, delta = d, unacknowledged_packets = [],
      min_rtt = 0, external_min_rtt = 0, rtt_unacked = PlainEwma 1, rtt_window = RTTWindow,
      prev_intersend_time = 0, cur_intersend_time = 0,
      interarrival = \<lparr>pc_percentile = 0.05, pc_window = []\<rparr>, is_uniform = IsUniformDistr 32,
      last_update_time = 0, update_dir = 0, prev_update_dir = 0, pkts_per_rtt = 0, update_amt = 0,
      intersend_time_vel = 0, prev_intersend_time_vel = 0, prev_rtt = 0, prev_rtt_update_time = 0,
      prev_avg_sending_rate = 0, num_pkts_lost = 0, num_pkts_acked = 0, num_pkts_sent = 0,
      utility_mode = CONSTANT_DELTA, operation_mode = DEFAULT_MODE, do_slow_start = False,
      keep_ext_min_rtt = False, default_delta = 0.5, flow_length = 0, delay_bound = 0,
      prev_delta_update_time = 0, prev_delta_update_time_loss = 0, max_queuing_delay_estimate = 0,
      loss_rate = LossRateEstimate, reduce_on_loss = ReduceOnLoss, loss_in_last_rtt = False,
      behavior = 0, interarrival_ewma = PlainEwma (1 / 32), prev_ack_time = 0, exp_increment = 0,
      prev_delta = PlainEwma 1, slow_start = False, slow_start_threshold = 0, flow_id = fid,
      cur_tick = 0\<rparr>"

definition init_state :: "markovian \<Rightarrow> markovian" where
  "init_state s = s\<lparr>
     the_window := of_int num_probe_pkts,
     intersend_time := (if external_min_rtt s \<noteq> 0 then external_min_rtt s / of_int num_probe_pkts else 0),
     min_rtt := (if keep_ext_min_rtt s then external_min_rtt s else DBL_MAX),
     timeout_ms := 1000,
     delta := (if utility_mode s \<noteq> CONSTANT_DELTA then 1 else delta s),
     unacknowledged_packets := [],
     rtt_unacked := pe_reset (rtt_unacked s),
     rtt_window := rtt_window_clear (rtt_window s),
     prev_intersend_time := 0,
     cur_intersend_time := 0,
     interarrival := pc_reset (interarrival s),
     is_uniform := iu_reset (is_uniform s),
     last_update_time := 0, update_dir := 1, prev_update_dir := 1, pkts_per_rtt := 0, update_amt := 1,
     intersend_time_vel := 0, prev_intersend_time_vel := 0, prev_rtt := 0, prev_rtt_update_time := 0,
     prev_avg_sending_rate := 0,
     num_pkts_acked := 0, num_pkts_lost := 0, num_pkts_sent := 0,
     operation_mode := DEFAULT_MODE, flow_length := 0,
     prev_delta_update_time := 0, prev_delta_update_time_loss := 0, max_queuing_delay_estimate := 0,
     loss_rate := lr_reset (loss_rate s), reduce_on_loss := rl_reset (reduce_on_loss s),
     loss_in_last_rtt := False,
     interarrival_ewma := pe_reset (interarrival_ewma s), prev_ack_time := 0, exp_increment := 1,
     prev_delta := pe_reset (prev_delta s), slow_start := True, slow_start_threshold := 10 ^ 10\<rparr>"

text \<open>
  \<open>init\<close> opens the log file for writing and closes it: without the directory the null pointer is closed.
\<close>

definition init :: "bool \<Rightarrow> markovian \<Rightarrow> markovian res" where
  "init dir s = bindE (guardE dir NullDeref) (\<lambda>_. Inr (init_state s))"


section \<open>The adaptation of delta\<close>

text \<open>The three parts of \<open>update_delta\<close>: the choice of the mode, and the two modes.\<close>

definition choose_mode :: "bool \<Rightarrow> markovian \<Rightarrow> markovian" where
  "choose_mode pkt_lost s =
     (if utility_mode s = AUTO_MODE then
        s\<lparr>is_uniform := (if pkt_lost then iu_update (get_unjittered_rtt (rtt_window s)) (is_uniform s)
                        else is_uniform s),
          operation_mode := (if \<not> is_copa (rtt_window s) then LOSS_SENSITIVE_MODE else DEFAULT_MODE)\<rparr>
      else s)"

definition default_mode_delta :: "real \<Rightarrow> markovian \<Rightarrow> markovian" where
  "default_mode_delta cur_rtt s =
     (if prev_delta_update_time s = 0 \<or> prev_delta_update_time_loss s + cur_rtt < cur_tick s then
        (let d1 = (if delta s < default_delta s then default_delta s else delta s)
         in s\<lparr>delta := min d1 (default_delta s), prev_delta_update_time := cur_tick s\<rparr>)
      else s)"

definition loss_mode_delta :: "bool \<Rightarrow> real \<Rightarrow> markovian \<Rightarrow> markovian" where
  "loss_mode_delta pkt_lost cur_rtt s =
     (let d0 = (if prev_delta_update_time s = 0 then default_delta s else delta s)
      in if pkt_lost \<and> prev_delta_update_time_loss s + cur_rtt < cur_tick s then
           s\<lparr>delta := min (d0 * 2) (default_delta s), prev_delta_update_time_loss := cur_tick s\<rparr>
         else if prev_delta_update_time s + cur_rtt < cur_tick s then
           s\<lparr>delta := min (1 / (1 / d0 + 1)) (default_delta s), prev_delta_update_time := cur_tick s\<rparr>
         else s\<lparr>delta := min d0 (default_delta s)\<rparr>)"

definition update_delta :: "bool \<Rightarrow> real \<Rightarrow> markovian \<Rightarrow> markovian" where
  "update_delta pkt_lost cur_rtt s0 =
     (let s = choose_mode pkt_lost s0
      in if operation_mode s = DEFAULT_MODE \<and> utility_mode s \<noteq> TCP_COOP then default_mode_delta cur_rtt s
         else if utility_mode s = TCP_COOP \<or> operation_mode s = LOSS_SENSITIVE_MODE
           then loss_mode_delta pkt_lost cur_rtt s
         else s)"

definition randomize_intersend :: "real \<Rightarrow> real" where
  "randomize_intersend intersend = intersend"


section \<open>The window\<close>

text \<open>The branch of \<open>update_intersend_time\<close> that moves the window towards its target.\<close>

definition update_velocity :: "markovian \<Rightarrow> markovian" where
  "update_velocity s =
     (let cur_time = cur_tick s;
          s1 = (if last_update_time s + get_latest_rtt (rtt_window s) < cur_time then
                  (let s' = (if prev_update_dir s * update_dir s > 0 then
                          (if update_amt s < 0.006 then s\<lparr>update_amt := update_amt s + 0.005\<rparr>
                           else s\<lparr>update_amt := of_int (trunc_real (update_amt s) * 2)\<rparr>)
                        else s\<lparr>update_amt := 1, prev_update_dir := prev_update_dir s * (- 1)\<rparr>)
                   in s'\<lparr>last_update_time := cur_time, pkts_per_rtt := 0, update_dir := 0\<rparr>)
                else s);
          s2 = (if update_amt s1 > the_window s1 * delta s1 then s1\<lparr>update_amt := update_amt s1 / 2\<rparr> else s1)
      in s2\<lparr>update_amt := max (update_amt s2) 1, pkts_per_rtt := pkts_per_rtt s2 + 1\<rparr>)"

definition move_window :: "real \<Rightarrow> markovian \<Rightarrow> markovian" where
  "move_window target_window s =
     (if the_window s < target_window then
        s\<lparr>update_dir := update_dir s + 1,
          the_window := the_window s + update_amt s / (delta s * the_window s)\<rparr>
      else
        s\<lparr>update_dir := update_dir s - 1,
          the_window := the_window s - update_amt s / (delta s * the_window s)\<rparr>)"

definition target_window_of :: "markovian \<Rightarrow> real" where
  "target_window_of s =
     (let rtt = get_unjittered_rtt (rtt_window s); queuing_delay = rtt - min_rtt s
      in if queuing_delay = 0 then DBL_MAX else rtt / (queuing_delay * delta s))"

definition next_window :: "markovian \<Rightarrow> markovian" where
  "next_window s =
     (if slow_start s then
        (let s1 = s\<lparr>the_window := the_window s + 1\<rparr>
         in if the_window s1 \<ge> target_window_of s then s1\<lparr>slow_start := False\<rparr> else s1)
      else move_window (target_window_of s) (update_velocity s))"

text \<open>The last step appends a line to the log file.\<close>

definition update_intersend_time :: "bool \<Rightarrow> markovian \<Rightarrow> markovian res" where
  "update_intersend_time dir s =
     (if num_pkts_acked s < 2 * num_probe_pkts - 1 then Inr s
      else if slow_start s \<and> \<not> (do_slow_start s \<or> target_window_of s = DBL_MAX) then Inl AssertFailed
      else
        let s1 = next_window s;
            w = max 2 (the_window s1);
            it = 0.5 * get_unjittered_rtt (rtt_window s) / w
        in bindE (guardE dir NullDeref) (\<lambda>_.
           Inr (s1\<lparr>the_window := w, cur_intersend_time := it, intersend_time := randomize_intersend it\<rparr>)))"


section \<open>Callbacks\<close>

text \<open>
  The loop of \<open>onACK\<close> over the packets up to \<open>seq_num\<close>: (state, packet lost, reduce, sequence number
  seen last, remaining packets).
\<close>

fun ack_loop ::
  "int \<Rightarrow> (int \<times> packet_data) list \<Rightarrow> int \<Rightarrow> bool \<Rightarrow> bool \<Rightarrow> markovian \<Rightarrow> (markovian \<times> bool \<times> bool) res" where
  "ack_loop seq_num [] tmp_seq_num pkt_lost reduce s =
     Inr (s\<lparr>unacknowledged_packets := []\<rparr>, pkt_lost, reduce)"
| "ack_loop seq_num ((k, x) # xs) tmp_seq_num pkt_lost reduce s =
     bindE (guardE (tmp_seq_num \<le> k) AssertFailed) (\<lambda>_.
     if k > seq_num then Inr (s\<lparr>unacknowledged_packets := (k, x) # xs\<rparr>, pkt_lost, reduce)
     else
       let s1 = s\<lparr>prev_intersend_time := pd_intersend_time x, prev_intersend_time_vel := pd_intersend_time_vel x,
                  prev_rtt := pd_rtt x, prev_rtt_update_time := pd_sent_time x,
                  prev_avg_sending_rate := pd_prev_avg_sending_rate x\<rparr>
       in if k < seq_num then
            (case rl_update True (cur_tick s1) (get_latest_rtt (rtt_window s1)) (reduce_on_loss s1) of (b, rl) \<Rightarrow>
               ack_loop seq_num xs k True (reduce \<or> b)
                 (s1\<lparr>num_pkts_lost := num_pkts_lost s1 + 1, reduce_on_loss := rl\<rparr>))
          else ack_loop seq_num xs k pkt_lost reduce s1)"

definition reduce_window :: "markovian \<Rightarrow> markovian" where
  "reduce_window s =
     (let w = max 2 (the_window s * 0.7);
          it = 0.5 * get_unjittered_rtt (rtt_window s) / w
      in s\<lparr>the_window := w, cur_intersend_time := it, intersend_time := randomize_intersend it\<rparr>)"

text \<open>The part of \<open>onACK\<close> that takes the RTT sample, and the one that removes the packets.\<close>

definition ack_sample :: "bool \<Rightarrow> real \<Rightarrow> markovian \<Rightarrow> markovian res" where
  "ack_sample dir curr_rtt s =
     (let cur_time = cur_tick s;
          w = new_rtt_sample curr_rtt cur_time (rtt_window s);
          s1 = s\<lparr>rtt_window := w, min_rtt := get_min_rtt w\<rparr>
      in bindE (guardE (get_unjittered_rtt w \<ge> min_rtt s1) AssertFailed) (\<lambda>_.
         let s2 = (if prev_ack_time s1 \<noteq> 0 then
                 s1\<lparr>interarrival_ewma := pe_update (cur_time - prev_ack_time s1) (interarrival_ewma s1),
                    interarrival := pc_push (cur_time - prev_ack_time s1) (interarrival s1)\<rparr> else s1)
         in update_intersend_time dir (update_delta False curr_rtt (s2\<lparr>prev_ack_time := cur_time\<rparr>))))"

definition ack_packets :: "int \<Rightarrow> markovian \<Rightarrow> markovian res" where
  "ack_packets seq_num s =
     bindE (if seq_num \<in> set (map fst (unacknowledged_packets s))
            then ack_loop seq_num (unacknowledged_packets s) (- 1) False False s
            else Inr (s, False, False)) (\<lambda>(s1, pkt_lost, reduce).
     let s2 = (if pkt_lost then update_delta True 0 s1 else s1)
     in case rl_update False (cur_tick s2) (get_latest_rtt (rtt_window s2)) (reduce_on_loss s2) of (b, rl) \<Rightarrow>
          let s3 = s2\<lparr>reduce_on_loss := rl\<rparr>;
              s4 = (if reduce \<or> b then reduce_window s3 else s3)
          in Inr (s4\<lparr>num_pkts_acked := num_pkts_acked s4 + 1\<rparr>))"

definition onACK :: "bool \<Rightarrow> int \<Rightarrow> real \<Rightarrow> real \<Rightarrow> int \<Rightarrow> markovian \<Rightarrow> markovian res" where
  "onACK dir ack receiver_timestamp sent_time adjust_us s =
     (let seq_num = ack - 1; cur_time = cur_tick s
      in bindE (guardE (cur_time > sent_time) AssertFailed) (\<lambda>_.
         let curr_rtt = cur_time - sent_time - of_int adjust_us / 1000
         in bindE (ack_sample dir curr_rtt s) (ack_packets seq_num)))"

text \<open>\<open>unacknowledged_packets[k] = x\<close> on the ordered map.\<close>

fun map_set :: "int \<Rightarrow> 'a \<Rightarrow> (int \<times> 'a) list \<Rightarrow> (int \<times> 'a) list" where
  "map_set k x [] = [(k, x)]"
| "map_set k x ((j, y) # ys) =
     (if k < j then (k, x) # (j, y) # ys else if k = j then (k, x) # ys else (j, y) # map_set k x ys)"

fun unacked_loop :: "(int \<times> packet_data) list \<Rightarrow> markovian \<Rightarrow> markovian" where
  "unacked_loop [] s = s"
| "unacked_loop ((k, x) # xs) s =
     (if cur_tick s - pd_sent_time x > pe_ewma (rtt_unacked s) then
        unacked_loop xs (s\<lparr>rtt_unacked := pe_update (cur_tick s - pd_sent_time x) (rtt_unacked s),
          prev_intersend_time := pd_intersend_time x, prev_intersend_time_vel := pd_intersend_time_vel x\<rparr>)
      else s)"

definition onPktSent :: "int \<Rightarrow> markovian \<Rightarrow> markovian" where
  "onPktSent seq_num s =
     (let cur_time = cur_tick s; rtt = get_unjittered_rtt (rtt_window s);
          x = \<lparr>pd_sent_time = cur_time, pd_intersend_time = cur_intersend_time s,
               pd_intersend_time_vel = intersend_time_vel s, pd_rtt = rtt,
               pd_prev_avg_sending_rate =
                 real (length (unacknowledged_packets s)) / (cur_time - prev_rtt_update_time s)\<rparr>;
          s1 = s\<lparr>unacknowledged_packets := map_set seq_num x (unacknowledged_packets s),
                 rtt_unacked := pe_force_set rtt (rtt_unacked s)\<rparr>;
          s2 = unacked_loop (unacknowledged_packets s1) s1
      in s2\<lparr>num_pkts_sent := num_pkts_sent s2 + 1,
            intersend_time := randomize_intersend (cur_intersend_time s2)\<rparr>)"

definition onTimeout :: "markovian \<Rightarrow> markovian" where
  "onTimeout s = s"

definition onDupACK :: "markovian \<Rightarrow> markovian" where
  "onDupACK s = s"

definition onTinyPktSent :: "markovian \<Rightarrow> markovian" where
  "onTinyPktSent s = s\<lparr>num_pkts_acked := num_pkts_acked s + 1\<rparr>"

definition set_timestamp :: "real \<Rightarrow> markovian \<Rightarrow> markovian" where
  "set_timestamp t s = s\<lparr>cur_tick := t\<rparr>"

definition set_flow_length :: "int \<Rightarrow> markovian \<Rightarrow> markovian" where
  "set_flow_length n s = s\<lparr>flow_length := n\<rparr>"

definition set_min_rtt :: "bool \<Rightarrow> real \<Rightarrow> markovian \<Rightarrow> markovian res" where
  "set_min_rtt dir x s =
     init dir (s\<lparr>external_min_rtt := (if external_min_rtt s = 0 then x else min (external_min_rtt s) x)\<rparr>)"

definition set_delta_from_router :: "real \<Rightarrow> markovian \<Rightarrow> markovian" where
  "set_delta_from_router x s = (if utility_mode s = BOUNDED_DELAY then s\<lparr>delta := x\<rparr> else s)"


section \<open>Invariant\<close>

definition copa_ok :: "markovian \<Rightarrow> bool" where
  "copa_ok s \<longleftrightarrow> rtt_window_ok (rtt_window s) (cur_tick s) \<and> 0 < delta s \<and> 0 < default_delta s
     \<and> 2 \<le> the_window s \<and> sorted_wrt (<) (map fst (unacknowledged_packets s))
     \<and> (\<forall>k \<in> set (map fst (unacknowledged_packets s)). 0 \<le> k)"

lemma rtt_window_ok_mono:
  assumes "rtt_window_ok w t" and "t \<le> t'" shows "rtt_window_ok w t'"
proof -
  obtain Wm Wu where W: "ew_find_min (min_rtt_w w) \<and> ew_find_min (unjittered_rtt_w w)
     \<and> tracks (min_rtt_w w) Wm \<and> tracks (unjittered_rtt_w w) Wu \<and> set Wu \<subseteq> set Wm
     \<and> (\<forall>x \<in> set Wm. fst x \<le> t \<and> snd x \<le> DBL_MAX)
     \<and> (Wu = [] \<longrightarrow> Wm = []) \<and> (Wu \<noteq> [] \<longrightarrow> snd (last Wu) = latest_rtt w)"
    using assms(1) unfolding rtt_window_ok_def by blast
  moreover have "\<forall>x \<in> set Wm. fst x \<le> t' \<and> snd x \<le> DBL_MAX"
    using W assms(2) by (meson order_trans)
  ultimately show ?thesis unfolding rtt_window_ok_def by blast
qed

lemma copa_ok_set_timestamp: "copa_ok s \<Longrightarrow> cur_tick s \<le> t \<Longrightarrow> copa_ok (set_timestamp t s)"
  by (auto simp: copa_ok_def set_timestamp_def intro: rtt_window_ok_mono)

lemma copa_ok_init:
  "rtt_window_ok (rtt_window s) t \<Longrightarrow> 0 < delta s \<Longrightarrow> 0 < default_delta s \<Longrightarrow> copa_ok (init_state s)"
  by (auto simp: copa_ok_def init_state_def intro: rtt_window_ok_clear)

lemma copa_ok_MarkovianCC: "0 < d \<Longrightarrow> copa_ok (MarkovianCC d fid)"
  by (simp add: copa_ok_def MarkovianCC_def rtt_window_ok_init)

lemma choose_mode_frame [simp]:
  "rtt_window (choose_mode b s) = rtt_window s"
  "cur_tick (choose_mode b s) = cur_tick s"
  "default_delta (choose_mode b s) = default_delta s"
  "the_window (choose_mode b s) = the_window s"
  "unacknowledged_packets (choose_mode b s) = unacknowledged_packets s"
  "num_pkts_acked (choose_mode b s) = num_pkts_acked s"
  "num_pkts_lost (choose_mode b s) = num_pkts_lost s"
  "slow_start (choose_mode b s) = slow_start s"
  "do_slow_start (choose_mode b s) = do_slow_start s"
  "min_rtt (choose_mode b s) = min_rtt s"
  "reduce_on_loss (choose_mode b s) = reduce_on_loss s"
  "intersend_time (choose_mode b s) = intersend_time s"
  "cur_intersend_time (choose_mode b s) = cur_intersend_time s"
  "utility_mode (choose_mode b s) = utility_mode s"
  "delta (choose_mode b s) = delta s"
  by (simp_all add: choose_mode_def)

lemma default_mode_delta_frame [simp]:
  "rtt_window (default_mode_delta r s) = rtt_window s"
  "cur_tick (default_mode_delta r s) = cur_tick s"
  "default_delta (default_mode_delta r s) = default_delta s"
  "the_window (default_mode_delta r s) = the_window s"
  "unacknowledged_packets (default_mode_delta r s) = unacknowledged_packets s"
  "num_pkts_acked (default_mode_delta r s) = num_pkts_acked s"
  "num_pkts_lost (default_mode_delta r s) = num_pkts_lost s"
  "slow_start (default_mode_delta r s) = slow_start s"
  "do_slow_start (default_mode_delta r s) = do_slow_start s"
  "min_rtt (default_mode_delta r s) = min_rtt s"
  "reduce_on_loss (default_mode_delta r s) = reduce_on_loss s"
  "intersend_time (default_mode_delta r s) = intersend_time s"
  "cur_intersend_time (default_mode_delta r s) = cur_intersend_time s"
  "utility_mode (default_mode_delta r s) = utility_mode s"
  by (simp_all add: default_mode_delta_def Let_def)

lemma loss_mode_delta_frame [simp]:
  "rtt_window (loss_mode_delta b r s) = rtt_window s"
  "cur_tick (loss_mode_delta b r s) = cur_tick s"
  "default_delta (loss_mode_delta b r s) = default_delta s"
  "the_window (loss_mode_delta b r s) = the_window s"
  "unacknowledged_packets (loss_mode_delta b r s) = unacknowledged_packets s"
  "num_pkts_acked (loss_mode_delta b r s) = num_pkts_acked s"
  "num_pkts_lost (loss_mode_delta b r s) = num_pkts_lost s"
  "slow_start (loss_mode_delta b r s) = slow_start s"
  "do_slow_start (loss_mode_delta b r s) = do_slow_start s"
  "min_rtt (loss_mode_delta b r s) = min_rtt s"
  "reduce_on_loss (loss_mode_delta b r s) = reduce_on_loss s"
  "intersend_time (loss_mode_delta b r s) = intersend_time s"
  "cur_intersend_time (loss_mode_delta b r s) = cur_intersend_time s"
  "utility_mode (loss_mode_delta b r s) = utility_mode s"
  by (simp_all add: loss_mode_delta_def Let_def)

lemma update_delta_frame [simp]:
  "rtt_window (update_delta b r s) = rtt_window s"
  "cur_tick (update_delta b r s) = cur_tick s"
  "default_delta (update_delta b r s) = default_delta s"
  "the_window (update_delta b r s) = the_window s"
  "unacknowledged_packets (update_delta b r s) = unacknowledged_packets s"
  "num_pkts_acked (update_delta b r s) = num_pkts_acked s"
  "num_pkts_lost (update_delta b r s) = num_pkts_lost s"
  "slow_start (update_delta b r s) = slow_start s"
  "do_slow_start (update_delta b r s) = do_slow_start s"
  "min_rtt (update_delta b r s) = min_rtt s"
  "reduce_on_loss (update_delta b r s) = reduce_on_loss s"
  "intersend_time (update_delta b r s) = intersend_time s"
  "cur_intersend_time (update_delta b r s) = cur_intersend_time s"
  "utility_mode (update_delta b r s) = utility_mode s"
  by (simp_all add: update_delta_def Let_def)

lemma update_delta_pos:
  assumes "0 < delta s" and "0 < default_delta s" shows "0 < delta (update_delta b r s)"
proof -
  have "0 < delta (default_mode_delta r t)" "0 < delta (loss_mode_delta b r t)"
    if "0 < delta t" "0 < default_delta t" for t
    using that by (auto simp: default_mode_delta_def loss_mode_delta_def Let_def add_pos_pos)
  then show ?thesis using assms by (simp add: update_delta_def Let_def)
qed

lemma copa_ok_update_delta: "copa_ok s \<Longrightarrow> copa_ok (update_delta b r s)"
  by (simp add: copa_ok_def update_delta_pos)


lemma update_velocity_frame [simp]:
  "rtt_window (update_velocity s) = rtt_window s"
  "cur_tick (update_velocity s) = cur_tick s"
  "default_delta (update_velocity s) = default_delta s"
  "delta (update_velocity s) = delta s"
  "unacknowledged_packets (update_velocity s) = unacknowledged_packets s"
  "num_pkts_acked (update_velocity s) = num_pkts_acked s"
  "num_pkts_lost (update_velocity s) = num_pkts_lost s"
  "do_slow_start (update_velocity s) = do_slow_start s"
  "min_rtt (update_velocity s) = min_rtt s"
  "reduce_on_loss (update_velocity s) = reduce_on_loss s"
  "slow_start (update_velocity s) = slow_start s"
  "the_window (update_velocity s) = the_window s"
  by (simp_all add: update_velocity_def Let_def)

lemma move_window_frame [simp]:
  "rtt_window (move_window t s) = rtt_window s"
  "cur_tick (move_window t s) = cur_tick s"
  "default_delta (move_window t s) = default_delta s"
  "delta (move_window t s) = delta s"
  "unacknowledged_packets (move_window t s) = unacknowledged_packets s"
  "num_pkts_acked (move_window t s) = num_pkts_acked s"
  "num_pkts_lost (move_window t s) = num_pkts_lost s"
  "do_slow_start (move_window t s) = do_slow_start s"
  "min_rtt (move_window t s) = min_rtt s"
  "reduce_on_loss (move_window t s) = reduce_on_loss s"
  "slow_start (move_window t s) = slow_start s"
  by (simp_all add: move_window_def)

lemma update_amt_ge_1: "1 \<le> update_amt (update_velocity s)"
  by (simp add: update_velocity_def Let_def)

lemma next_window_frame [simp]:
  "rtt_window (next_window s) = rtt_window s"
  "cur_tick (next_window s) = cur_tick s"
  "default_delta (next_window s) = default_delta s"
  "delta (next_window s) = delta s"
  "unacknowledged_packets (next_window s) = unacknowledged_packets s"
  "num_pkts_acked (next_window s) = num_pkts_acked s"
  "num_pkts_lost (next_window s) = num_pkts_lost s"
  "do_slow_start (next_window s) = do_slow_start s"
  "min_rtt (next_window s) = min_rtt s"
  "reduce_on_loss (next_window s) = reduce_on_loss s"
  by (simp_all add: next_window_def Let_def)

lemma next_window_slow_start: "slow_start (next_window s) \<Longrightarrow> slow_start s"
  by (simp add: next_window_def split: if_splits)

lemma update_intersend_time_ok:
  assumes "copa_ok s" and "do_slow_start s \<or> \<not> slow_start s"
  shows "\<exists>s'. update_intersend_time True s = Inr s' \<and> copa_ok s' \<and> (do_slow_start s' \<or> \<not> slow_start s')
    \<and> cur_tick s' = cur_tick s \<and> unacknowledged_packets s' = unacknowledged_packets s
    \<and> num_pkts_acked s' = num_pkts_acked s \<and> num_pkts_lost s' = num_pkts_lost s
    \<and> rtt_window s' = rtt_window s \<and> do_slow_start s' = do_slow_start s \<and> (slow_start s' \<longrightarrow> slow_start s)
    \<and> (19 \<le> num_pkts_acked s \<longrightarrow>
        intersend_time s' * the_window s' = 0.5 * get_unjittered_rtt (rtt_window s'))"
proof (cases "19 \<le> num_pkts_acked s")
  case True
  define w where "w = max 2 (the_window (next_window s))"
  define it where "it = 0.5 * get_unjittered_rtt (rtt_window s) / w"
  let ?s' = "(next_window s)\<lparr>the_window := w, cur_intersend_time := it, intersend_time := it\<rparr>"
  have "update_intersend_time True s = Inr ?s'"
    using assms(2) True by (auto simp: update_intersend_time_def Let_def w_def it_def randomize_intersend_def)
  moreover have "copa_ok ?s'" using assms(1) by (simp add: copa_ok_def w_def)
  moreover have "it * w = 0.5 * get_unjittered_rtt (rtt_window s)" by (simp add: it_def w_def)
  moreover have "do_slow_start s \<or> \<not> slow_start (next_window s)"
    using assms(2) next_window_slow_start [of s] by blast
  ultimately show ?thesis
    using next_window_slow_start [of s] by (intro exI [of _ ?s']) simp
next
  case False
  then show ?thesis using assms by (simp add: update_intersend_time_def)
qed

text \<open>Without the directory the file is opened in vain from the twentieth acknowledgement on.\<close>

lemma update_intersend_time_dir:
  assumes "do_slow_start s \<or> \<not> slow_start s"
  shows "update_intersend_time dir s
    = (if dir \<or> num_pkts_acked s < 19 then update_intersend_time True s else Inl NullDeref)"
  using assms by (auto simp: update_intersend_time_def Let_def guardE_def)


text \<open>What the loop over the unacknowledged packets leaves alone.\<close>

definition same_control :: "markovian \<Rightarrow> markovian \<Rightarrow> bool" where
  "same_control s t \<longleftrightarrow> rtt_window t = rtt_window s \<and> cur_tick t = cur_tick s \<and> delta t = delta s
     \<and> default_delta t = default_delta s \<and> the_window t = the_window s \<and> num_pkts_acked t = num_pkts_acked s
     \<and> do_slow_start t = do_slow_start s \<and> slow_start t = slow_start s
     \<and> intersend_time t = intersend_time s"

lemma same_control_refl [simp]: "same_control s s"
  by (simp add: same_control_def)

lemma same_control_trans: "same_control s t \<Longrightarrow> same_control t u \<Longrightarrow> same_control s u"
  by (simp add: same_control_def)

lemma ack_loop_spec:
  assumes "sorted_wrt (<) (map fst xs)" and "\<forall>k \<in> set (map fst xs). tmp \<le> k"
  shows "\<exists>s' b r'. ack_loop n xs tmp pl r s = Inr (s', b, r') \<and> same_control s s'
    \<and> unacknowledged_packets s' = filter (\<lambda>p. n < fst p) xs
    \<and> num_pkts_lost s' = num_pkts_lost s + int (length (filter (\<lambda>p. fst p < n) xs))
    \<and> (b \<longleftrightarrow> pl \<or> (\<exists>p \<in> set xs. fst p < n))"
  using assms
proof (induction xs arbitrary: tmp pl r s)
  case Nil
  then show ?case by (simp add: same_control_def)
next
  case (Cons p xs)
  obtain k x where p: "p = (k, x)" by fastforce
  let ?s1 = "s\<lparr>prev_intersend_time := pd_intersend_time x, prev_intersend_time_vel := pd_intersend_time_vel x,
      prev_rtt := pd_rtt x, prev_rtt_update_time := pd_sent_time x,
      prev_avg_sending_rate := pd_prev_avg_sending_rate x\<rparr>"
  have srt: "sorted_wrt (<) (map fst xs)" and gt: "\<forall>p \<in> set xs. k < fst p" and le: "tmp \<le> k"
    using Cons.prems by (auto simp: p)
  have le': "\<forall>j \<in> set (map fst xs). k \<le> j" using gt by auto
  note IH = Cons.IH [OF srt le']
  consider (later) "n < k" | (lost) "k < n" | (acked) "k = n" by linarith
  then show ?case
  proof cases
    case later
    then have all: "\<forall>q \<in> set (p # xs). n < fst q" using gt by (auto simp: p)
    then have "filter (\<lambda>p. n < fst p) (p # xs) = p # xs" by (intro filter_True) auto
    moreover have "filter (\<lambda>p. fst p < n) (p # xs) = []" "\<not> (\<exists>q \<in> set (p # xs). fst q < n)"
      using all by (auto simp: filter_empty_conv)
    ultimately have "filter (\<lambda>p. n < fst p) (p # xs) = p # xs" "filter (\<lambda>p. fst p < n) (p # xs) = []"
      "\<not> (\<exists>q \<in> set (p # xs). fst q < n)" by auto
    then show ?thesis using later le by (simp add: p same_control_def)
  next
    case lost
    obtain b rl where rl: "rl_update True (cur_tick ?s1) (get_latest_rtt (rtt_window ?s1)) (reduce_on_loss ?s1) = (b, rl)"
      by fastforce
    let ?s2 = "?s1\<lparr>num_pkts_lost := num_pkts_lost ?s1 + 1, reduce_on_loss := rl\<rparr>"
    have step: "ack_loop n (p # xs) tmp pl r s = ack_loop n xs k True (r \<or> b) ?s2"
      using lost le rl by (simp add: p)
    have "same_control s ?s2" by (simp add: same_control_def)
    moreover obtain s' b' r' where "ack_loop n xs k True (r \<or> b) ?s2 = Inr (s', b', r')"
      "same_control ?s2 s'" "unacknowledged_packets s' = filter (\<lambda>p. n < fst p) xs" "b'"
      "num_pkts_lost s' = num_pkts_lost ?s2 + int (length (filter (\<lambda>p. fst p < n) xs))"
      using IH [of True "r \<or> b" ?s2] by blast
    moreover from calculation have "same_control s s'" using same_control_trans by blast
    ultimately show ?thesis unfolding step using lost by (simp add: p) blast
  next
    case acked
    have step: "ack_loop n (p # xs) tmp pl r s = ack_loop n xs k pl r ?s1"
      using acked le by (simp add: p)
    have "same_control s ?s1" by (simp add: same_control_def)
    moreover have "filter (\<lambda>p. fst p < n) xs = []" "\<not> (\<exists>q \<in> set xs. fst q < n)"
      using gt acked by (auto simp: filter_empty_conv)
    ultimately show ?thesis
      unfolding step using IH [of pl r ?s1] acked by (auto simp: p intro: same_control_trans)
  qed
qed

lemma copa_ok_same_control:
  assumes "copa_ok s" and "same_control s t"
    and "unacknowledged_packets t = filter P (unacknowledged_packets s)"
  shows "copa_ok t"
  using assms by (auto simp: copa_ok_def same_control_def sorted_wrt_map sorted_wrt_filter)

lemma reduce_window_frame [simp]:
  "cur_tick (reduce_window s) = cur_tick s" "unacknowledged_packets (reduce_window s) = unacknowledged_packets s"
  "num_pkts_acked (reduce_window s) = num_pkts_acked s" "num_pkts_lost (reduce_window s) = num_pkts_lost s"
  "rtt_window (reduce_window s) = rtt_window s" "do_slow_start (reduce_window s) = do_slow_start s"
  "slow_start (reduce_window s) = slow_start s" "delta (reduce_window s) = delta s"
  "default_delta (reduce_window s) = default_delta s"
  by (simp_all add: reduce_window_def Let_def)

lemma copa_ok_reduce_window: "copa_ok s \<Longrightarrow> copa_ok (reduce_window s)"
  by (simp add: copa_ok_def) (simp add: reduce_window_def Let_def)

text \<open>
  What an acknowledgement does with the outstanding packets: if the acknowledged one is among them,
  it and all earlier ones leave, and the earlier ones count as lost.
\<close>

lemma ack_packets_spec:
  assumes "copa_ok s"
  shows "\<exists>s'. ack_packets n s = Inr s' \<and> copa_ok s' \<and> cur_tick s' = cur_tick s
    \<and> rtt_window s' = rtt_window s
    \<and> do_slow_start s' = do_slow_start s \<and> slow_start s' = slow_start s
    \<and> num_pkts_acked s' = num_pkts_acked s + 1
    \<and> unacknowledged_packets s' = (if n \<in> set (map fst (unacknowledged_packets s))
         then filter (\<lambda>p. n < fst p) (unacknowledged_packets s) else unacknowledged_packets s)
    \<and> num_pkts_lost s' = num_pkts_lost s + (if n \<in> set (map fst (unacknowledged_packets s))
         then int (length (filter (\<lambda>p. fst p < n) (unacknowledged_packets s))) else 0)"
proof -
  let ?U = "unacknowledged_packets s" and ?P = "n \<in> set (map fst (unacknowledged_packets s))"
  have U: "sorted_wrt (<) (map fst ?U)" "\<forall>k \<in> set (map fst ?U). - 1 \<le> k"
    using assms by (auto simp: copa_ok_def)
  obtain s1 b r where s1: "(if ?P then ack_loop n ?U (- 1) False False s else Inr (s, False, False)) = Inr (s1, b, r)"
    "same_control s s1"
    "unacknowledged_packets s1 = (if ?P then filter (\<lambda>p. n < fst p) ?U else ?U)"
    "num_pkts_lost s1 = num_pkts_lost s + (if ?P then int (length (filter (\<lambda>p. fst p < n) ?U)) else 0)"
  proof (cases ?P)
    case True
    show ?thesis using ack_loop_spec [OF U, of n False False s] that True by auto
  next
    case False
    show ?thesis by (rule that [of s False False]) (use False in auto)
  qed
  have ok1: "copa_ok s1"
    using copa_ok_same_control [OF assms s1(2), of "\<lambda>p. if ?P then n < fst p else True"] s1(3)
    by (simp split: if_splits)
  define s2 where "s2 = (if b then update_delta True 0 s1 else s1)"
  have ok2: "copa_ok s2" using ok1 by (simp add: s2_def copa_ok_update_delta)
  obtain b2 rl where rl: "rl_update False (cur_tick s2) (get_latest_rtt (rtt_window s2)) (reduce_on_loss s2) = (b2, rl)"
    by fastforce
  define s3 where "s3 = s2\<lparr>reduce_on_loss := rl\<rparr>"
  define s4 where "s4 = (if r \<or> b2 then reduce_window s3 else s3)"
  have ok3: "copa_ok s3" using ok2 by (simp add: s3_def copa_ok_def)
  then have ok4: "copa_ok s4" by (simp add: s4_def copa_ok_reduce_window)
  have "ack_packets n s = Inr (s4\<lparr>num_pkts_acked := num_pkts_acked s4 + 1\<rparr>)"
    unfolding ack_packets_def s1(1) bindE.simps prod.case s2_def [symmetric] Let_def rl
    by (simp add: s3_def s4_def)
  moreover have "copa_ok (s4\<lparr>num_pkts_acked := num_pkts_acked s4 + 1\<rparr>)"
    using ok4 by (simp add: copa_ok_def)
  ultimately show ?thesis
    using s1(2-4) by (simp add: s4_def s3_def s2_def same_control_def)
qed


section \<open>Properties of the acknowledgement\<close>

lemma ack_sample_spec:
  assumes "copa_ok s" and "do_slow_start s \<or> \<not> slow_start s" and "rtt \<le> DBL_MAX"
  shows "\<exists>s'. ack_sample True rtt s = Inr s' \<and> copa_ok s' \<and> (do_slow_start s' \<or> \<not> slow_start s')
    \<and> cur_tick s' = cur_tick s \<and> unacknowledged_packets s' = unacknowledged_packets s
    \<and> num_pkts_acked s' = num_pkts_acked s \<and> num_pkts_lost s' = num_pkts_lost s
    \<and> rtt_window s' = new_rtt_sample rtt (cur_tick s) (rtt_window s)
    \<and> do_slow_start s' = do_slow_start s"
proof -
  let ?w = "new_rtt_sample rtt (cur_tick s) (rtt_window s)"
  define s1 where "s1 = s\<lparr>rtt_window := ?w, min_rtt := get_min_rtt ?w\<rparr>"
  define s2 where "s2 = (if prev_ack_time s1 \<noteq> 0 then
      s1\<lparr>interarrival_ewma := pe_update (cur_tick s - prev_ack_time s1) (interarrival_ewma s1),
         interarrival := pc_push (cur_tick s - prev_ack_time s1) (interarrival s1)\<rparr> else s1)"
  define s3 where "s3 = update_delta False rtt (s2\<lparr>prev_ack_time := cur_tick s\<rparr>)"
  have w: "rtt_window_ok ?w (cur_tick s)"
    using assms(1,3) by (intro rtt_window_ok_sample [where t = "cur_tick s"]) (auto simp: copa_ok_def)
  then have "get_unjittered_rtt ?w \<ge> get_min_rtt ?w" by (rule rtt_window_ok_order)
  then have sample: "ack_sample True rtt s = update_intersend_time True s3"
    by (simp add: ack_sample_def Let_def s1_def s2_def s3_def)
  have frame: "cur_tick s2 = cur_tick s" "unacknowledged_packets s2 = unacknowledged_packets s"
    "num_pkts_acked s2 = num_pkts_acked s" "num_pkts_lost s2 = num_pkts_lost s" "rtt_window s2 = ?w"
    "do_slow_start s2 = do_slow_start s" "slow_start s2 = slow_start s" "delta s2 = delta s"
    "default_delta s2 = default_delta s" "the_window s2 = the_window s"
    by (simp_all add: s2_def s1_def)
  have "copa_ok (s2\<lparr>prev_ack_time := cur_tick s\<rparr>)"
    using assms(1) w by (simp add: copa_ok_def frame)
  then have "copa_ok s3" by (simp add: s3_def copa_ok_update_delta)
  moreover have "do_slow_start s3 \<or> \<not> slow_start s3" using assms(2) by (simp add: s3_def frame)
  ultimately show ?thesis
    using update_intersend_time_ok [of s3] by (simp add: sample s3_def frame) blast
qed

lemma ack_sample_dir:
  assumes "copa_ok s" and "do_slow_start s \<or> \<not> slow_start s" and "rtt \<le> DBL_MAX"
  shows "ack_sample dir rtt s = (if dir \<or> num_pkts_acked s < 19 then ack_sample True rtt s else Inl NullDeref)"
proof -
  let ?w = "new_rtt_sample rtt (cur_tick s) (rtt_window s)"
  have "rtt_window_ok ?w (cur_tick s)"
    using assms(1,3) by (intro rtt_window_ok_sample [where t = "cur_tick s"]) (auto simp: copa_ok_def)
  then have "get_unjittered_rtt ?w \<ge> get_min_rtt ?w" by (rule rtt_window_ok_order)
  then show ?thesis
    using assms(2) by (simp add: ack_sample_def Let_def) (subst update_intersend_time_dir, auto)+
qed

lemma onACK_dir:
  assumes "copa_ok s" and "do_slow_start s \<or> \<not> slow_start s"
    and "sent_time < cur_tick s" and "cur_tick s - sent_time - of_int adjust_us / 1000 \<le> DBL_MAX"
  shows "onACK dir ack receiver_timestamp sent_time adjust_us s =
    (if dir \<or> num_pkts_acked s < 19 then onACK True ack receiver_timestamp sent_time adjust_us s
     else Inl NullDeref)"
  using ack_sample_dir [OF assms(1,2,4), of dir] assms(3) by (simp add: onACK_def Let_def)

lemma onACK_spec:
  assumes "copa_ok s" and "do_slow_start s \<or> \<not> slow_start s"
    and "sent_time < cur_tick s" and "cur_tick s - sent_time - of_int adjust_us / 1000 \<le> DBL_MAX"
  shows "\<exists>s'. onACK True ack receiver_timestamp sent_time adjust_us s = Inr s' \<and> copa_ok s'
    \<and> (do_slow_start s' \<or> \<not> slow_start s') \<and> cur_tick s' = cur_tick s
    \<and> do_slow_start s' = do_slow_start s \<and> num_pkts_acked s' = num_pkts_acked s + 1
    \<and> (ack - 1 \<in> set (map fst (unacknowledged_packets s)) \<longrightarrow>
        unacknowledged_packets s' = filter (\<lambda>p. ack \<le> fst p) (unacknowledged_packets s)
        \<and> num_pkts_lost s' = num_pkts_lost s
            + int (length (filter (\<lambda>p. fst p < ack - 1) (unacknowledged_packets s))))
    \<and> (ack - 1 \<notin> set (map fst (unacknowledged_packets s)) \<longrightarrow>
        unacknowledged_packets s' = unacknowledged_packets s \<and> num_pkts_lost s' = num_pkts_lost s)"
proof -
  let ?rtt = "cur_tick s - sent_time - of_int adjust_us / 1000"
  obtain s1 where s1: "ack_sample True ?rtt s = Inr s1" "copa_ok s1" "do_slow_start s1 \<or> \<not> slow_start s1"
    "cur_tick s1 = cur_tick s" "unacknowledged_packets s1 = unacknowledged_packets s"
    "do_slow_start s1 = do_slow_start s" "num_pkts_acked s1 = num_pkts_acked s" "num_pkts_lost s1 = num_pkts_lost s"
    using ack_sample_spec [OF assms(1,2,4)] by blast
  have "(\<lambda>p :: int \<times> packet_data. ack - 1 < fst p) = (\<lambda>p. ack \<le> fst p)" by (rule ext) auto
  then show ?thesis
    using ack_packets_spec [OF s1(2), of "ack - 1"] s1 assms(3)
    unfolding onACK_def Let_def by (simp only: guardE_simps bindE.simps) auto
qed

text \<open>
  C6. Acknowledgements of a Copa flow that does slow start (or has left it) never fail an assertion:
  whatever the RTT samples are, as long as the acknowledgement arrives after its packet was sent. The
  invariant is kept, in particular the window is at least 2 and delta positive, the packet counts,
  and the packets up to the acknowledged one leave the map: those before it count as lost. The log
  file is the one thing that can fail: if it cannot be opened (\<open>dir\<close> is false), the controller uses a
  null pointer as soon as 19 packets were acknowledged, and never before.
\<close>

theorem onACK_total:
  assumes "copa_ok s" and "do_slow_start s \<or> \<not> slow_start s"
    and "sent_time < cur_tick s" and "cur_tick s - sent_time - of_int adjust_us / 1000 \<le> DBL_MAX"
  shows "if \<not> dir \<and> 19 \<le> num_pkts_acked s
    then onACK dir ack receiver_timestamp sent_time adjust_us s = Inl NullDeref
    else \<exists>s'. onACK dir ack receiver_timestamp sent_time adjust_us s = Inr s' \<and> copa_ok s'
    \<and> (do_slow_start s' \<or> \<not> slow_start s') \<and> cur_tick s' = cur_tick s
    \<and> num_pkts_acked s' = num_pkts_acked s + 1
    \<and> (ack - 1 \<in> set (map fst (unacknowledged_packets s)) \<longrightarrow>
        unacknowledged_packets s' = filter (\<lambda>p. ack \<le> fst p) (unacknowledged_packets s)
        \<and> num_pkts_lost s' = num_pkts_lost s
            + int (length (filter (\<lambda>p. fst p < ack - 1) (unacknowledged_packets s))))
    \<and> (ack - 1 \<notin> set (map fst (unacknowledged_packets s)) \<longrightarrow>
        unacknowledged_packets s' = unacknowledged_packets s \<and> num_pkts_lost s' = num_pkts_lost s)"
proof (cases "\<not> dir \<and> 19 \<le> num_pkts_acked s")
  case True
  then show ?thesis by (subst onACK_dir [OF assms]) simp
next
  case False
  then have run: "onACK dir ack receiver_timestamp sent_time adjust_us s
      = onACK True ack receiver_timestamp sent_time adjust_us s"
    by (subst onACK_dir [OF assms]) auto
  show ?thesis unfolding if_not_P [OF False] run using onACK_spec [OF assms] by blast
qed

theorem onACK_total_witness:
  "\<exists>s'. onACK True 1 0 5 0 (set_timestamp 20 (init_state ((MarkovianCC 1 1)\<lparr>do_slow_start := True\<rparr>))) = Inr s'
    \<and> copa_ok s' \<and> num_pkts_acked s' = 1"
proof -
  let ?s0 = "init_state ((MarkovianCC 1 1)\<lparr>do_slow_start := True\<rparr>)"
  have "copa_ok ?s0"
    by (rule copa_ok_init [of _ 0]) (simp_all add: MarkovianCC_def rtt_window_ok_init)
  then have "copa_ok (set_timestamp 20 ?s0)"
    by (rule copa_ok_set_timestamp) (simp add: init_state_def MarkovianCC_def)
  moreover have "(15::real) \<le> DBL_MAX" by (simp add: DBL_MAX_def)
  ultimately show ?thesis
    using onACK_total [of "set_timestamp 20 ?s0" 5 0 True 1 0]
    by (auto simp: set_timestamp_def init_state_def MarkovianCC_def)
qed

text \<open>
  Without slow start the controller aborts: the first time that the average is to be taken into account
  (from the twentieth acknowledgement on) it is still marked as being in slow start and its RTT is not
  the minimum, the branch taken is the one that only asserts \<open>false\<close>.
\<close>

lemma no_slow_start_aborts:
  assumes "\<not> do_slow_start s" and "slow_start s" and "19 \<le> num_pkts_acked s"
    and "target_window_of s \<noteq> DBL_MAX"
  shows "update_intersend_time dir s = Inl AssertFailed"
  using assms by (simp add: update_intersend_time_def)

end
