(* ===== verification/C_Strings.thy ===== *)
theory C_Strings
  imports Prelude
begin

text \<open>
  The parts of the C and C++ libraries for strings that the programs use: \<open>substr\<close>, \<open>find\<close> of a
  character, \<open>atoi\<close>, \<open>atof\<close> and \<open>stof\<close>. The decimal formats are modelled (sign, digits, fraction,
  exponent); hexadecimal numbers, \<open>inf\<close> and \<open>nan\<close> are not, and a value is not rounded to a \<open>float\<close> or
  a \<open>double\<close>.
\<close>

text \<open>\<open>s.substr(pos, n)\<close> and \<open>s.substr(pos)\<close>: an exception when \<open>pos\<close> is past the end.\<close>

definition substr :: "string \<Rightarrow> nat \<Rightarrow> nat \<Rightarrow> string res" where
  "substr s pos n = (if pos \<le> length s then Inr (take n (drop pos s)) else Inl UncaughtException)"

definition substr_from :: "string \<Rightarrow> nat \<Rightarrow> string res" where
  "substr_from s pos = (if pos \<le> length s then Inr (drop pos s) else Inl UncaughtException)"

text \<open>\<open>s.substr(0, |p|) == p\<close>.\<close>

definition starts_with :: "string \<Rightarrow> string \<Rightarrow> bool" where
  "starts_with s p \<longleftrightarrow> take (length p) s = p"

lemma substr_starts_with: "substr s 0 (length p) = Inr t \<Longrightarrow> t = p \<longleftrightarrow> starts_with s p"
  by (simp add: substr_def starts_with_def)

lemma starts_with_substr_from: "starts_with s p \<Longrightarrow> substr_from s (length p) = Inr (drop (length p) s)"
  unfolding starts_with_def substr_from_def by (metis length_take min.absorb_iff2 min.commute)

definition is_space :: "char \<Rightarrow> bool" where
  "is_space c \<longleftrightarrow> (of_char c :: int) \<in> {9, 10, 11, 12, 13, 32}"

definition is_digit :: "char \<Rightarrow> bool" where
  "is_digit c \<longleftrightarrow> 48 \<le> (of_char c :: int) \<and> (of_char c :: int) \<le> 57"

definition digits_value :: "string \<Rightarrow> int" where
  "digits_value ds = foldl (\<lambda>a d. 10 * a + (of_char d - 48)) 0 ds"

definition read_sign :: "string \<Rightarrow> bool \<times> string" where
  "read_sign s =
     (case s of [] \<Rightarrow> (False, [])
      | c # cs \<Rightarrow> if c = CHR ''-'' then (True, cs) else if c = CHR ''+'' then (False, cs) else (False, s))"

definition atoi :: "string \<Rightarrow> int" where
  "atoi s =
     (let (neg, s1) = read_sign (dropWhile is_space s);
          v = digits_value (takeWhile is_digit s1)
      in if neg then - v else v)"

definition read_exponent :: "string \<Rightarrow> int" where
  "read_exponent s =
     (case s of [] \<Rightarrow> 0
      | c # cs \<Rightarrow>
          if c = CHR ''e'' \<or> c = CHR ''E'' then
            (let (neg, s1) = read_sign cs; v = digits_value (takeWhile is_digit s1)
             in if neg then - v else v)
          else 0)"

text \<open>\<open>None\<close> when no number can be read.\<close>

definition read_double :: "string \<Rightarrow> real option" where
  "read_double s =
     (let (neg, s1) = read_sign (dropWhile is_space s);
          ds = takeWhile is_digit s1; s2 = dropWhile is_digit s1;
          dot = (s2 \<noteq> [] \<and> hd s2 = CHR ''.'');
          fs = (if dot then takeWhile is_digit (tl s2) else []);
          s3 = (if dot then dropWhile is_digit (tl s2) else s2);
          m = of_int (digits_value (ds @ fs)) / 10 ^ length fs;
          e = read_exponent s3;
          v = (if 0 \<le> e then m * 10 ^ nat e else m / 10 ^ nat (- e))
      in if ds = [] \<and> fs = [] then None else Some (if neg then - v else v))"

definition atof :: "string \<Rightarrow> real" where
  "atof s = (case read_double s of None \<Rightarrow> 0 | Some v \<Rightarrow> v)"

definition stof :: "string \<Rightarrow> real res" where
  "stof s = (case read_double s of None \<Rightarrow> Inl UncaughtException | Some v \<Rightarrow> Inr v)"

end
