(* ===== verification/Markovian_Config.thy ===== *)
theory Markovian_Config
  imports Markovian_CC C_Strings
begin

text \<open>
  The configuration string of \<open>src/markoviancc.cc\<close> (\<open>interpret_config_str\<close>), and what becomes of the
  configured delta: the adaptation of delta in the default and the loss mode.
\<close>

text \<open>The modes with a delay bound read it with \<open>stof\<close>, which may throw.\<close>

definition with_delay_bound :: "utility_mode_t \<Rightarrow> string \<Rightarrow> nat \<Rightarrow> markovian \<Rightarrow> markovian res" where
  "with_delay_bound mode config pos s =
     bindE (substr_from config pos) (\<lambda>arg. bindE (stof arg) (\<lambda>v.
     Inr (s\<lparr>utility_mode := mode, delay_bound := v\<rparr>)))"

text \<open>\<open>config.substr(0, n) == w\<close> is \<open>take n config = w\<close>.\<close>

definition interpret_config_str :: "string \<Rightarrow> markovian \<Rightarrow> markovian res" where
  "interpret_config_str config0 s0 =
     (let ss = (take 6 config0 = ''do_ss:'');
          config1 = (if ss then drop 6 config0 else config0);
          ke = (take 17 config1 = ''keep_ext_min_rtt:'');
          config = (if ke then drop 17 config1 else config1);
          s = s0\<lparr>do_slow_start := (ss \<or> do_slow_start s0),
                 keep_ext_min_rtt := (ke \<or> keep_ext_min_rtt s0), delta := 1\<rparr>
      in if take 15 config = ''constant_delta:'' then
           bindE (substr_from config 15) (\<lambda>a. Inr (s\<lparr>utility_mode := CONSTANT_DELTA, delta := atof a\<rparr>))
         else if take 11 config = ''pfabric_fct'' then Inr (s\<lparr>utility_mode := PFABRIC_FCT\<rparr>)
         else if take 14 config = ''bounded_delay:'' then with_delay_bound BOUNDED_DELAY config 14 s
         else if take 18 config = ''bounded_delay_end:'' then with_delay_bound BOUNDED_DELAY_END config 18 s
         else if take 19 config = ''bounded_qdelay_end:'' then with_delay_bound BOUNDED_QDELAY_END config 19 s
         else if take 18 config = ''bounded_fdelay_end:'' then with_delay_bound BOUNDED_FDELAY_END config 18 s
         else if take 14 config = ''max_throughput'' then Inr (s\<lparr>utility_mode := MAX_THROUGHPUT\<rparr>)
         else if take 16 config = ''different_deltas'' then
           Inr (s\<lparr>utility_mode := CONSTANT_DELTA, delta := of_int (flow_id s) * 0.5\<rparr>)
         else if take 8 config = ''tcp_coop'' then Inr (s\<lparr>utility_mode := TCP_COOP\<rparr>)
         else if take 14 config = ''const_behavior'' then
           bindE (substr_from config 15) (\<lambda>a. bindE (stof a) (\<lambda>v.
           Inr (s\<lparr>utility_mode := CONST_BEHAVIOR, behavior := v\<rparr>)))
         else if take 5 config = ''auto:'' then
           bindE (substr_from config 5) (\<lambda>a.
           Inr (s\<lparr>utility_mode := AUTO_MODE, default_delta := atof a, delta := atof a\<rparr>))
         else Inr (s\<lparr>utility_mode := CONSTANT_DELTA, delta := 1\<rparr>))"

lemma take_append_literal: "n = length p \<Longrightarrow> take n (p @ xs) = p" "n = length p \<Longrightarrow> drop n (p @ xs) = xs"
  by simp_all

text \<open>
  A constant delta given on the command line is read into \<open>delta\<close>, but the first adaptation
  replaces it by the default 0.5: in the constant mode, delta is 0.5 from the first acknowledgement
  on, whatever was configured.
\<close>

theorem constant_delta_replaced:
  assumes "interpret_config_str (''constant_delta:'' @ arg) (MarkovianCC d fid) = Inr s"
  shows "delta s = atof arg \<and> delta (init_state s) = atof arg
    \<and> delta (update_delta b rtt (set_timestamp t (init_state s))) = 0.5"
proof -
  have p: "take 6 (''constant_delta:'' @ arg) \<noteq> ''do_ss:''" by simp
  have q: "take 17 (''constant_delta:'' @ arg) \<noteq> ''keep_ext_min_rtt:''" by simp
  have "take 15 (''constant_delta:'' @ arg) = ''constant_delta:''"
    "substr_from (''constant_delta:'' @ arg) 15 = Inr arg" by (simp_all add: substr_from_def)
  then have s: "s = (MarkovianCC d fid)\<lparr>delta := atof arg\<rparr>"
    using assms unfolding interpret_config_str_def Let_def if_not_P [OF p] if_not_P [OF q]
    by (simp add: MarkovianCC_def)
  then show ?thesis
    by (simp add: init_state_def MarkovianCC_def set_timestamp_def update_delta_def choose_mode_def
        default_mode_delta_def Let_def)
qed

theorem constant_delta_replaced_witness:
  "\<exists>s. interpret_config_str ''constant_delta:1'' (MarkovianCC 1 1) = Inr s \<and> delta (init_state s) = 1
    \<and> delta (update_delta False 10 (set_timestamp 20 (init_state s))) = 0.5"
proof -
  obtain s where s: "interpret_config_str (''constant_delta:'' @ ''1'') (MarkovianCC 1 1) = Inr s"
    by (simp add: interpret_config_str_def substr_from_def)
  have "atof ''1'' = 1"
    by (simp add: atof_def read_double_def read_sign_def is_digit_def is_space_def digits_value_def
        read_exponent_def)
  then show ?thesis
    using constant_delta_replaced [OF s, of False 10 20] s by auto
qed

text \<open>
  The mode \<open>bounded_fdelay_end\<close> cannot be selected: the code compares the first 18 characters with
  a keyword of 19, so the string is taken as malformed and a constant delta of 1 is used.
\<close>

theorem bounded_fdelay_end_unreachable:
  "interpret_config_str (''bounded_fdelay_end:'' @ arg) s
    = Inr (s\<lparr>delta := 1, utility_mode := CONSTANT_DELTA\<rparr>)"
  by (simp add: interpret_config_str_def)

text \<open>The loss-sensitive mode in terms of the inverse of delta.\<close>

lemma loss_mode_inverse:
  assumes "0 < delta s" and "delta s \<le> default_delta s"
  shows "1 / delta (loss_mode_delta lost rtt s) =
    (let k = 1 / (if prev_delta_update_time s = 0 then default_delta s else delta s) in
     if lost \<and> prev_delta_update_time_loss s + rtt < cur_tick s then max (1 / default_delta s) (k / 2)
     else if prev_delta_update_time s + rtt < cur_tick s then k + 1 else k)"
proof -
  define d D where "d = (if prev_delta_update_time s = 0 then default_delta s else delta s)"
    and "D = default_delta s"
  have dD: "0 < d" "d \<le> D" "0 < D" using assms by (auto simp: d_def D_def)
  have half: "1 / min (d * 2) D = max (1 / D) ((1 / d) / 2)"
    using dD by (simp add: min_def max_def field_simps)
  have "1 / (1 / d + 1) \<le> d" using dD by (simp add: field_simps)
  then have "min (1 / (1 / d + 1)) D = 1 / (1 / d + 1)" using dD by simp
  then have plus: "1 / min (1 / (1 / d + 1)) D = 1 / d + 1" by simp
  have "min d D = d" using dD by simp
  then show ?thesis
    using half plus by (simp add: loss_mode_delta_def Let_def d_def [symmetric] D_def [symmetric])
qed

text \<open>
  C9. How delta is adapted. In the loss-sensitive mode the inverse of delta follows additive increase and
  multiplicative decrease, once per round-trip time: a loss halves it, an RTT without a loss adds 1,
  and it never drops below the inverse of the default, with which it also starts. The mode is
  loss-sensitive with \<open>tcp_coop\<close>, with \<open>auto\<close> when the RTT window does not look as if only Copa flows
  shared the link, and otherwise when it was so before. In the default mode delta goes back to the
  default once an RTT has passed since the last loss (and at the start).
\<close>

theorem loss_mode_aimd:
  fixes s :: markovian
  assumes "0 < delta s" and "delta s \<le> default_delta s" and "operation_mode s \<noteq> TCP_MODE"
  defines "sensitive \<equiv> utility_mode s = TCP_COOP
      \<or> (if utility_mode s = AUTO_MODE then \<not> is_copa (rtt_window s)
         else operation_mode s = LOSS_SENSITIVE_MODE)"
    and "k \<equiv> 1 / (if prev_delta_update_time s = 0 then default_delta s else delta s)"
  shows "1 / delta (update_delta lost rtt s) =
    (if sensitive then
       if lost \<and> prev_delta_update_time_loss s + rtt < cur_tick s then max (1 / default_delta s) (k / 2)
       else if prev_delta_update_time s + rtt < cur_tick s then k + 1 else k
     else
       if prev_delta_update_time s = 0 \<or> prev_delta_update_time_loss s + rtt < cur_tick s
       then 1 / default_delta s else 1 / delta s)
    \<and> operation_mode (update_delta lost rtt s) =
      (if utility_mode s \<noteq> AUTO_MODE then operation_mode s
       else if is_copa (rtt_window s) then DEFAULT_MODE else LOSS_SENSITIVE_MODE)"
proof -
  define t where "t = choose_mode lost s"
  have t: "delta t = delta s" "default_delta t = default_delta s" "cur_tick t = cur_tick s"
    "prev_delta_update_time t = prev_delta_update_time s" "utility_mode t = utility_mode s"
    "prev_delta_update_time_loss t = prev_delta_update_time_loss s"
    by (simp_all add: t_def) (simp_all add: choose_mode_def)
  have mode: "operation_mode t = (if utility_mode s \<noteq> AUTO_MODE then operation_mode s
      else if is_copa (rtt_window s) then DEFAULT_MODE else LOSS_SENSITIVE_MODE)"
    by (simp add: t_def choose_mode_def)
  have default: "operation_mode t = DEFAULT_MODE \<longleftrightarrow> operation_mode t \<noteq> LOSS_SENSITIVE_MODE"
    using assms(3) mode by (cases "operation_mode s") auto
  have which: "update_delta lost rtt s
      = (if sensitive then loss_mode_delta lost rtt t else default_mode_delta rtt t)"
    using default mode by (auto simp: update_delta_def t_def [symmetric] t sensitive_def)
  have "operation_mode (update_delta lost rtt s) = operation_mode t"
    unfolding which by (simp add: loss_mode_delta_def default_mode_delta_def Let_def)
  moreover have "1 / delta (loss_mode_delta lost rtt t) =
      (if lost \<and> prev_delta_update_time_loss s + rtt < cur_tick s then max (1 / default_delta s) (k / 2)
       else if prev_delta_update_time s + rtt < cur_tick s then k + 1 else k)"
    using loss_mode_inverse [of t lost rtt] assms(1,2) by (simp add: t k_def Let_def)
  moreover have "delta (default_mode_delta rtt t) =
      (if prev_delta_update_time s = 0 \<or> prev_delta_update_time_loss s + rtt < cur_tick s
       then default_delta s else delta s)"
    using assms(2) by (auto simp: default_mode_delta_def t)
  ultimately show ?thesis unfolding which using mode by simp
qed

theorem loss_mode_aimd_witness:
  "1 / delta (update_delta True 10 ((MarkovianCC (1 / 8) 1)\<lparr>utility_mode := AUTO_MODE, cur_tick := 20,
     prev_delta_update_time := 5\<rparr>)) = 4"
proof -
  have "\<not> is_copa RTTWindow"
    by (simp add: is_copa_def RTTWindow_def ExtremeWindow_def DBL_MAX_def DBL_MIN_def)
  then show ?thesis
    using loss_mode_aimd [of "(MarkovianCC (1 / 8) 1)\<lparr>utility_mode := AUTO_MODE, cur_tick := 20,
       prev_delta_update_time := 5\<rparr>" True 10]
    by (simp add: MarkovianCC_def)
qed

end
