(* ===== verification/Congctrls.thy ===== *)
theory Congctrls
  imports Markovian_Config
begin

text \<open>
  Model of \<open>src/ccc.hh\<close> (the interface of a congestion controller, as the record of operations \<open>ccc\<close>
  that the template \<open>CTCP\<close> is instantiated with) and of \<open>src/congctrls.hh\<close>: UDT's TCP controller
  \<open>DefaultCC\<close> and \<open>CUDPBlast\<close>. The locale \<open>congestion_controller\<close> is the contract that the sender
  relies on; it is interpreted on \<open>DefaultCC\<close> and on Copa.
\<close>


section \<open>The interface of a congestion controller\<close>

text \<open>
  The flag of \<open>cc_init\<close> and of \<open>cc_set_min_rtt\<close> (which initialises again) says whether the log file of the
  controller can be opened.
\<close>

record 'c ccc =
  cc_window :: "'c \<Rightarrow> real"
  cc_intersend :: "'c \<Rightarrow> real"
  cc_timeout :: "'c \<Rightarrow> real"
  cc_init :: "bool \<Rightarrow> 'c \<Rightarrow> 'c res"
  cc_set_timestamp :: "real \<Rightarrow> 'c \<Rightarrow> 'c"
  cc_set_min_rtt :: "bool \<Rightarrow> real \<Rightarrow> 'c \<Rightarrow> 'c res"
  cc_onACK :: "int \<Rightarrow> real \<Rightarrow> real \<Rightarrow> int \<Rightarrow> 'c \<Rightarrow> 'c res"
  cc_onPktSent :: "int \<Rightarrow> 'c \<Rightarrow> 'c"
  cc_onTimeout :: "'c \<Rightarrow> 'c"
  cc_onLinkRateMeasurement :: "real \<Rightarrow> 'c \<Rightarrow> 'c"
  cc_close :: "'c \<Rightarrow> 'c"


section \<open>DefaultCC\<close>

record default_cc =
  d_window :: real
  d_intersend :: real
  d_timeout :: real
  m_issthresh :: int
  m_bSlowStart :: bool
  m_iDupACKCount :: int
  m_iLastACK :: int

definition DefaultCC :: default_cc where
  "DefaultCC = \<lparr>d_window = 2, d_intersend = 0, d_timeout = 1000, m_issthresh = 83333,
     m_bSlowStart = True, m_iDupACKCount = 0, m_iLastACK = 0\<rparr>"

text \<open>
  \<open>init\<close> assigns \<open>true\<close> to the integer \<open>m_issthresh\<close> and \<open>83333\<close> to the flag \<open>m_bSlowStart\<close>;
  \<open>setRTO\<close> divides microseconds by 1000.
\<close>

definition setRTO :: "int \<Rightarrow> default_cc \<Rightarrow> default_cc" where
  "setRTO usRTO s = s\<lparr>d_timeout := of_int usRTO / 1000\<rparr>"

definition d_init :: "default_cc \<Rightarrow> default_cc" where
  "d_init s = setRTO 1000000 (s\<lparr>m_issthresh := 1, m_bSlowStart := (83333 \<noteq> (0::int)),
     d_intersend := 0, d_window := 2\<rparr>)"

definition ACKAction :: "default_cc \<Rightarrow> default_cc" where
  "ACKAction s =
     (if m_bSlowStart s then
        (let s1 = s\<lparr>d_window := d_window s + 1\<rparr>
         in if d_window s1 \<ge> of_int (m_issthresh s1) then s1\<lparr>m_bSlowStart := False\<rparr> else s1)
      else s\<lparr>d_window := d_window s + 1 / d_window s\<rparr>)"

definition half_window :: "default_cc \<Rightarrow> int" where
  "half_window s = (let t = trunc_real (d_window s / 2) in if t < 2 then 2 else t)"

definition DupACKAction :: "default_cc \<Rightarrow> default_cc" where
  "DupACKAction s = s\<lparr>m_bSlowStart := False, m_issthresh := half_window s,
     d_window := of_int (half_window s) + 3\<rparr>"

definition d_onACK :: "int \<Rightarrow> default_cc \<Rightarrow> default_cc" where
  "d_onACK ack s =
     (if ack = m_iLastACK s then
        (let s1 = s\<lparr>m_iDupACKCount := m_iDupACKCount s + 1\<rparr>
         in if 3 = m_iDupACKCount s1 then DupACKAction s1
            else if m_iDupACKCount s1 > 3 then s1\<lparr>d_window := d_window s1 + 1\<rparr>
            else ACKAction s1)
      else
        (let s1 = (if m_iDupACKCount s \<ge> 3 then s\<lparr>d_window := of_int (m_issthresh s)\<rparr> else s)
         in ACKAction (s1\<lparr>m_iLastACK := ack, m_iDupACKCount := 1\<rparr>)))"

definition d_onTimeout :: "default_cc \<Rightarrow> default_cc" where
  "d_onTimeout s = s\<lparr>m_issthresh := half_window s, m_bSlowStart := True, d_window := 2\<rparr>"

text \<open>The base class ignores timestamps, the minimum RTT, sent packets and link rates.\<close>

definition default_ccc :: "default_cc ccc" where
  "default_ccc = \<lparr>cc_window = d_window, cc_intersend = d_intersend, cc_timeout = d_timeout,
     cc_init = (\<lambda>dir s. Inr (d_init s)), cc_set_timestamp = (\<lambda>t s. s), cc_set_min_rtt = (\<lambda>dir x s. Inr s),
     cc_onACK = (\<lambda>ack rt st adj s. Inr (d_onACK ack s)), cc_onPktSent = (\<lambda>n s. s),
     cc_onTimeout = d_onTimeout, cc_onLinkRateMeasurement = (\<lambda>x s. s), cc_close = (\<lambda>s. s)\<rparr>"

record udp_blast =
  b_window :: real
  b_intersend :: real

definition CUDPBlast :: udp_blast where
  "CUDPBlast = \<lparr>b_window = 83333, b_intersend = 1000000\<rparr>"

definition setRate :: "real \<Rightarrow> udp_blast \<Rightarrow> udp_blast" where
  "setRate mbps s = s\<lparr>b_intersend := 1500 * 8 / mbps\<rparr>"

text \<open>
  Copa. Acknowledgements are processed only after an initialisation that opened the log file in the
  directory, so their flag is true; the directory is not removed while the program runs.
\<close>

definition copa_ccc :: "markovian ccc" where
  "copa_ccc = \<lparr>cc_window = the_window, cc_intersend = intersend_time, cc_timeout = timeout_ms,
     cc_init = init, cc_set_timestamp = set_timestamp, cc_set_min_rtt = set_min_rtt,
     cc_onACK = onACK True, cc_onPktSent = onPktSent, cc_onTimeout = onTimeout,
     cc_onLinkRateMeasurement = (\<lambda>x s. s), cc_close = (\<lambda>s. s)\<rparr>"


section \<open>The contract of a controller\<close>

text \<open>
  \<open>ok t s\<close>: the controller is in a good state at time \<open>t\<close>. The window of a good state is at least 1;
  every callback keeps the state good; an acknowledgement that arrives after its packet was sent is
  processed without failure; initialising does not fail when the log file can be opened; and sending a packet does not move the window.
\<close>

locale congestion_controller =
  fixes C :: "'c ccc" and ok :: "real \<Rightarrow> 'c \<Rightarrow> bool"
  assumes window_ge_1: "ok t s \<Longrightarrow> 1 \<le> cc_window C s"
    and ok_mono: "ok t s \<Longrightarrow> t \<le> t' \<Longrightarrow> ok t' s"
    and ok_init: "ok t s \<Longrightarrow> \<exists>s'. cc_init C True s = Inr s' \<and> ok t s'"
    and ok_set_min_rtt: "ok t s \<Longrightarrow> \<exists>s'. cc_set_min_rtt C True x s = Inr s' \<and> ok t s'"
    and ok_set_timestamp: "ok t s \<Longrightarrow> t \<le> t' \<Longrightarrow> ok t' (cc_set_timestamp C t' s)"
    and window_set_timestamp: "cc_window C (cc_set_timestamp C t' s) = cc_window C s"
    and ok_onPktSent: "ok t s \<Longrightarrow> 0 \<le> n \<Longrightarrow> ok t (cc_onPktSent C n s)"
    and window_onPktSent: "cc_window C (cc_onPktSent C n s) = cc_window C s"
    and ok_onTimeout: "ok t s \<Longrightarrow> ok t (cc_onTimeout C s)"
    and ok_onLinkRate: "ok t s \<Longrightarrow> ok t (cc_onLinkRateMeasurement C x s)"
    and ok_onACK: "ok t s \<Longrightarrow> t \<le> t' \<Longrightarrow> st < t' \<Longrightarrow> t' - st - of_int adj / 1000 \<le> DBL_MAX \<Longrightarrow>
      \<exists>s'. cc_onACK C n rt st adj (cc_set_timestamp C t' s) = Inr s' \<and> ok t' s'"
begin

text \<open>Any sequence of timed callbacks keeps the controller good: the packets of a burst.\<close>

lemma ok_pkts_sent: "ok t s \<Longrightarrow> \<forall>n \<in> set ns. 0 \<le> n \<Longrightarrow> ok t (fold (cc_onPktSent C) ns s)"
  by (induction ns arbitrary: s) (auto intro: ok_onPktSent)

lemma window_pkts_sent: "cc_window C (fold (cc_onPktSent C) ns s) = cc_window C s"
  by (induction ns arbitrary: s) (auto simp: window_onPktSent)

end

definition default_ok :: "real \<Rightarrow> default_cc \<Rightarrow> bool" where
  "default_ok t s \<longleftrightarrow> 1 \<le> d_window s \<and> 1 \<le> m_issthresh s"

lemma half_window_ge_2: "2 \<le> half_window s" "1 \<le> half_window s"
  by (simp_all add: half_window_def Let_def)

lemma default_ok_ACKAction: "default_ok t s \<Longrightarrow> default_ok t (ACKAction s)"
  by (auto simp: default_ok_def ACKAction_def Let_def intro: add_increasing2)

lemma default_ok_onACK: "default_ok t s \<Longrightarrow> default_ok t (d_onACK ack s)"
  using default_ok_ACKAction half_window_ge_2 [of "s\<lparr>m_iDupACKCount := 3\<rparr>"]
  by (auto simp: d_onACK_def DupACKAction_def Let_def)
    (auto simp: default_ok_def)

interpretation default_cc: congestion_controller default_ccc default_ok
proof unfold_locales
  fix t t' st rt :: real and n adj :: int and s :: default_cc
  assume "default_ok t s"
  then show "\<exists>s'. cc_onACK default_ccc n rt st adj (cc_set_timestamp default_ccc t' s) = Inr s' \<and> default_ok t' s'"
    using default_ok_onACK [of t s n] by (simp add: default_ccc_def default_ok_def)
qed (use half_window_ge_2 in
    \<open>auto simp: default_ccc_def default_ok_def d_init_def setRTO_def d_onTimeout_def order_trans\<close>)

lemma map_set_keys: "set (map fst (map_set k x ys)) = insert k (set (map fst ys))"
  by (induction k x ys rule: map_set.induct) auto

lemma map_set_sorted:
  "sorted_wrt (<) (map fst ys) \<Longrightarrow> sorted_wrt (<) (map fst (map_set k x ys))"
proof (induction k x ys rule: map_set.induct)
  case (2 k x j y ys)
  have "\<forall>a \<in> set (map fst (map_set k x ys)). j < a" if "j < k"
    using 2 that unfolding map_set_keys by auto
  then show ?case using 2 by (auto dest: order.strict_trans)
qed simp

lemma unacked_loop_frame [simp]:
  "cur_tick (unacked_loop xs s) = cur_tick s" "rtt_window (unacked_loop xs s) = rtt_window s"
  "delta (unacked_loop xs s) = delta s" "default_delta (unacked_loop xs s) = default_delta s"
  "the_window (unacked_loop xs s) = the_window s" "do_slow_start (unacked_loop xs s) = do_slow_start s"
  "unacknowledged_packets (unacked_loop xs s) = unacknowledged_packets s"
  "num_pkts_sent (unacked_loop xs s) = num_pkts_sent s"
  by (induction xs s rule: unacked_loop.induct) auto

lemma onPktSent_frame [simp]:
  "cur_tick (onPktSent n s) = cur_tick s" "the_window (onPktSent n s) = the_window s"
  "do_slow_start (onPktSent n s) = do_slow_start s"
  by (simp_all add: onPktSent_def Let_def)

lemma copa_ok_onPktSent: "copa_ok s \<Longrightarrow> 0 \<le> n \<Longrightarrow> copa_ok (onPktSent n s)"
  unfolding copa_ok_def by (simp add: onPktSent_def Let_def map_set_sorted map_set_keys del: set_map)

definition copa_good :: "real \<Rightarrow> markovian \<Rightarrow> bool" where
  "copa_good t s \<longleftrightarrow> copa_ok s \<and> cur_tick s \<le> t \<and> do_slow_start s"

lemma init_simps [simp]: "init True s = Inr (init_state s)" "init False s = Inl NullDeref"
  by (simp_all add: init_def)

lemma set_min_rtt_simps [simp]: "set_min_rtt False x s = Inl NullDeref"
  by (simp add: set_min_rtt_def)

lemma copa_good_init: "copa_good t s \<Longrightarrow> copa_good t (init_state s)"
proof -
  assume s: "copa_good t s"
  then have "copa_ok (init_state s)" by (intro copa_ok_init) (auto simp: copa_good_def copa_ok_def)
  then show ?thesis using s by (simp add: copa_good_def) (simp add: init_state_def)
qed

lemma copa_good_set_min_rtt: "copa_good t s \<Longrightarrow> \<exists>s'. set_min_rtt True x s = Inr s' \<and> copa_good t s'"
  by (auto simp: set_min_rtt_def intro!: copa_good_init) (auto simp: copa_good_def copa_ok_def)

lemma copa_good_callbacks:
  assumes "copa_good t s"
  shows "1 \<le> the_window s" and "t \<le> t' \<Longrightarrow> copa_good t' (set_timestamp t' s)"
    and "0 \<le> n \<Longrightarrow> copa_good t (onPktSent n s)"
proof -
  show "1 \<le> the_window s" using assms by (simp add: copa_good_def copa_ok_def)
  show "copa_good t' (set_timestamp t' s)" if "t \<le> t'"
    using assms that copa_ok_set_timestamp [of s t'] by (simp add: copa_good_def) (simp add: set_timestamp_def)
  show "copa_good t (onPktSent n s)" if "0 \<le> n"
    using assms that copa_ok_onPktSent [of s n] by (simp add: copa_good_def)
qed

interpretation copa: congestion_controller copa_ccc copa_good
proof unfold_locales
  show "copa_good t' s" if "copa_good t s" "t \<le> t'" for t t' s
    using that by (simp add: copa_good_def)
next
  fix t t' st rt :: real and n adj :: int and s :: markovian
  assume s: "copa_good t s" and t: "t \<le> t'" "st < t'" "t' - st - of_int adj / 1000 \<le> DBL_MAX"
  then have ok: "copa_ok (set_timestamp t' s)" by (intro copa_ok_set_timestamp) (auto simp: copa_good_def)
  obtain s' where "onACK True n rt st adj (set_timestamp t' s) = Inr s'" "copa_ok s'" "cur_tick s' = t'"
    "do_slow_start s'"
    using onACK_spec [OF ok, of st adj n rt] s t by (auto simp: copa_good_def set_timestamp_def)
  then show "\<exists>s'. cc_onACK copa_ccc n rt st adj (cc_set_timestamp copa_ccc t' s) = Inr s' \<and> copa_good t' s'"
    by (auto simp: copa_ccc_def copa_good_def)
qed (simp_all add: copa_ccc_def copa_good_init copa_good_set_min_rtt onTimeout_def copa_good_callbacks,
    simp add: set_timestamp_def)

text \<open>
  Because \<open>init\<close> exchanges the values of the threshold and the slow-start flag, slow start of
  \<open>DefaultCC\<close> ends with the first acknowledgement after \<open>init\<close>, at a window of 3.
\<close>

theorem default_cc_slow_start_ends:
  "\<not> m_bSlowStart (d_onACK ack (d_init DefaultCC)) \<and> d_window (d_onACK ack (d_init DefaultCC)) = 3"
  by (simp add: d_onACK_def d_init_def DefaultCC_def ACKAction_def setRTO_def)

end
