(* ===== verification/Ctcp.thy ===== *)
theory Ctcp
  imports Congctrls Tcp_Header
begin

text \<open>
  Model of \<open>src/ctcp.hh\<close>: the sender of a flow over a congestion controller given by its record of
  operations \<open>ccc\<close> (the template parameter \<open>T\<close>). The sockets and the clock are the environment: an
  iteration of the main loop takes the clock readings and what the socket returned, and yields the
  packets sent. What is written into the log files is left out; that \<open>data/rtt.txt\<close> and
  \<open>data/pkt_time.txt\<close> have to be opened is not, because the file pointers are used unchecked. Two flags
  stand for the file system: \<open>dir\<close> (the directory \<open>data\<close> is there when the flow starts, and files in it
  can be opened) and \<open>made\<close> (\<open>mkdir ./data\<close> succeeds).

  A receive that waits without a limit for a packet that does not come, and a loop whose events are
  used up before it ends, are the outcome \<open>None\<close>: the code does not return.

  Times are milliseconds from the start of the flow. The inner loop that sends packets runs on fuel;
  \<open>burst_fuel\<close> is the bound on the number of its passes.
\<close>

abbreviation packet_size :: int where "packet_size \<equiv> 1440"

text \<open>\<open>sizeof(TCPHeader)\<close> is 48 on a 64-bit platform.\<close>

abbreviation data_size :: int where "data_size \<equiv> packet_size - 48"

record 'c ctcp =
  congctrl :: 'c
  dst_addr :: string
  dst_port :: int
  train_length :: int
  remote_ip :: string \<comment> \<open>the peer of the socket\<close>
  remote_port :: int
  last_send_time :: real
  largest_ack :: int
  tot_time_transmitted :: real
  tot_delay :: real
  tot_bytes_transmitted :: int
  tot_packets_transmitted :: int
  \<comment> \<open>locals of \<open>send_data\<close>\<close>
  seq_num :: int
  cur_time :: real
  last_ack_time :: real
  link_rate_estimate :: real
  last_recv_time :: real
  delay_sum :: real
  num_packets_transmitted :: int
  transmitted_bytes :: int

definition CTCP :: "'c \<Rightarrow> string \<Rightarrow> int \<Rightarrow> int \<Rightarrow> 'c ctcp" where
  "CTCP cc ip port train = \<lparr>congctrl = cc, dst_addr = ip, dst_port = port, train_length = train,
     remote_ip = ip, remote_port = port, last_send_time = 0, largest_ack = - 1,
     tot_time_transmitted = 0, tot_delay = 0, tot_bytes_transmitted = 0, tot_packets_transmitted = 0,
     seq_num = 0, cur_time = 0, last_ack_time = 0, link_rate_estimate = 0, last_recv_time = 0,
     delay_sum = 0, num_packets_transmitted = 0, transmitted_bytes = 0\<rparr>"

text \<open>
  The copy constructor starts a new connection with the controller and the address of the old one, but it does not set
  \<open>train_length\<close>: that field holds what the memory held before.
\<close>

definition CTCP_copy :: "int \<Rightarrow> 'c ctcp \<Rightarrow> 'c ctcp" where
  "CTCP_copy raw_train_length other = CTCP (congctrl other) (dst_addr other) (dst_port other) raw_train_length"

lemma CTCP_copy_faithful_iff:
  "CTCP_copy raw (CTCP cc ip port train) = CTCP cc ip port train \<longleftrightarrow> raw = train"
  by (auto simp: CTCP_copy_def CTCP_def)


section \<open>The handshake\<close>

text \<open>
  A sender without the address of its peer first waits for a packet from it: every receive of the first
  loop gives the value returned and the address in the packet, and the first packet ends the loop.
\<close>

fun punch_nat :: "(int \<times> string \<times> int) list \<Rightarrow> (string \<times> int) option" where
  "punch_nat [] = None"
| "punch_nat ((ret, ip, port) # evs) = (if ret > 0 then Some (ip, port) else punch_nat evs)"

text \<open>
  A pass of the second loop of \<open>tcp_handshake\<close>: the clock before sending, the header in the buffer
  after the receive (\<open>None\<close>: nothing came within 200 ms; the buffer is also looked at when the receive
  failed), the clock after receiving. The result is the measured RTT and whether the header
  was sent more than once.
\<close>

fun tcp_handshake_loop ::
  "(real \<times> tcp_header option \<times> real) list \<Rightarrow> real \<Rightarrow> bool \<Rightarrow> (real \<times> bool) option" where
  "tcp_handshake_loop [] last_send multi_send = None"
| "tcp_handshake_loop ((t0, rcv, t1) # evs) last_send multi_send =
     (let resend = (last_send < t0 - 200);
          multi' = (multi_send \<or> resend \<and> last_send \<noteq> - (10 ^ 9));
          last' = (if resend then t0 else last_send)
      in case rcv of None \<Rightarrow> tcp_handshake_loop evs last' multi'
         | Some h \<Rightarrow>
             if h_seq_num h \<noteq> - 1 \<or> h_flow_id h \<noteq> - 1 then tcp_handshake_loop evs last' multi'
             else if h_sender_timestamp h \<noteq> - 1 \<or> h_src_id h \<noteq> - 1 then tcp_handshake_loop evs last' multi'
             else Some (t1 - last', multi'))"

definition tcp_handshake ::
  "'c ccc \<Rightarrow> bool \<Rightarrow> (int \<times> string \<times> int) list \<Rightarrow> (real \<times> tcp_header option \<times> real) list \<Rightarrow> 'c ctcp
     \<Rightarrow> 'c ctcp res option" where
  "tcp_handshake C dir punches evs s =
     (case (if remote_ip s = ''0.0''
            then map_option (\<lambda>(ip, port). s\<lparr>remote_ip := ip, remote_port := port\<rparr>) (punch_nat punches)
            else Some s) of None \<Rightarrow> None
      | Some s1 \<Rightarrow>
          (case tcp_handshake_loop evs (- (10 ^ 9)) False of None \<Rightarrow> None
           | Some (rtt, multi_send) \<Rightarrow>
               Some (if \<not> multi_send then
                       bindE (cc_set_min_rtt C dir rtt (congctrl s1)) (\<lambda>cc. Inr (s1\<lparr>congctrl := cc\<rparr>))
                     else Inr s1)))"


section \<open>Sending\<close>

definition more_to_send :: "real \<Rightarrow> bool \<Rightarrow> 'c ctcp \<Rightarrow> bool" where
  "more_to_send flow_size byte_switched s \<longleftrightarrow>
     (if byte_switched then of_int (num_packets_transmitted s * data_size) else cur_time s) < flow_size"

text \<open>The condition of the loop that sends packets.\<close>

definition may_send :: "'c ccc \<Rightarrow> real \<Rightarrow> bool \<Rightarrow> 'c ctcp \<Rightarrow> bool" where
  "may_send C flow_size byte_switched s \<longleftrightarrow>
     (of_int (seq_num s) < of_int (largest_ack s) + 1 + 5 * cc_window C (congctrl s)
      \<and> last_send_time s + cc_intersend C (congctrl s) * of_int (train_length s) \<le> cur_time s
      \<and> more_to_send flow_size byte_switched s)
     \<or> seq_num s smod train_length s \<noteq> 0"

text \<open>One pass of that loop; \<open>clk\<close> gives the nanosecond clock for each packet.\<close>

definition send_packet ::
  "'c ccc \<Rightarrow> int \<Rightarrow> int \<Rightarrow> (int \<Rightarrow> u64) \<Rightarrow> 'c ctcp \<Rightarrow> tcp_header \<times> 'c ctcp" where
  "send_packet C fid sid clk s =
     (let hdr = \<lparr>h_seq_num = seq_num s, h_flow_id = fid, h_src_id = sid,
                 h_sender_timestamp = cur_time s, h_tx_timestamp = clk (seq_num s),
                 h_receiver_timestamp = 0, h_adjust_us = 0\<rparr>;
          s1 = s\<lparr>last_send_time := last_send_time s + cc_intersend C (congctrl s)\<rparr>;
          s2 = (if seq_num s smod train_length s = 0 then
                  s1\<lparr>congctrl := cc_onPktSent C (seq_num s sdiv train_length s)
                       (cc_set_timestamp C (cur_time s) (congctrl s1))\<rparr>
                else s1)
      in (hdr, s2\<lparr>seq_num := seq_num s2 + 1\<rparr>))"

fun send_burst ::
  "'c ccc \<Rightarrow> real \<Rightarrow> bool \<Rightarrow> int \<Rightarrow> int \<Rightarrow> (int \<Rightarrow> u64) \<Rightarrow> nat \<Rightarrow> 'c ctcp \<Rightarrow> (tcp_header list \<times> 'c ctcp) option" where
  "send_burst C flow_size byte_switched fid sid clk fuel s =
     (if may_send C flow_size byte_switched s then
        (case fuel of 0 \<Rightarrow> None
         | Suc fuel' \<Rightarrow>
             (case send_packet C fid sid clk s of (hdr, s1) \<Rightarrow>
                map_option (\<lambda>(hdrs, s2). (hdr # hdrs, s2))
                  (send_burst C flow_size byte_switched fid sid clk fuel' s1)))
      else Some ([], s))"

declare send_burst.simps [simp del]

definition burst_fuel :: "'c ccc \<Rightarrow> 'c ctcp \<Rightarrow> nat" where
  "burst_fuel C s = nat (max 0 (largest_ack s + 1 + \<lceil>5 * cc_window C (congctrl s)\<rceil> - seq_num s) + train_length s)"


section \<open>The main loop\<close>

text \<open>The directory is there by now: the controller was initialised before.\<close>

definition check_timeout :: "'c ccc \<Rightarrow> real \<Rightarrow> bool \<Rightarrow> 'c ctcp \<Rightarrow> 'c ctcp res" where
  "check_timeout C flow_size byte_switched s =
     (if cur_time s - last_ack_time s > 2000 \<and> more_to_send flow_size byte_switched s then
        bindE (cc_init C True (cc_set_timestamp C (cur_time s) (congctrl s))) (\<lambda>cc.
        Inr (s\<lparr>congctrl := cc, largest_ack := seq_num s - 1, last_send_time := cur_time s,
               last_ack_time := cur_time s\<rparr>))
      else Inr s)"

text \<open>
  After a burst: the empty probe packet (sequence number and flow \<open>-1\<close>), when pacing is hopeless.
\<close>

definition send_probe ::
  "'c ccc \<Rightarrow> int \<Rightarrow> u64 \<Rightarrow> 'c ctcp \<Rightarrow> tcp_header list \<times> 'c ctcp" where
  "send_probe C sid now_ns s =
     (if cur_time s - last_send_time s \<ge> cc_intersend C (congctrl s) * of_int (train_length s)
         \<or> of_int (seq_num s) \<ge> of_int (largest_ack s) + cc_window C (congctrl s) then
        ([\<lparr>h_seq_num = - 1, h_flow_id = - 1, h_src_id = sid, h_sender_timestamp = cur_time s,
           h_tx_timestamp = now_ns, h_receiver_timestamp = 0, h_adjust_us = 0\<rparr>],
         s\<lparr>last_send_time := cur_time s\<rparr>)
      else ([], s))"

text \<open>
  The limit for the receive, in milliseconds. It is handed over as an \<open>int\<close>; a negative one means no
  limit.
\<close>

definition recv_timeout :: "'c ccc \<Rightarrow> 'c ctcp \<Rightarrow> real" where
  "recv_timeout C s =
     (if cc_window C (congctrl s) > 0
      then min 1000 (last_send_time s + cc_intersend C (congctrl s) * of_int (train_length s) - cur_time s)
      else last_send_time s + 1000)"

definition update_link_rate :: "'c ccc \<Rightarrow> int \<Rightarrow> 'c ctcp \<Rightarrow> 'c ctcp" where
  "update_link_rate C ack_seq s =
     (let alpha = 1 / 16; gap = cur_time s - last_recv_time s;
          s1 = (if (ack_seq - 1) smod train_length s \<noteq> 0 \<and> last_recv_time s \<noteq> 0 then
                  (let est = (if link_rate_estimate s = 0 then gap
                              else (1 - alpha) * link_rate_estimate s + alpha * gap);
                       s' = s\<lparr>link_rate_estimate := est\<rparr>
                   in if ack_seq > 2 * train_length s
                      then s'\<lparr>congctrl := cc_onLinkRateMeasurement C (1000 / est) (congctrl s')\<rparr> else s')
                else s)
      in s1\<lparr>last_recv_time := cur_time s1\<rparr>)"

text \<open>An acknowledgement of this flow, received at \<open>cur_time\<close>; the sender adds 1 to its number.\<close>

definition handle_ack :: "'c ccc \<Rightarrow> tcp_header \<Rightarrow> 'c ctcp \<Rightarrow> 'c ctcp res" where
  "handle_ack C ack s =
     (let n = h_seq_num ack + 1; d = cur_time s - h_sender_timestamp ack;
          s1 = update_link_rate C n (s\<lparr>last_ack_time := cur_time s\<rparr>);
          s2 = s1\<lparr>delay_sum := delay_sum s1 + d, tot_delay := tot_delay s1 + d,
                  transmitted_bytes := transmitted_bytes s1 + data_size,
                  tot_bytes_transmitted := tot_bytes_transmitted s1 + data_size,
                  num_packets_transmitted := num_packets_transmitted s1 + 1,
                  tot_packets_transmitted := tot_packets_transmitted s1 + 1\<rparr>
      in bindE (if (n - 1) smod train_length s2 = 0 then
                  cc_onACK C (n sdiv train_length s2) (h_receiver_timestamp ack) (h_sender_timestamp ack)
                    (h_adjust_us ack) (cc_set_timestamp C (cur_time s2) (congctrl s2))
                else Inr (congctrl s2)) (\<lambda>cc.
         Inr (s2\<lparr>congctrl := cc, largest_ack := max (largest_ack s2) n\<rparr>)))"

text \<open>
  What the environment provides for one pass of the main loop: the clock at its top, after sending
  and after receiving, the packet clock, and the header in the buffer after the receive (\<open>None\<close>: the
  receive timed out; it is also looked at when the receive returned an error).
\<close>

record iteration =
  it_top :: real
  it_sent :: real
  it_recv :: real
  it_clk :: "int \<Rightarrow> u64"
  it_probe_clk :: u64
  it_header :: "tcp_header option"

text \<open>The first half of a pass, up to the receive: the packets sent and the new state.\<close>

definition send_phase ::
  "'c ccc \<Rightarrow> real \<Rightarrow> bool \<Rightarrow> int \<Rightarrow> int \<Rightarrow> iteration \<Rightarrow> 'c ctcp \<Rightarrow> (tcp_header list \<times> 'c ctcp) res option" where
  "send_phase C flow_size byte_switched fid sid it s1 =
     (case check_timeout C flow_size byte_switched s1 of
        Inl e \<Rightarrow> Some (Inl e)
      | Inr s2 \<Rightarrow>
          (case send_burst C flow_size byte_switched fid sid (it_clk it) (burst_fuel C s2) s2 of
             None \<Rightarrow> None
           | Some (hdrs, s3) \<Rightarrow>
               (case send_probe C sid (it_probe_clk it) s3 of (probes, s4) \<Rightarrow>
                  Some (Inr (hdrs @ probes, s4\<lparr>cur_time := it_sent it\<rparr>)))))"

text \<open>The second half: nothing received although the limit is negative means that the receive still waits.\<close>

definition recv_phase :: "'c ccc \<Rightarrow> int \<Rightarrow> int \<Rightarrow> iteration \<Rightarrow> 'c ctcp \<Rightarrow> 'c ctcp res option" where
  "recv_phase C fid sid it s5 =
     (case it_header it of
        None \<Rightarrow>
          if trunc_real (recv_timeout C s5) < 0 then None
          else
            let s6 = s5\<lparr>cur_time := it_recv it\<rparr>
            in Some (Inr (if cur_time s6 > last_send_time s6 + cc_timeout C (congctrl s6)
                          then s6\<lparr>congctrl := cc_onTimeout C (congctrl s6)\<rparr> else s6))
      | Some h \<Rightarrow>
          if h_src_id h \<noteq> sid \<or> h_flow_id h \<noteq> fid then Some (Inr s5)
          else Some (handle_ack C h (s5\<lparr>cur_time := it_recv it\<rparr>)))"

text \<open>A pass: the packets sent in it and the new state.\<close>

definition send_iteration ::
  "'c ccc \<Rightarrow> real \<Rightarrow> bool \<Rightarrow> int \<Rightarrow> int \<Rightarrow> iteration \<Rightarrow> 'c ctcp \<Rightarrow> (tcp_header list \<times> 'c ctcp) res option" where
  "send_iteration C flow_size byte_switched fid sid it s =
     (let s1 = s\<lparr>cur_time := it_top it\<rparr> in
      if cur_time s1 - last_ack_time s1 > 2000 \<and> \<not> more_to_send flow_size byte_switched s1
      then Some (Inr ([], s1))
      else
        case send_phase C flow_size byte_switched fid sid it s1 of
          None \<Rightarrow> None
        | Some (Inl e) \<Rightarrow> Some (Inl e)
        | Some (Inr (hdrs, s5)) \<Rightarrow>
            map_option (\<lambda>r. bindE r (\<lambda>s6. Inr (hdrs, s6))) (recv_phase C fid sid it s5))"

text \<open>The flow: initialisation, passes of the main loop while there is more to send, and the end.\<close>

definition start_flow :: "'c ccc \<Rightarrow> bool \<Rightarrow> bool \<Rightarrow> real \<Rightarrow> 'c ctcp \<Rightarrow> 'c ctcp res" where
  "start_flow C dir made now s =
     bindE (cc_init C dir (cc_set_timestamp C now (congctrl s))) (\<lambda>cc.
     bindE (guardE (dir \<or> made) NullDeref) (\<lambda>_.
     Inr (s\<lparr>seq_num := 0, largest_ack := - 1, link_rate_estimate := 0, last_recv_time := 0,
       delay_sum := 0, num_packets_transmitted := 0, transmitted_bytes := 0, cur_time := now,
       last_send_time := now, last_ack_time := now, congctrl := cc\<rparr>)))"

fun send_loop ::
  "'c ccc \<Rightarrow> real \<Rightarrow> bool \<Rightarrow> int \<Rightarrow> int \<Rightarrow> iteration list \<Rightarrow> 'c ctcp \<Rightarrow> (tcp_header list \<times> 'c ctcp) res option" where
  "send_loop C flow_size byte_switched fid sid [] s = Some (Inr ([], s))"
| "send_loop C flow_size byte_switched fid sid (it # its) s =
     (if \<not> more_to_send flow_size byte_switched s then Some (Inr ([], s))
      else
        case send_iteration C flow_size byte_switched fid sid it s of
          None \<Rightarrow> None
        | Some (Inl e) \<Rightarrow> Some (Inl e)
        | Some (Inr (hdrs, s1)) \<Rightarrow>
            map_option (\<lambda>r. bindE r (\<lambda>(hdrs', s2). Inr (hdrs @ hdrs', s2)))
              (send_loop C flow_size byte_switched fid sid its s1))"

definition end_flow :: "'c ccc \<Rightarrow> real \<Rightarrow> 'c ctcp \<Rightarrow> 'c ctcp" where
  "end_flow C now s = s\<lparr>cur_time := now, congctrl := cc_close C (cc_set_timestamp C now (congctrl s)),
     tot_time_transmitted := tot_time_transmitted s + now\<rparr>"

definition send_data ::
  "'c ccc \<Rightarrow> real \<Rightarrow> bool \<Rightarrow> int \<Rightarrow> int \<Rightarrow> bool \<Rightarrow> bool \<Rightarrow> (int \<times> string \<times> int) list
     \<Rightarrow> (real \<times> tcp_header option \<times> real) list \<Rightarrow> real \<Rightarrow> iteration list \<Rightarrow> real
     \<Rightarrow> 'c ctcp \<Rightarrow> (tcp_header list \<times> 'c ctcp) res option" where
  "send_data C flow_size byte_switched fid sid dir made punches handshake now its fin s =
     (case tcp_handshake C dir punches handshake s of None \<Rightarrow> None
      | Some (Inl e) \<Rightarrow> Some (Inl e)
      | Some (Inr s0) \<Rightarrow>
          (case start_flow C dir made now s0 of Inl e \<Rightarrow> Some (Inl e)
           | Inr s1 \<Rightarrow>
               map_option (\<lambda>r. bindE r (\<lambda>(hdrs, s2). Inr (hdrs, end_flow C fin s2)))
                 (send_loop C flow_size byte_switched fid sid its s1)))"


section \<open>Correctness of the sender over any controller\<close>

text \<open>Numbers of the data packets among the headers sent (the probe has number \<open>-1\<close>).\<close>

definition data_seqs :: "tcp_header list \<Rightarrow> int list" where
  "data_seqs hdrs = filter (\<lambda>n. n \<noteq> - 1) (map h_seq_num hdrs)"

lemma upto_step: "a \<le> b \<Longrightarrow> a # [a + 1..b] = [a..(b::int)]"
  by (simp add: upto_rec1)

definition train_end :: "int \<Rightarrow> int \<Rightarrow> int" where
  "train_end train n = - ((- n) div train) * train"

lemma train_end:
  assumes "0 < train"
  shows "n \<le> train_end train n" "train_end train n < n + train" "train_end train n mod train = 0"
proof -
  have "- n = (- n) div train * train + (- n) mod train" by simp
  moreover have "0 \<le> (- n) mod train" "(- n) mod train < train" using assms by simp_all
  ultimately show "n \<le> train_end train n" "train_end train n < n + train"
    unfolding train_end_def by linarith+
  show "train_end train n mod train = 0" by (simp add: train_end_def)
qed

definition sender_ok :: "(real \<Rightarrow> 'c \<Rightarrow> bool) \<Rightarrow> 'c ctcp \<Rightarrow> bool" where
  "sender_ok ok s \<longleftrightarrow> ok (cur_time s) (congctrl s) \<and> 0 < train_length s \<and> 0 \<le> seq_num s"

text \<open>
  An environment in which the clock does not run backwards and every acknowledgement of the flow
  echoes a time before it was received.
\<close>

definition iteration_ok :: "int \<Rightarrow> int \<Rightarrow> real \<Rightarrow> iteration \<Rightarrow> bool" where
  "iteration_ok fid sid now it \<longleftrightarrow> now \<le> it_top it \<and> it_top it \<le> it_sent it \<and> it_sent it \<le> it_recv it
     \<and> (\<forall>h. it_header it = Some h \<longrightarrow> h_src_id h = sid \<longrightarrow> h_flow_id h = fid \<longrightarrow>
          h_sender_timestamp h < it_recv it
          \<and> it_recv it - h_sender_timestamp h - of_int (h_adjust_us h) / 1000 \<le> DBL_MAX)"

text \<open>
  A pass that does not come back from its receive: nothing came, and the limit is a negative number of
  milliseconds; this takes sending for a millisecond or more, or a negative pacing.
\<close>

definition waits_forever :: "'c ccc \<Rightarrow> real \<Rightarrow> bool \<Rightarrow> int \<Rightarrow> int \<Rightarrow> iteration \<Rightarrow> 'c ctcp \<Rightarrow> bool" where
  "waits_forever C flow_size byte_switched fid sid it s \<longleftrightarrow>
     it_header it = None \<and>
     (case send_phase C flow_size byte_switched fid sid it (s\<lparr>cur_time := it_top it\<rparr>) of
        Some (Inr (hdrs, s5)) \<Rightarrow>
          recv_timeout C s5 \<le> - 1
          \<and> (1 \<le> it_sent it - it_top it \<or> cc_intersend C (congctrl s5) < 0)
      | _ \<Rightarrow> False)"

fun environment_ok :: "int \<Rightarrow> int \<Rightarrow> real \<Rightarrow> iteration list \<Rightarrow> bool" where
  "environment_ok fid sid now [] = True"
| "environment_ok fid sid now (it # its) =
     (iteration_ok fid sid now it \<and> environment_ok fid sid (it_recv it) its)"

context congestion_controller
begin

lemma send_packet_ok:
  assumes "sender_ok ok s" and "send_packet C fid sid clk s = (hdr, s')"
  shows "sender_ok ok s'" "h_seq_num hdr = seq_num s" "seq_num s' = seq_num s + 1"
    "largest_ack s' = largest_ack s" "train_length s' = train_length s" "cur_time s' = cur_time s"
    "last_ack_time s' = last_ack_time s"
    "cc_window C (congctrl s') = cc_window C (congctrl s)"
proof -
  have "ok (cur_time s) (cc_onPktSent C (seq_num s sdiv train_length s) (cc_set_timestamp C (cur_time s) (congctrl s)))"
    using assms(1) by (intro ok_onPktSent ok_set_timestamp [of "cur_time s"])
      (auto simp: sender_ok_def signed_divide_int_def sgn_if pos_imp_zdiv_nonneg_iff)
  then show "sender_ok ok s'" "h_seq_num hdr = seq_num s" "seq_num s' = seq_num s + 1"
    "largest_ack s' = largest_ack s" "train_length s' = train_length s" "cur_time s' = cur_time s"
    "last_ack_time s' = last_ack_time s"
    "cc_window C (congctrl s') = cc_window C (congctrl s)"
    using assms by (auto simp: send_packet_def sender_ok_def Let_def window_onPktSent window_set_timestamp)
qed

lemma send_burst_total:
  assumes "sender_ok ok s" and "S mod train_length s = 0" and "seq_num s \<le> S"
    and "largest_ack s + 1 + \<lceil>5 * cc_window C (congctrl s)\<rceil> \<le> S" and "S - seq_num s \<le> int fuel"
  shows "\<exists>hdrs s'. send_burst C flow_size bs fid sid clk fuel s = Some (hdrs, s') \<and> sender_ok ok s'
    \<and> seq_num s' \<le> S \<and> seq_num s \<le> seq_num s' \<and> map h_seq_num hdrs = [seq_num s..seq_num s' - 1]
    \<and> largest_ack s' = largest_ack s \<and> train_length s' = train_length s \<and> cur_time s' = cur_time s
    \<and> last_ack_time s' = last_ack_time s \<and> cc_window C (congctrl s') = cc_window C (congctrl s)"
  using assms
proof (induction fuel arbitrary: s)
  case 0
  then have "seq_num s = S" by simp
  then have "\<not> may_send C flow_size bs s"
    using 0 by (auto simp: may_send_def sender_ok_def smod_nonneg le_ceiling_iff) linarith
  then show ?case using 0 by (simp add: send_burst.simps)
next
  case (Suc fuel)
  show ?case
  proof (cases "may_send C flow_size bs s")
    case False
    then show ?thesis using Suc.prems by (simp add: send_burst.simps)
  next
    case True
    obtain hdr s1 where s1: "send_packet C fid sid clk s = (hdr, s1)" by fastforce
    note p = send_packet_ok [OF Suc.prems(1) s1]
    have "seq_num s \<noteq> S"
      using True Suc.prems by (auto simp: may_send_def sender_ok_def smod_nonneg le_ceiling_iff) linarith
    then have lt: "seq_num s < S" using Suc.prems(3) by simp
    obtain hdrs s' where r: "send_burst C flow_size bs fid sid clk fuel s1 = Some (hdrs, s')" "sender_ok ok s'"
      "seq_num s' \<le> S" "seq_num s1 \<le> seq_num s'" "map h_seq_num hdrs = [seq_num s1..seq_num s' - 1]"
      "largest_ack s' = largest_ack s1" "train_length s' = train_length s1" "cur_time s' = cur_time s1"
      "last_ack_time s' = last_ack_time s1" "cc_window C (congctrl s') = cc_window C (congctrl s1)"
      using Suc.IH [OF p(1)] Suc.prems lt by (auto simp: p)
    have "seq_num s # [seq_num s + 1..seq_num s' - 1] = [seq_num s..seq_num s' - 1]"
      using r(4) p(3) by (intro upto_step) simp
    then show ?thesis using True s1 r by (simp add: send_burst.simps [of _ _ _ _ _ _ "Suc fuel"] p)
  qed
qed

lemma send_burst_fuel:
  assumes "sender_ok ok s"
  shows "\<exists>hdrs s'. send_burst C flow_size bs fid sid clk (burst_fuel C s) s = Some (hdrs, s') \<and> sender_ok ok s'
    \<and> seq_num s' < max (seq_num s) (largest_ack s + 1 + \<lceil>5 * cc_window C (congctrl s)\<rceil>) + train_length s
    \<and> seq_num s \<le> seq_num s' \<and> map h_seq_num hdrs = [seq_num s..seq_num s' - 1]
    \<and> largest_ack s' = largest_ack s \<and> train_length s' = train_length s \<and> cur_time s' = cur_time s
    \<and> last_ack_time s' = last_ack_time s \<and> cc_window C (congctrl s') = cc_window C (congctrl s)"
proof -
  let ?m = "max (seq_num s) (largest_ack s + 1 + \<lceil>5 * cc_window C (congctrl s)\<rceil>)"
  have t: "0 < train_length s" using assms by (simp add: sender_ok_def)
  note e = train_end [OF t, of ?m]
  have "train_end (train_length s) ?m - seq_num s \<le> int (burst_fuel C s)"
    using e(2) t by (auto simp: burst_fuel_def)
  then show ?thesis
    using send_burst_total [OF assms e(3), of "burst_fuel C s" flow_size bs fid sid clk] e(1,2) by force
qed

lemma handle_ack_ok:
  assumes "sender_ok ok s" and "h_sender_timestamp h < cur_time s"
    and "cur_time s - h_sender_timestamp h - of_int (h_adjust_us h) / 1000 \<le> DBL_MAX"
  shows "\<exists>s'. handle_ack C h s = Inr s' \<and> sender_ok ok s' \<and> seq_num s' = seq_num s
    \<and> cur_time s' = cur_time s \<and> largest_ack s' = max (largest_ack s) (h_seq_num h + 1)"
proof -
  let ?n = "h_seq_num h + 1"
  define s1 where "s1 = update_link_rate C ?n (s\<lparr>last_ack_time := cur_time s\<rparr>)"
  have s1: "cur_time s1 = cur_time s" "seq_num s1 = seq_num s" "train_length s1 = train_length s"
    "largest_ack s1 = largest_ack s" "ok (cur_time s) (congctrl s1)"
    using assms(1) by (auto simp: s1_def update_link_rate_def Let_def sender_ok_def intro: ok_onLinkRate)
  show ?thesis
  proof (cases "h_seq_num h smod train_length s = 0")
    case True
    obtain cc where "cc_onACK C (?n sdiv train_length s) (h_receiver_timestamp h) (h_sender_timestamp h)
        (h_adjust_us h) (cc_set_timestamp C (cur_time s) (congctrl s1)) = Inr cc" "ok (cur_time s) cc"
      using ok_onACK [OF s1(5) order_refl assms(2,3)] by blast
    then show ?thesis
      using assms(1) s1 True by (simp add: handle_ack_def Let_def s1_def [symmetric] sender_ok_def)
  next
    case False
    then show ?thesis
      using assms(1) s1 by (simp add: handle_ack_def Let_def s1_def [symmetric] sender_ok_def)
  qed
qed

lemma check_timeout_ok:
  assumes "sender_ok ok s"
  shows "\<exists>s'. check_timeout C flow_size bs s = Inr s' \<and> sender_ok ok s' \<and> seq_num s' = seq_num s
    \<and> cur_time s' = cur_time s"
proof -
  have "ok (cur_time s) (cc_set_timestamp C (cur_time s) (congctrl s))"
    using assms by (auto simp: sender_ok_def intro: ok_set_timestamp)
  from ok_init [OF this] show ?thesis using assms by (auto simp: check_timeout_def sender_ok_def)
qed

lemma send_probe_ok:
  assumes "sender_ok ok s" and "send_probe C sid ns s = (hdrs, s')"
  shows "sender_ok ok s'" "seq_num s' = seq_num s" "cur_time s' = cur_time s" "data_seqs hdrs = []"
    and "0 \<le> cc_intersend C (congctrl s') \<Longrightarrow>
      cur_time s' \<le> last_send_time s' + cc_intersend C (congctrl s') * of_int (train_length s')"
  using assms by (auto simp: send_probe_def sender_ok_def data_seqs_def split: if_splits)

lemma sender_ok_later: "sender_ok ok s \<Longrightarrow> cur_time s \<le> t \<Longrightarrow> sender_ok ok (s\<lparr>cur_time := t\<rparr>)"
  by (auto simp: sender_ok_def intro: ok_mono)

lemma data_seqs_burst:
  "0 \<le> a \<Longrightarrow> map h_seq_num hdrs = [a..b] \<Longrightarrow> data_seqs hdrs = [a..b]"
  by (auto simp: data_seqs_def intro: filter_True)

lemma data_seqs_append: "data_seqs (xs @ ys) = data_seqs xs @ data_seqs ys"
  by (simp add: data_seqs_def)

lemma send_phase_ok:
  assumes "sender_ok ok s" and "cur_time s = it_top it" and "it_top it \<le> it_sent it"
  shows "\<exists>hdrs s'. send_phase C flow_size bs fid sid it s = Some (Inr (hdrs, s')) \<and> sender_ok ok s'
    \<and> cur_time s' = it_sent it \<and> seq_num s \<le> seq_num s' \<and> data_seqs hdrs = [seq_num s..seq_num s' - 1]
    \<and> (0 \<le> cc_intersend C (congctrl s') \<longrightarrow> it_top it - it_sent it \<le> recv_timeout C s')"
proof -
  obtain s2 where s2: "check_timeout C flow_size bs s = Inr s2" "sender_ok ok s2" "seq_num s2 = seq_num s"
    "cur_time s2 = cur_time s"
    using check_timeout_ok [OF assms(1)] by blast
  obtain hdrs s3 where s3: "send_burst C flow_size bs fid sid (it_clk it) (burst_fuel C s2) s2 = Some (hdrs, s3)"
    "sender_ok ok s3" "seq_num s2 \<le> seq_num s3" "map h_seq_num hdrs = [seq_num s2..seq_num s3 - 1]"
    "cur_time s3 = cur_time s2"
    using send_burst_fuel [OF s2(2)] by blast
  obtain probes s4 where p: "send_probe C sid (it_probe_clk it) s3 = (probes, s4)" by fastforce
  note s4 = send_probe_ok [OF s3(2) p]
  define s5 where "s5 = s4\<lparr>cur_time := it_sent it\<rparr>"
  have "cur_time s4 \<le> it_sent it" using s4(3) s3(5) s2(4) assms(2,3) by simp
  then have s5: "sender_ok ok s5" "seq_num s5 = seq_num s3" "cur_time s5 = it_sent it"
    using sender_ok_later [OF s4(1), of "it_sent it"] s4(2) by (simp_all add: s5_def)
  have "0 \<le> seq_num s" using assms(1) by (simp add: sender_ok_def)
  then have seqs: "data_seqs (hdrs @ probes) = [seq_num s..seq_num s5 - 1]" "seq_num s \<le> seq_num s5"
    using data_seqs_burst [of "seq_num s2" hdrs] s2 s3 s4(4) s5(2) by (auto simp: data_seqs_append)
  have "0 < cc_window C (congctrl s4)"
    using window_ge_1 [of "cur_time s4" "congctrl s4"] s4(1) by (simp add: sender_ok_def)
  then have "it_top it - it_sent it \<le> recv_timeout C s5" if "0 \<le> cc_intersend C (congctrl s5)"
    using s4(3,5) s3(5) s2(4) assms(2,3) that by (simp add: recv_timeout_def s5_def)
  moreover have "send_phase C flow_size bs fid sid it s = Some (Inr (hdrs @ probes, s5))"
    by (simp add: send_phase_def s2(1) s3(1) p s5_def)
  ultimately show ?thesis using s5 seqs by blast
qed

lemma trunc_real_neg_iff: "trunc_real x < 0 \<longleftrightarrow> x \<le> - 1"
  by (auto simp: trunc_real_def ceiling_less_iff not_less)

lemma recv_phase_ok:
  assumes "sender_ok ok s" and "cur_time s = it_sent it" and "iteration_ok fid sid now it"
    and "it_header it = None \<Longrightarrow> \<not> recv_timeout C s \<le> - 1"
  shows "\<exists>s'. recv_phase C fid sid it s = Some (Inr s') \<and> sender_ok ok s' \<and> cur_time s' \<le> it_recv it
    \<and> seq_num s' = seq_num s"
proof -
  define s6 where "s6 = s\<lparr>cur_time := it_recv it\<rparr>"
  have s6: "sender_ok ok s6" "seq_num s6 = seq_num s" "cur_time s6 = it_recv it"
    using sender_ok_later [OF assms(1), of "it_recv it"] assms(2,3) by (auto simp: s6_def iteration_ok_def)
  show ?thesis
  proof (cases "it_header it")
    case None
    then show ?thesis
      using s6 assms(4) by (auto simp: recv_phase_def trunc_real_neg_iff s6_def [symmetric] Let_def)
        (auto simp: sender_ok_def intro: ok_onTimeout)
  next
    case (Some h)
    show ?thesis
    proof (cases "h_src_id h \<noteq> sid \<or> h_flow_id h \<noteq> fid")
      case True
      then show ?thesis using Some assms(1-3) by (auto simp: recv_phase_def iteration_ok_def)
    next
      case False
      then obtain s7 where "handle_ack C h s6 = Inr s7" "sender_ok ok s7" "seq_num s7 = seq_num s6"
        "cur_time s7 = cur_time s6"
        using handle_ack_ok [OF s6(1), of h] assms(3) Some s6(3) by (auto simp: iteration_ok_def)
      then show ?thesis using Some False s6 by (auto simp: recv_phase_def s6_def [symmetric])
    qed
  qed
qed

lemma send_iteration_ok:
  assumes "sender_ok ok s" and env: "iteration_ok fid sid (cur_time s) it"
  shows "(\<exists>hdrs s'. send_iteration C flow_size bs fid sid it s = Some (Inr (hdrs, s')) \<and> sender_ok ok s'
      \<and> cur_time s' \<le> it_recv it \<and> seq_num s \<le> seq_num s' \<and> data_seqs hdrs = [seq_num s..seq_num s' - 1])
    \<or> send_iteration C flow_size bs fid sid it s = None \<and> waits_forever C flow_size bs fid sid it s"
proof -
  define s1 where "s1 = s\<lparr>cur_time := it_top it\<rparr>"
  have s1: "sender_ok ok s1" "seq_num s1 = seq_num s" "cur_time s1 = it_top it"
    using assms sender_ok_later [of s "it_top it"] by (auto simp: s1_def iteration_ok_def)
  show ?thesis
  proof (cases "cur_time s1 - last_ack_time s1 > 2000 \<and> \<not> more_to_send flow_size bs s1")
    case True
    then show ?thesis
      using s1 env by (auto simp: send_iteration_def Let_def s1_def [symmetric] data_seqs_def iteration_ok_def)
  next
    case False
    have "it_top it \<le> it_sent it" using env by (simp add: iteration_ok_def)
    then obtain hdrs s5 where s5: "send_phase C flow_size bs fid sid it s1 = Some (Inr (hdrs, s5))"
      "sender_ok ok s5" "cur_time s5 = it_sent it" "seq_num s1 \<le> seq_num s5"
      "data_seqs hdrs = [seq_num s1..seq_num s5 - 1]"
      "0 \<le> cc_intersend C (congctrl s5) \<Longrightarrow> it_top it - it_sent it \<le> recv_timeout C s5"
      using send_phase_ok [OF s1(1,3)] by blast
    have step: "send_iteration C flow_size bs fid sid it s
        = map_option (\<lambda>r. bindE r (\<lambda>s6. Inr (hdrs, s6))) (recv_phase C fid sid it s5)"
      using False by (simp add: send_iteration_def Let_def s1_def [symmetric] s5(1) if_not_P [OF False])
    show ?thesis
    proof (cases "it_header it = None \<and> recv_timeout C s5 \<le> - 1")
      case True
      then have "1 \<le> it_sent it - it_top it \<or> cc_intersend C (congctrl s5) < 0" using s5(6) by linarith
      then have "waits_forever C flow_size bs fid sid it s"
        using True s5(1) by (simp add: waits_forever_def s1_def [symmetric])
      moreover have "recv_phase C fid sid it s5 = None"
        using True by (simp add: recv_phase_def trunc_real_neg_iff)
      ultimately show ?thesis by (simp add: step)
    next
      case False
      then obtain s6 where "recv_phase C fid sid it s5 = Some (Inr s6)" "sender_ok ok s6"
        "cur_time s6 \<le> it_recv it" "seq_num s6 = seq_num s5"
        using recv_phase_ok [OF s5(2,3) env] by blast
      then show ?thesis using s5 s1 by (simp add: step)
    qed
  qed
qed

lemma environment_ok_earlier: "environment_ok fid sid t its \<Longrightarrow> t' \<le> t \<Longrightarrow> environment_ok fid sid t' its"
  by (cases its) (auto simp: iteration_ok_def)

text \<open>
  The loop handles all its passes, or it hangs in the receive of one of them and handled those before.
\<close>

lemma send_loop_ok:
  assumes "sender_ok ok s" and "environment_ok fid sid (cur_time s) its"
  shows "(\<exists>hdrs s'. send_loop C flow_size bs fid sid its s = Some (Inr (hdrs, s')) \<and> sender_ok ok s'
      \<and> seq_num s \<le> seq_num s' \<and> data_seqs hdrs = [seq_num s..seq_num s' - 1])
    \<or> send_loop C flow_size bs fid sid its s = None
      \<and> (\<exists>pre it post hdrs s'. its = pre @ it # post
        \<and> send_loop C flow_size bs fid sid pre s = Some (Inr (hdrs, s')) \<and> sender_ok ok s'
        \<and> seq_num s \<le> seq_num s' \<and> data_seqs hdrs = [seq_num s..seq_num s' - 1]
        \<and> waits_forever C flow_size bs fid sid it s')"
  using assms
proof (induction its arbitrary: s)
  case Nil
  then show ?case by (simp add: data_seqs_def)
next
  case (Cons it its)
  show ?case
  proof (cases "more_to_send flow_size bs s")
    case False
    then show ?thesis using Cons.prems by (simp add: data_seqs_def)
  next
    case True
    consider (waits) "send_iteration C flow_size bs fid sid it s = None" "waits_forever C flow_size bs fid sid it s"
      | (goes_on) hdrs s1 where "send_iteration C flow_size bs fid sid it s = Some (Inr (hdrs, s1))" "sender_ok ok s1"
      "cur_time s1 \<le> it_recv it" "seq_num s \<le> seq_num s1" "data_seqs hdrs = [seq_num s..seq_num s1 - 1]"
      using send_iteration_ok [OF Cons.prems(1), of fid sid it flow_size bs] Cons.prems(2) by auto
    then show ?thesis
    proof cases
      case waits
      have "send_loop C flow_size bs fid sid [] s = Some (Inr ([], s))" "data_seqs [] = [seq_num s..seq_num s - 1]"
        by (simp_all add: data_seqs_def)
      then show ?thesis using True waits Cons.prems(1) by (intro disjI2) (auto intro!: exI [of _ "[]"])
    next
      case goes_on
      note upto = upto_split1 [of "seq_num s" "seq_num s1"]
      have join: "data_seqs (hdrs @ hdrs') = [seq_num s..n - 1]"
        if "data_seqs hdrs' = [seq_num s1..n - 1]" "seq_num s1 \<le> n" for hdrs' n
        using upto_split1 [of "seq_num s" "seq_num s1" "n - 1"] that goes_on(4,5)
        by (cases "seq_num s1 = n") (auto simp: data_seqs_append)
      have more: "send_loop C flow_size bs fid sid (it # xs) s
          = map_option (\<lambda>r. bindE r (\<lambda>(hdrs', s2). Inr (hdrs @ hdrs', s2))) (send_loop C flow_size bs fid sid xs s1)"
        for xs using True goes_on(1) by simp
      have env: "environment_ok fid sid (cur_time s1) its"
        using Cons.prems(2) environment_ok_earlier [OF _ goes_on(3)] by simp
      consider (all) hdrs' s2 where "send_loop C flow_size bs fid sid its s1 = Some (Inr (hdrs', s2))"
          "sender_ok ok s2" "seq_num s1 \<le> seq_num s2" "data_seqs hdrs' = [seq_num s1..seq_num s2 - 1]"
        | (hangs) pre x post hdrs' s2 where "send_loop C flow_size bs fid sid its s1 = None" "its = pre @ x # post"
          "send_loop C flow_size bs fid sid pre s1 = Some (Inr (hdrs', s2))"
          "sender_ok ok s2" "seq_num s1 \<le> seq_num s2" "data_seqs hdrs' = [seq_num s1..seq_num s2 - 1]"
          "waits_forever C flow_size bs fid sid x s2"
        using Cons.IH [OF goes_on(2) env] by blast
      then show ?thesis
      proof cases
        case all
        then show ?thesis using goes_on(4) join more [of its] by (simp add: data_seqs_append)
      next
        case hangs
        have "send_loop C flow_size bs fid sid (it # pre) s = Some (Inr (hdrs @ hdrs', s2))"
          using more [of pre] hangs(3) by simp
        moreover have "it # its = (it # pre) @ x # post" using hangs(2) by simp
        moreover have "send_loop C flow_size bs fid sid (it # its) s = None" using more [of its] hangs(1) by simp
        ultimately show ?thesis using goes_on(4) join hangs(4-7) by (meson order_trans)
      qed
    qed
  qed
qed

end


section \<open>Properties of the sender with Copa and with the TCP controller\<close>


lemma tcp_handshake_ok:
  assumes "congestion_controller C ok" and "ok t (congctrl s)" and "tcp_handshake C True punches evs s = Some r"
  shows "\<exists>s1. r = Inr s1 \<and> ok t (congctrl s1) \<and> train_length s1 = train_length s"
proof -
  have ok: "ok t (congctrl s) \<Longrightarrow> \<exists>c. cc_set_min_rtt C True x (congctrl s) = Inr c \<and> ok t c" for s x
    by (rule congestion_controller.ok_set_min_rtt [OF assms(1)])
  let ?addr = "if remote_ip s = ''0.0''
    then map_option (\<lambda>(ip, port). s\<lparr>remote_ip := ip, remote_port := port\<rparr>) (punch_nat punches) else Some s"
  obtain s1 where s1: "?addr = Some s1" using assms(3) by (cases ?addr) (auto simp: tcp_handshake_def)
  obtain rtt multi where l: "tcp_handshake_loop evs (- (10 ^ 9)) False = Some (rtt, multi)"
    using assms(3) s1 by (cases "tcp_handshake_loop evs (- (10 ^ 9)) False") (auto simp: tcp_handshake_def)
  have same: "congctrl s1 = congctrl s" "train_length s1 = train_length s" using s1 by (auto split: if_splits)
  have "Some (if \<not> multi then bindE (cc_set_min_rtt C True rtt (congctrl s1)) (\<lambda>cc. Inr (s1\<lparr>congctrl := cc\<rparr>))
       else Inr s1) = Some r"
    using assms(3) unfolding tcp_handshake_def s1 l by simp
  then show ?thesis using ok [of s1 rtt] assms(2) same by (cases multi) auto
qed

text \<open>
  C8. A burst of the sender ends, whatever the pacing: the fuel given to the inner loop suffices. It
  sends packets with consecutive numbers, and at most five windows (and the rest of a packet train)
  beyond the acknowledged ones.
\<close>

theorem copa_burst_bounded:
  assumes "sender_ok copa_good s"
  shows "\<exists>hdrs s'. send_burst copa_ccc flow_size byte_switched fid sid clk (burst_fuel copa_ccc s) s
      = Some (hdrs, s')
    \<and> map h_seq_num hdrs = [seq_num s..seq_num s' - 1]
    \<and> seq_num s' < max (seq_num s) (largest_ack s + 1 + \<lceil>5 * the_window (congctrl s)\<rceil>) + train_length s"
  using copa.send_burst_fuel [OF assms, of flow_size byte_switched fid sid clk]
  by (auto simp: copa_ccc_def)


text \<open>A Copa controller configured with slow start is good.\<close>

lemma copa_good_start: "0 < d \<Longrightarrow> copa_good 0 ((MarkovianCC d fid)\<lparr>do_slow_start := True\<rparr>)"
  using copa_ok_MarkovianCC [of d fid] by (simp add: copa_good_def copa_ok_def) (simp add: MarkovianCC_def)

theorem copa_burst_bounded_witness:
  "\<exists>hdrs s'. send_burst copa_ccc 1 False 0 0 (\<lambda>n. 0)
     (burst_fuel copa_ccc (CTCP ((MarkovianCC 1 1)\<lparr>do_slow_start := True\<rparr>) ''10.0.0.1'' 9004 1))
     (CTCP ((MarkovianCC 1 1)\<lparr>do_slow_start := True\<rparr>) ''10.0.0.1'' 9004 1) = Some (hdrs, s')"
proof -
  have "sender_ok copa_good (CTCP ((MarkovianCC 1 1)\<lparr>do_slow_start := True\<rparr>) ''10.0.0.1'' 9004 1)"
    using copa_good_start [of 1 1] by (simp add: sender_ok_def CTCP_def)
  from copa_burst_bounded [OF this] show ?thesis by blast
qed




section \<open>The receive without a limit\<close>

lemma tcp_burst_unpaced:
  assumes "send_burst default_ccc flow_size bs fid sid clk fuel s = Some (hdrs, s')" and "d_intersend (congctrl s) = 0"
  shows "last_send_time s' = last_send_time s \<and> congctrl s' = congctrl s \<and> cur_time s' = cur_time s"
  using assms
proof (induction fuel arbitrary: s hdrs)
  case 0
  then show ?case by (simp add: send_burst.simps split: if_splits)
next
  case (Suc fuel)
  show ?case
  proof (cases "may_send default_ccc flow_size bs s")
    case False
    then show ?thesis using Suc.prems by (simp add: send_burst.simps)
  next
    case True
    obtain hdr s1 where s1: "send_packet default_ccc fid sid clk s = (hdr, s1)" by fastforce
    then have same: "congctrl s1 = congctrl s" "last_send_time s1 = last_send_time s" "cur_time s1 = cur_time s"
      using Suc.prems(2) by (auto simp: send_packet_def Let_def default_ccc_def)
    obtain hdrs' where "send_burst default_ccc flow_size bs fid sid clk fuel s1 = Some (hdrs', s')"
      using Suc.prems(1) True by (subst (asm) send_burst.simps) (auto simp: s1)
    from Suc.IH [OF this] show ?thesis using same Suc.prems(2) by simp
  qed
qed

text \<open>
  With UDT's TCP controller, which does not pace, a sender with more to send never comes back from a
  pass exactly when its sending took a millisecond or more and nothing arrives: the limit of the
  receive is then the negative of that time, which the socket takes for no limit at all. (A limit of
  less than a millisecond is cut to 0 and only polls.)
\<close>

theorem tcp_slow_pass_hangs:
  assumes "sender_ok default_ok s" and "iteration_ok fid sid (cur_time s) it"
    and "d_intersend (congctrl s) = 0" and "last_send_time s \<le> it_top it"
    and "more_to_send flow_size byte_switched (s\<lparr>cur_time := it_top it\<rparr>)"
  shows "send_iteration default_ccc flow_size byte_switched fid sid it s = None
    \<longleftrightarrow> it_header it = None \<and> 1 \<le> it_sent it - it_top it"
proof -
  define s1 where "s1 = s\<lparr>cur_time := it_top it\<rparr>"
  have s1: "sender_ok default_ok s1" "cur_time s1 = it_top it"
    using assms(1,2) default_cc.sender_ok_later [of s "it_top it"] by (auto simp: s1_def iteration_ok_def)
  obtain s2 where s2: "check_timeout default_ccc flow_size byte_switched s1 = Inr s2" "sender_ok default_ok s2"
    "cur_time s2 = it_top it"
    using default_cc.check_timeout_ok [OF s1(1)] s1(2) by metis
  then have p2: "d_intersend (congctrl s2) = 0" "last_send_time s2 \<le> it_top it"
    using assms(3,4) by (auto simp: check_timeout_def s1_def default_ccc_def d_init_def setRTO_def split: if_splits)
  obtain hdrs s3 where s3: "send_burst default_ccc flow_size byte_switched fid sid (it_clk it)
      (burst_fuel default_ccc s2) s2 = Some (hdrs, s3)" "sender_ok default_ok s3"
    using default_cc.send_burst_fuel [OF s2(2)] by blast
  note p3 = tcp_burst_unpaced [OF s3(1) p2(1)]
  obtain probes s4 where p: "send_probe default_ccc sid (it_probe_clk it) s3 = (probes, s4)" by fastforce
  then have p4: "last_send_time s4 = it_top it" "congctrl s4 = congctrl s3" "train_length s4 = train_length s3"
    using p3 p2 s2(3) by (auto simp: send_probe_def default_ccc_def split: if_splits)
  define s5 where "s5 = s4\<lparr>cur_time := it_sent it\<rparr>"
  have "1 \<le> d_window (congctrl s3)" using s3(2) by (simp add: sender_ok_def default_ok_def)
  then have limit: "recv_timeout default_ccc s5 = min 1000 (it_top it - it_sent it)"
    using p4 p3 p2(1) by (simp add: s5_def recv_timeout_def default_ccc_def)
  have "send_iteration default_ccc flow_size byte_switched fid sid it s = None
      \<longleftrightarrow> recv_phase default_ccc fid sid it s5 = None"
    using assms(5) by (simp add: send_iteration_def send_phase_def Let_def s1_def [symmetric] s2(1) s3(1) p s5_def)
  also have "\<dots> \<longleftrightarrow> it_header it = None \<and> 1 \<le> it_sent it - it_top it"
    by (auto simp: recv_phase_def limit default_cc.trunc_real_neg_iff Let_def split: option.splits)
  finally show ?thesis .
qed

text \<open>A pass that sends for two milliseconds and then receives nothing.\<close>

definition slow_pass :: iteration where
  "slow_pass = \<lparr>it_top = 0, it_sent = 2, it_recv = 3, it_clk = (\<lambda>n. 0), it_probe_clk = 0,
     it_header = None\<rparr>"

theorem tcp_slow_pass_hangs_witness:
  "\<exists>s0. start_flow default_ccc True False 0 (CTCP DefaultCC ''10.0.0.1'' 9004 1) = Inr s0
    \<and> send_iteration default_ccc 1000 False 0 0 slow_pass s0 = None"
proof -
  define s0 where "s0 = CTCP (d_init DefaultCC) ''10.0.0.1'' 9004 1"
  have "start_flow default_ccc True False 0 (CTCP DefaultCC ''10.0.0.1'' 9004 1) = Inr s0"
    by (simp add: start_flow_def default_ccc_def CTCP_def s0_def)
  moreover have "send_iteration default_ccc 1000 False 0 0 slow_pass s0 = None"
    using tcp_slow_pass_hangs [of s0 0 0 slow_pass 1000 False]
    by (simp add: s0_def CTCP_def slow_pass_def sender_ok_def default_ok_def d_init_def setRTO_def
        DefaultCC_def iteration_ok_def more_to_send_def)
  ultimately show ?thesis by simp
qed

end
