(* ===== verification/Remy_Memory.thy ===== *)
theory Remy_Memory
  imports Prelude
begin

text \<open>
  Model of \<open>src/packet.hh\<close>, \<open>src/memory-default.hh\<close>, \<open>src/memory-default.cc\<close> (the congestion signals
  of a Remy sender) and of \<open>src/memoryrange.hh\<close>, \<open>src/memoryrange.cc\<close> (half-open boxes of signals).
  A division by a minimum RTT of zero, which yields an infinity or NaN in C++, is the failure
  \<open>DivByZero\<close>. The median estimator of the Boost library is the parameter \<open>median\<close>, a function of the
  samples that were tracked on an axis.
\<close>


section \<open>Packets and signals\<close>

record packet =
  src :: u32
  flow_id :: u32
  tick_sent :: real
  tick_received :: real
  receiver_timestamp :: real
  pk_seq_num :: int

definition Packet :: "u32 \<Rightarrow> u32 \<Rightarrow> real \<Rightarrow> int \<Rightarrow> packet" where
  "Packet s_src s_flow_id s_tick_sent s_seq_num = \<lparr>src = s_src, flow_id = s_flow_id,
     tick_sent = s_tick_sent, tick_received = - 1, receiver_timestamp = - 1, pk_seq_num = s_seq_num\<rparr>"

record memory =
  rec_send_ewma :: real
  rec_rec_ewma :: real
  rtt_ratio :: real
  slow_rec_rec_ewma :: real
  loss_rate :: real
  last_tick_sent :: real
  last_tick_received :: real
  last_receiver_timestamp :: real
  mem_min_rtt :: real
  rtt_estimate :: real
  mem_largest_ack :: int

definition Memory :: "real \<Rightarrow> real \<Rightarrow> real \<Rightarrow> real \<Rightarrow> memory" where
  "Memory a b c d = \<lparr>rec_send_ewma = a, rec_rec_ewma = b, rtt_ratio = c, slow_rec_rec_ewma = d,
     loss_rate = 0, last_tick_sent = 0, last_tick_received = 0, last_receiver_timestamp = 0,
     mem_min_rtt = 0, rtt_estimate = 0, mem_largest_ack = 0\<rparr>"

definition MAX_MEMORY :: memory where
  "MAX_MEMORY = Memory 163840 163840 163840 163840"

text \<open>\<open>reset\<close> leaves \<open>last_receiver_timestamp\<close> alone.\<close>

definition Memory_default :: memory where
  "Memory_default = \<lparr>rec_send_ewma = 0, rec_rec_ewma = 0, rtt_ratio = 0, slow_rec_rec_ewma = 0,
     loss_rate = 0, last_tick_sent = 0, last_tick_received = 0, last_receiver_timestamp = 0,
     mem_min_rtt = 0, rtt_estimate = 0, mem_largest_ack = 0\<rparr>"

lemma Memory_default_eq [simp]: "Memory_default = Memory 0 0 0 0"
  by (simp add: Memory_default_def Memory_def)

definition mem_reset :: "memory \<Rightarrow> memory" where
  "mem_reset m = m\<lparr>rec_send_ewma := 0, rec_rec_ewma := 0, rtt_ratio := 0, slow_rec_rec_ewma := 0,
     loss_rate := 0, last_tick_sent := 0, last_tick_received := 0, mem_min_rtt := 0, rtt_estimate := 0,
     mem_largest_ack := 0\<rparr>"

definition field :: "memory \<Rightarrow> nat \<Rightarrow> real" where
  "field m num = (if num = 0 then rec_send_ewma m else if num = 1 then rec_rec_ewma m
     else if num = 2 then rtt_ratio m else slow_rec_rec_ewma m)"

definition set_field :: "nat \<Rightarrow> real \<Rightarrow> memory \<Rightarrow> memory" where
  "set_field num v m = (if num = 0 then m\<lparr>rec_send_ewma := v\<rparr> else if num = 1 then m\<lparr>rec_rec_ewma := v\<rparr>
     else if num = 2 then m\<lparr>rtt_ratio := v\<rparr> else m\<lparr>slow_rec_rec_ewma := v\<rparr>)"

definition mem_ge :: "memory \<Rightarrow> memory \<Rightarrow> bool" where
  "mem_ge m other \<longleftrightarrow> rec_send_ewma m \<ge> rec_send_ewma other \<and> rec_rec_ewma m \<ge> rec_rec_ewma other
     \<and> rtt_ratio m \<ge> rtt_ratio other \<and> slow_rec_rec_ewma m \<ge> slow_rec_rec_ewma other"

definition mem_less :: "memory \<Rightarrow> memory \<Rightarrow> bool" where
  "mem_less m other \<longleftrightarrow> rec_send_ewma m < rec_send_ewma other \<and> rec_rec_ewma m < rec_rec_ewma other
     \<and> rtt_ratio m < rtt_ratio other \<and> slow_rec_rec_ewma m < slow_rec_rec_ewma other"

text \<open>The operator \<open>==\<close> compares \<open>_rec_rec_ewma\<close> with itself.\<close>

definition mem_eq :: "memory \<Rightarrow> memory \<Rightarrow> bool" where
  "mem_eq m other \<longleftrightarrow> rec_send_ewma m = rec_send_ewma other \<and> rec_rec_ewma m = rec_rec_ewma m
     \<and> rtt_ratio m = rtt_ratio other \<and> slow_rec_rec_ewma m = slow_rec_rec_ewma other"


section \<open>Updating the signals\<close>

abbreviation alpha :: real where "alpha \<equiv> 1 / 8"

abbreviation slow_alpha :: real where "slow_alpha \<equiv> 1 / 256"

definition update_ewmas :: "real \<Rightarrow> packet \<Rightarrow> memory \<Rightarrow> memory" where
  "update_ewmas factor x m =
     m\<lparr>rec_send_ewma := (1 - alpha) * rec_send_ewma m + alpha * (tick_sent x - last_tick_sent m) * factor,
       rec_rec_ewma := (1 - alpha) * rec_rec_ewma m
                       + alpha * (receiver_timestamp x - last_receiver_timestamp m) * factor,
       slow_rec_rec_ewma := (1 - slow_alpha) * slow_rec_rec_ewma m
                            + slow_alpha * (receiver_timestamp x - last_receiver_timestamp m) * factor,
       last_tick_sent := tick_sent x, last_tick_received := tick_received x,
       last_receiver_timestamp := receiver_timestamp x\<rparr>"

definition packet_received :: "real \<Rightarrow> packet \<Rightarrow> memory \<Rightarrow> memory res" where
  "packet_received factor x m =
     (let rtt = tick_received x - tick_sent x in
      bindE
        (if last_tick_sent m = 0 \<or> last_tick_received m = 0 then
           Inr (m\<lparr>last_tick_sent := tick_sent x, last_tick_received := tick_received x,
                  last_receiver_timestamp := receiver_timestamp x, mem_min_rtt := rtt, rtt_estimate := rtt\<rparr>)
         else
           let m1 = (if pk_seq_num x - 1 = mem_largest_ack m then update_ewmas factor x m else m);
               mr = min (mem_min_rtt m1) rtt
           in if mr = 0 then Inl DivByZero
              else bindE (guardE (rtt / mr \<ge> 1) AssertFailed) (\<lambda>_.
                   Inr (m1\<lparr>mem_min_rtt := mr, rtt_ratio := rtt / mr,
                           rtt_estimate := (1 - alpha) * rtt_estimate m1 + alpha * rtt\<rparr>)))
        (\<lambda>m2. Inr (m2\<lparr>mem_largest_ack := max (mem_largest_ack m2) (pk_seq_num x)\<rparr>)))"

definition mem_packets_received :: "packet list \<Rightarrow> u32 \<Rightarrow> real \<Rightarrow> memory \<Rightarrow> memory res" where
  "mem_packets_received packets fid factor m =
     for_each (\<lambda>x m. if flow_id x \<noteq> fid then Inr m else packet_received factor x m) packets m"


section \<open>Ranges of signals\<close>

abbreviation datasize :: nat where "datasize \<equiv> 4"

record memory_range =
  mr_lower :: memory
  mr_upper :: memory
  mr_acc :: "real list list"
  mr_count :: u32

definition MemoryRange :: "memory \<Rightarrow> memory \<Rightarrow> memory_range" where
  "MemoryRange l u = \<lparr>mr_lower = l, mr_upper = u, mr_acc = replicate datasize [], mr_count = 0\<rparr>"

definition contains :: "memory_range \<Rightarrow> memory \<Rightarrow> bool" where
  "contains r query \<longleftrightarrow> mem_ge query (mr_lower r) \<and> mem_less query (mr_upper r)"

definition mr_use :: "memory_range \<Rightarrow> memory_range" where
  "mr_use r = r\<lparr>mr_count := mr_count r + 1\<rparr>"

definition mr_reset_count :: "memory_range \<Rightarrow> memory_range" where
  "mr_reset_count r = r\<lparr>mr_count := 0\<rparr>"

definition track :: "memory \<Rightarrow> memory_range \<Rightarrow> memory_range" where
  "track query r = r\<lparr>mr_acc := map2 (\<lambda>acc i. acc @ [field query i]) (mr_acc r) [0..<datasize]\<rparr>"

definition mr_eq :: "memory_range \<Rightarrow> memory_range \<Rightarrow> bool" where
  "mr_eq r other \<longleftrightarrow> mem_eq (mr_lower r) (mr_lower other) \<and> mem_eq (mr_upper r) (mr_upper other)"

definition range_median :: "memory_range \<Rightarrow> memory" where
  "range_median r =
     fold (\<lambda>i m. set_field i ((field (mr_lower r) i + field (mr_upper r) i) / 2) m) [0..<datasize] (mr_lower r)"

text \<open>Splitting one range on axis \<open>i\<close> at \<open>v\<close>, or at its midpoint when \<open>v\<close> leaves nothing below.\<close>

definition bisect_axis :: "real \<Rightarrow> nat \<Rightarrow> memory_range \<Rightarrow> memory_range list res" where
  "bisect_axis v i x =
     (let mid = (field (mr_lower x) i + field (mr_upper x) i) / 2;
          v' = (if mem_eq (mr_lower x) (set_field i v (mr_upper x)) then mid else v);
          ersatz_lower = set_field i v' (mr_lower x);
          ersatz_upper = set_field i v' (mr_upper x)
      in if mem_eq (mr_lower x) ersatz_upper then
           bindE (guardE (\<not> mem_eq ersatz_lower (mr_upper x)) AssertFailed) (\<lambda>_.
           bindE (guardE (mem_eq (mr_lower x) ersatz_lower) AssertFailed) (\<lambda>_. Inr [x]))
         else Inr [MemoryRange (mr_lower x) ersatz_upper, MemoryRange ersatz_lower (mr_upper x)])"

fun bisect_all :: "real \<Rightarrow> nat \<Rightarrow> memory_range list \<Rightarrow> memory_range list res" where
  "bisect_all v i [] = Inr []"
| "bisect_all v i (x # xs) =
     bindE (bisect_axis v i x) (\<lambda>ys. bindE (bisect_all v i xs) (\<lambda>zs. Inr (ys @ zs)))"

definition mr_bisect :: "(real list \<Rightarrow> real) \<Rightarrow> memory_range \<Rightarrow> memory_range list res" where
  "mr_bisect median r =
     bindE (for_each (\<lambda>i ret. bindE (aget (mr_acc r) (int i)) (\<lambda>acc. bisect_all (median acc) i ret))
              [0..<datasize] [r])
       (\<lambda>ret. bindE (guardE (ret \<noteq> []) AssertFailed) (\<lambda>_. Inr ret))"


section \<open>The signals stay in range\<close>

definition mem_ok :: "memory \<Rightarrow> bool" where
  "mem_ok m \<longleftrightarrow> 0 \<le> rec_send_ewma m \<and> 0 \<le> rec_rec_ewma m \<and> 0 \<le> slow_rec_rec_ewma m
     \<and> (rtt_ratio m = 0 \<or> 1 \<le> rtt_ratio m)
     \<and> (last_tick_sent m = 0 \<or> last_tick_received m = 0 \<or> 0 < mem_min_rtt m)"

lemma mem_ok_init: "mem_ok (Memory 0 0 0 0)" and mem_ok_reset: "mem_ok (mem_reset m)"
  by (simp_all add: mem_ok_def Memory_def mem_reset_def)

text \<open>A packet that follows the ones before: it takes time, and the clocks do not go back.\<close>

definition follows :: "memory \<Rightarrow> packet \<Rightarrow> bool" where
  "follows m x \<longleftrightarrow> tick_sent x < tick_received x \<and>
     (pk_seq_num x - 1 = mem_largest_ack m \<longrightarrow>
        last_tick_sent m \<le> tick_sent x \<and> last_receiver_timestamp m \<le> receiver_timestamp x)"

lemma update_ewmas_ok:
  assumes "mem_ok m" and "follows m x" and "pk_seq_num x - 1 = mem_largest_ack m" and "0 \<le> factor"
  shows "0 \<le> rec_send_ewma (update_ewmas factor x m)" "0 \<le> rec_rec_ewma (update_ewmas factor x m)"
    "0 \<le> slow_rec_rec_ewma (update_ewmas factor x m)" "mem_min_rtt (update_ewmas factor x m) = mem_min_rtt m"
    "mem_largest_ack (update_ewmas factor x m) = mem_largest_ack m"
  using assms by (simp_all add: update_ewmas_def mem_ok_def follows_def)

lemma packet_received_ok:
  assumes "mem_ok m" and "follows m x" and "0 \<le> factor"
  shows "\<exists>m'. packet_received factor x m = Inr m' \<and> mem_ok m'
    \<and> mem_largest_ack m' = max (mem_largest_ack m) (pk_seq_num x)
    \<and> mem_min_rtt m' = (if last_tick_sent m = 0 \<or> last_tick_received m = 0 then tick_received x - tick_sent x
                        else min (mem_min_rtt m) (tick_received x - tick_sent x))"
proof -
  let ?rtt = "tick_received x - tick_sent x"
  have rtt: "0 < ?rtt" using assms(2) by (simp add: follows_def)
  show ?thesis
  proof (cases "last_tick_sent m = 0 \<or> last_tick_received m = 0")
    case True
    then show ?thesis using assms rtt by (simp add: packet_received_def mem_ok_def Let_def)
  next
    case False
    define m1 where "m1 = (if pk_seq_num x - 1 = mem_largest_ack m then update_ewmas factor x m else m)"
    have m1: "0 \<le> rec_send_ewma m1" "0 \<le> rec_rec_ewma m1" "0 \<le> slow_rec_rec_ewma m1"
      "mem_min_rtt m1 = mem_min_rtt m" "mem_largest_ack m1 = mem_largest_ack m"
      using assms update_ewmas_ok [OF assms(1,2) _ assms(3)] by (auto simp: m1_def mem_ok_def)
    define mr where "mr = min (mem_min_rtt m) ?rtt"
    have pos: "0 < mr" using assms(1) False rtt by (simp add: mem_ok_def mr_def)
    then have "1 \<le> ?rtt / mr" by (simp add: le_divide_eq mr_def)
    then show ?thesis using False pos m1
      unfolding packet_received_def Let_def m1_def [symmetric] m1(4) mr_def [symmetric]
      by (simp add: mem_ok_def guardE_def)
  qed
qed


text \<open>
  A packet that follows the ones before (its RTT is positive, and a packet in sequence was neither
  sent nor received before its predecessor) is taken in without a failed assertion; the averages stay
  non-negative, the RTT ratio is 0 or at least 1, and the minimum RTT is the least RTT so far.
\<close>

theorem packet_received_keeps_signals:
  assumes "mem_ok m" and "follows m x" and "0 \<le> factor"
  shows "\<exists>m'. packet_received factor x m = Inr m' \<and> mem_ok m'
    \<and> mem_largest_ack m' = max (mem_largest_ack m) (pk_seq_num x)
    \<and> mem_min_rtt m' = (if last_tick_sent m = 0 \<or> last_tick_received m = 0 then tick_received x - tick_sent x
                        else min (mem_min_rtt m) (tick_received x - tick_sent x))"
  using assms by (rule packet_received_ok)

theorem packet_received_keeps_signals_witness:
  "\<exists>m'. packet_received 1 \<lparr>src = 0, flow_id = 0, tick_sent = 5, tick_received = 9, receiver_timestamp = 7,
      pk_seq_num = 0\<rparr> (Memory 0 0 0 0) = Inr m' \<and> mem_min_rtt m' = 4"
  using packet_received_keeps_signals [of "Memory 0 0 0 0" "\<lparr>src = 0, flow_id = 0, tick_sent = 5,
      tick_received = 9, receiver_timestamp = 7, pk_seq_num = 0\<rparr>" 1, OF mem_ok_init]
  by (auto simp: follows_def Memory_def)


section \<open>Bisection partitions a range\<close>

text \<open>The number of ranges of a list that contain a memory.\<close>

definition hits :: "memory_range list \<Rightarrow> memory \<Rightarrow> nat" where
  "hits rs m = length (filter (\<lambda>x. contains x m) rs)"

lemma hits_simps [simp]:
  "hits [] m = 0" "hits (x # xs) m = (if contains x m then 1 else 0) + hits xs m"
  "hits (xs @ ys) m = hits xs m + hits ys m"
  by (simp_all add: hits_def)

lemma axis_cases: "i < datasize \<Longrightarrow> i = 0 \<or> i = 1 \<or> i = 2 \<or> i = (3::nat)"
  by auto

lemma all_axes: "(\<forall>i < datasize. P i) \<longleftrightarrow> P 0 \<and> P 1 \<and> P 2 \<and> P (3::nat)"
  using axis_cases by auto

lemma field_set_field [simp]:
  "i < datasize \<Longrightarrow> j < datasize \<Longrightarrow> field (set_field i v m) j = (if i = j then v else field m j)"
  by (drule axis_cases, drule axis_cases) (auto simp: field_def set_field_def)

lemma mem_eq_fields: "mem_eq m other \<longleftrightarrow> (\<forall>j < datasize. j \<noteq> 1 \<longrightarrow> field m j = field other j)"
  unfolding all_axes by (auto simp: mem_eq_def field_def)

lemma contains_fields:
  "contains r m \<longleftrightarrow> (\<forall>j < datasize. field (mr_lower r) j \<le> field m j \<and> field m j < field (mr_upper r) j)"
  unfolding all_axes by (auto simp: contains_def mem_ge_def mem_less_def field_def)

lemma MemoryRange_sel [simp]: "mr_lower (MemoryRange l u) = l" "mr_upper (MemoryRange l u) = u"
  by (simp_all add: MemoryRange_def)

lemma hits_split:
  assumes "i < datasize" and "field (mr_lower x) i \<le> v" and "v \<le> field (mr_upper x) i"
  shows "hits [MemoryRange (mr_lower x) (set_field i v (mr_upper x)),
               MemoryRange (set_field i v (mr_lower x)) (mr_upper x)] m = hits [x] m"
proof (cases "field m i < v")
  case True
  then have "\<not> contains (MemoryRange (set_field i v (mr_lower x)) (mr_upper x)) m"
    using assms(1) by (auto simp: contains_fields)
  moreover have "contains (MemoryRange (mr_lower x) (set_field i v (mr_upper x))) m \<longleftrightarrow> contains x m"
    using True assms by (force simp: contains_fields)
  ultimately show ?thesis by simp
next
  case False
  then have "\<not> contains (MemoryRange (mr_lower x) (set_field i v (mr_upper x))) m"
    using assms(1) by (auto simp: contains_fields)
  moreover have "contains (MemoryRange (set_field i v (mr_lower x)) (mr_upper x)) m \<longleftrightarrow> contains x m"
    using False assms by (force simp: contains_fields)
  ultimately show ?thesis by simp
qed

text \<open>The ranges before axis \<open>i\<close> is split: the axes from \<open>i\<close> on are those of the whole range.\<close>

definition unsplit :: "memory_range \<Rightarrow> nat \<Rightarrow> memory_range \<Rightarrow> bool" where
  "unsplit r i x \<longleftrightarrow> (\<forall>j < datasize. i \<le> j \<longrightarrow>
     field (mr_lower x) j = field (mr_lower r) j \<and> field (mr_upper x) j = field (mr_upper r) j)"

definition proper :: "memory_range \<Rightarrow> bool" where
  "proper r \<longleftrightarrow> (\<forall>j < datasize. field (mr_lower r) j < field (mr_upper r) j)"

lemma bisect_axis_ok:
  assumes "i < datasize" and "unsplit r i x" and "proper r"
    and "field (mr_lower r) i \<le> v" and "v \<le> field (mr_upper r) i"
  shows "\<exists>y z. bisect_axis v i x = Inr [y, z] \<and> unsplit r (Suc i) y \<and> unsplit r (Suc i) z
    \<and> (\<forall>m. hits [y, z] m = hits [x] m)"
proof -
  let ?l = "field (mr_lower x)" and ?u = "field (mr_upper x)"
  have x: "?l i = field (mr_lower r) i" "?u i = field (mr_upper r) i" "?l i < ?u i"
    using assms by (auto simp: unsplit_def proper_def)
  define w where "w = (if mem_eq (mr_lower x) (set_field i v (mr_upper x)) then (?l i + ?u i) / 2 else v)"
  have w: "?l i \<le> w" "w \<le> ?u i" using x assms(4,5) by (auto simp: w_def)
  have "\<not> mem_eq (mr_lower x) (set_field i w (mr_upper x))"
  proof (cases "i = 3")
    case True
    then show ?thesis using x(3) by (auto simp: w_def mem_eq_fields split: if_splits)
  next
    case False
    then have "?l 3 < ?u 3" using assms by (auto simp: unsplit_def proper_def)
    then show ?thesis using False assms(1) by (force simp: mem_eq_fields)
  qed
  then have "bisect_axis v i x = Inr [MemoryRange (mr_lower x) (set_field i w (mr_upper x)),
      MemoryRange (set_field i w (mr_lower x)) (mr_upper x)]"
    by (simp add: bisect_axis_def w_def Let_def)
  then show ?thesis using assms(1,2) hits_split [OF assms(1) w]
    by (auto simp: unsplit_def simp del: hits_simps)
qed

lemma bisect_all_ok:
  assumes "i < datasize" and "proper r" and "field (mr_lower r) i \<le> v" and "v \<le> field (mr_upper r) i"
    and "\<forall>x \<in> set xs. unsplit r i x"
  shows "\<exists>ys. bisect_all v i xs = Inr ys \<and> length ys = 2 * length xs
    \<and> (\<forall>y \<in> set ys. unsplit r (Suc i) y) \<and> (\<forall>m. hits ys m = hits xs m)"
  using assms(5)
proof (induction xs)
  case (Cons x xs)
  then obtain y z where yz: "bisect_axis v i x = Inr [y, z]" "unsplit r (Suc i) y" "unsplit r (Suc i) z"
    "\<forall>m. hits [y, z] m = hits [x] m"
    using bisect_axis_ok [OF assms(1) _ assms(2-4), of x] by auto
  obtain ys where ys: "bisect_all v i xs = Inr ys" "length ys = 2 * length xs"
    "\<forall>y \<in> set ys. unsplit r (Suc i) y" "\<forall>m. hits ys m = hits xs m"
    using Cons by auto
  have "bisect_all v i (x # xs) = Inr (y # z # ys)" using yz(1) ys(1) by simp
  moreover have "hits (y # z # ys) m = hits (x # xs) m" for m
    using yz(4) ys(4) by (simp add: add.assoc [symmetric])
  ultimately show ?case using yz(2,3) ys(2,3) by auto
qed simp

lemma bisect_loop_ok:
  assumes "proper r" and "length (mr_acc r) = datasize"
    and "\<forall>i < datasize. field (mr_lower r) i \<le> median (mr_acc r ! i) \<and> median (mr_acc r ! i) \<le> field (mr_upper r) i"
    and "n \<le> datasize"
  shows "\<exists>rs. for_each (\<lambda>i ret. bindE (aget (mr_acc r) (int i)) (\<lambda>acc. bisect_all (median acc) i ret)) [0..<n] [r]
      = Inr rs \<and> length rs = 2 ^ n \<and> (\<forall>x \<in> set rs. unsplit r n x) \<and> (\<forall>m. hits rs m = hits [r] m)"
  using assms(4)
proof (induction n)
  case 0
  then show ?case by (simp add: unsplit_def)
next
  case (Suc n)
  then obtain rs where rs: "for_each (\<lambda>i ret. bindE (aget (mr_acc r) (int i)) (\<lambda>acc. bisect_all (median acc) i ret)) [0..<n] [r]
      = Inr rs" "length rs = 2 ^ n" "\<forall>x \<in> set rs. unsplit r n x" "\<forall>m. hits rs m = hits [r] m"
    by auto
  have n: "n < datasize" using Suc.prems by simp
  obtain ys where "bisect_all (median (mr_acc r ! n)) n rs = Inr ys" "length ys = 2 * length rs"
    "\<forall>y \<in> set ys. unsplit r (Suc n) y" "\<forall>m. hits ys m = hits rs m"
    using bisect_all_ok [OF n assms(1) _ _ rs(3)] assms(3) n by blast
  with rs n assms(2) show ?case by (simp add: for_each_append)
qed

lemma mr_bisect_ok:
  assumes "proper r" and "length (mr_acc r) = datasize"
    and "\<forall>i < datasize. field (mr_lower r) i \<le> median (mr_acc r ! i) \<and> median (mr_acc r ! i) \<le> field (mr_upper r) i"
  shows "\<exists>rs. mr_bisect median r = Inr rs \<and> length rs = 16
    \<and> (\<forall>m. hits rs m = (if contains r m then 1 else 0))"
proof -
  obtain rs where "for_each (\<lambda>i ret. bindE (aget (mr_acc r) (int i)) (\<lambda>acc. bisect_all (median acc) i ret))
      [0..<datasize] [r] = Inr rs" "length rs = 2 ^ datasize" "\<forall>m. hits rs m = hits [r] m"
    using bisect_loop_ok [OF assms order_refl] by blast
  moreover from this(2) have "rs \<noteq> []" by auto
  ultimately show ?thesis by (simp add: mr_bisect_def)
qed

text \<open>
  C21. When the median of the samples of every axis lies within the range, bisecting a range that is
  not degenerate yields 16 ranges that partition it: a memory of the range is contained in exactly
  one of them, any other memory in none. No assertion fails.
\<close>

theorem bisect_partitions:
  assumes "proper r" and "length (mr_acc r) = datasize"
    and "\<forall>i < datasize. field (mr_lower r) i \<le> median (mr_acc r ! i) \<and> median (mr_acc r ! i) \<le> field (mr_upper r) i"
  shows "\<exists>rs. mr_bisect median r = Inr rs \<and> length rs = 16
    \<and> (\<forall>m. hits rs m = (if contains r m then 1 else 0))"
  using assms by (rule mr_bisect_ok)

theorem bisect_partitions_witness:
  "\<exists>rs. mr_bisect (\<lambda>xs. 2) (MemoryRange (Memory 0 0 0 0) MAX_MEMORY) = Inr rs \<and> length rs = 16"
proof -
  let ?r = "MemoryRange (Memory 0 0 0 0) MAX_MEMORY"
  have fields: "field (mr_lower ?r) j = 0" "field (mr_upper ?r) j = 163840" for j
    by (simp_all add: field_def Memory_def MAX_MEMORY_def)
  have "proper ?r" "length (mr_acc ?r) = datasize"
    by (simp_all add: proper_def fields del: MemoryRange_sel) (simp add: MemoryRange_def)
  with fields show ?thesis using bisect_partitions [of ?r "\<lambda>xs. 2"] by auto
qed

end
