(* ===== verification/Whisker.thy ===== *)
theory Whisker
  imports Remy_Memory
begin

text \<open>
  Model of \<open>src/whisker.hh\<close> and \<open>src/whisker.cc\<close>: a rule of a Remy controller (window and pacing for
  a range of congestion signals) and the exploration of its neighbourhood by the optimiser. The loop
  over the proposed changes need not end for every setting, so it is a partial function and \<open>None\<close>
  stands for not returning. Printing and hashing are left out.
\<close>


section \<open>Rules\<close>

record whisker =
  w_generation :: u32
  window_increment :: int
  window_multiple :: real
  w_intersend :: real
  w_domain :: memory_range

definition w_use :: "whisker \<Rightarrow> whisker" where
  "w_use w = w\<lparr>w_domain := mr_use (w_domain w)\<rparr>"

definition w_reset_count :: "whisker \<Rightarrow> whisker" where
  "w_reset_count w = w\<lparr>w_domain := mr_reset_count (w_domain w)\<rparr>"

definition w_count :: "whisker \<Rightarrow> u32" where
  "w_count w = mr_count (w_domain w)"

definition w_promote :: "u32 \<Rightarrow> whisker \<Rightarrow> whisker" where
  "w_promote generation w = w\<lparr>w_generation := max (w_generation w) generation\<rparr>"

definition w_demote :: "u32 \<Rightarrow> whisker \<Rightarrow> whisker" where
  "w_demote generation w = w\<lparr>w_generation := generation\<rparr>"

definition w_eq :: "whisker \<Rightarrow> whisker \<Rightarrow> bool" where
  "w_eq w other \<longleftrightarrow> window_increment w = window_increment other \<and> window_multiple w = window_multiple other
     \<and> w_intersend w = w_intersend other \<and> mr_eq (w_domain w) (w_domain other)"

definition w_window :: "whisker \<Rightarrow> int \<Rightarrow> int" where
  "w_window w previous_window =
     min (max 0 (trunc_real (of_int previous_window * window_multiple w + of_int (window_increment w)))) 1000000"

definition w_round :: "whisker \<Rightarrow> whisker" where
  "w_round w = w\<lparr>window_multiple := 1 / 10000 * of_int (trunc_real (10000 * window_multiple w)),
                w_intersend := 1 / 10000 * of_int (trunc_real (10000 * w_intersend w))\<rparr>"

definition w_bisect :: "(real list \<Rightarrow> real) \<Rightarrow> whisker \<Rightarrow> whisker list res" where
  "w_bisect median w =
     bindE (mr_bisect median (w_domain w)) (\<lambda>rs. Inr (map (\<lambda>x. w\<lparr>w_domain := x\<rparr>) rs))"


section \<open>Exploring the neighbourhood\<close>

record 'a optimization_setting =
  min_value :: 'a
  max_value :: 'a
  min_change :: 'a
  max_change :: 'a
  multiplier :: 'a
  default_value :: 'a

definition window_increment_setting :: "u32 optimization_setting" where
  "window_increment_setting = \<lparr>min_value = 0, max_value = 256, min_change = 1, max_change = 32,
     multiplier = 4, default_value = 1\<rparr>"

definition window_multiple_setting :: "real optimization_setting" where
  "window_multiple_setting = \<lparr>min_value = 0, max_value = 1, min_change = 1 / 100, max_change = 1 / 2,
     multiplier = 4, default_value = 1\<rparr>"

definition intersend_setting :: "real optimization_setting" where
  "intersend_setting = \<lparr>min_value = 1 / 4, max_value = 3, min_change = 1 / 20, max_change = 1,
     multiplier = 4, default_value = 3\<rparr>"

text \<open>The rule that covers a whole domain with the default values.\<close>

definition Whisker_default :: "memory_range \<Rightarrow> whisker" where
  "Whisker_default r = \<lparr>w_generation = 0, window_increment = uint (default_value window_increment_setting),
     window_multiple = default_value window_multiple_setting,
     w_intersend = default_value intersend_setting, w_domain = r\<rparr>"

definition Whisker_of :: "u32 \<Rightarrow> real \<Rightarrow> real \<Rightarrow> memory_range \<Rightarrow> whisker" where
  "Whisker_of s_window_increment s_window_multiple s_intersend s_domain =
     \<lparr>w_generation = 0, window_increment = sint s_window_increment, window_multiple = s_window_multiple,
      w_intersend = s_intersend, w_domain = s_domain\<rparr>"

lemma Whisker_default_of:
  "Whisker_default r = Whisker_of (default_value window_increment_setting)
     (default_value window_multiple_setting) (default_value intersend_setting) r"
  by (simp add: Whisker_default_def Whisker_of_def window_increment_setting_def)

definition Whisker_copy :: "whisker \<Rightarrow> whisker" where
  "Whisker_copy other = \<lparr>w_generation = w_generation other, window_increment = window_increment other,
     window_multiple = window_multiple other, w_intersend = w_intersend other, w_domain = w_domain other\<rparr>"

lemma Whisker_copy_eq [simp]: "Whisker_copy w = w"
  by (simp add: Whisker_copy_def)

definition eligible_value :: "'a::ord optimization_setting \<Rightarrow> 'a \<Rightarrow> bool" where
  "eligible_value s v \<longleftrightarrow> min_value s \<le> v \<and> v \<le> max_value s"

partial_function (option) proposed_changes ::
  "'a::{ord,times} \<Rightarrow> 'a \<Rightarrow> 'a \<Rightarrow> 'a list option" where
  "proposed_changes change max_ch factor =
     (if change \<le> max_ch
      then Option.bind (proposed_changes (change * factor) max_ch factor) (\<lambda>cs. Some (change # cs))
      else Some [])"

definition alternatives ::
  "'a::{ord,times,plus,minus} optimization_setting \<Rightarrow> 'a \<Rightarrow> 'a list res option" where
  "alternatives s v =
     (if \<not> eligible_value s v then Some (Inl AssertFailed)
      else case proposed_changes (min_change s) (max_change s) (multiplier s) of
             None \<Rightarrow> None
           | Some cs \<Rightarrow> Some (Inr (v # concat (map (\<lambda>c. filter (eligible_value s) [v + c, v - c]) cs))))"

definition new_whisker :: "whisker \<Rightarrow> u32 \<Rightarrow> real \<Rightarrow> real \<Rightarrow> whisker" where
  "new_whisker w alt_window alt_multiple alt_intersend =
     w_round (w\<lparr>w_generation := w_generation w + 1, window_increment := uint alt_window,
                window_multiple := alt_multiple, w_intersend := alt_intersend\<rparr>)"

definition next_generation :: "whisker \<Rightarrow> whisker list res option" where
  "next_generation w =
     (case (alternatives window_increment_setting (of_int (window_increment w)),
            alternatives window_multiple_setting (window_multiple w),
            alternatives intersend_setting (w_intersend w)) of
        (Some a, Some b, Some c) \<Rightarrow>
          Some (bindE a (\<lambda>incs. bindE b (\<lambda>mults. bindE c (\<lambda>sends.
            Inr (concat (map (\<lambda>i. concat (map (\<lambda>m. map (new_whisker w i m) sends) mults)) incs))))))
      | _ \<Rightarrow> None)"


section \<open>Bounds\<close>

text \<open>
  Whatever the previous window, a rule sets a window between 0 and 1000000; the window grows with
  the previous one when the multiple is not negative.
\<close>

theorem w_window_bounds:
  "0 \<le> w_window w p \<and> w_window w p \<le> 1000000
   \<and> (0 \<le> window_multiple w \<and> p \<le> p' \<longrightarrow> w_window w p \<le> w_window w p')"
proof -
  have "w_window w p \<le> w_window w p'" if "0 \<le> window_multiple w" "p \<le> p'"
    unfolding w_window_def using that
    by (intro min.mono max.mono trunc_real_mono add_mono mult_right_mono) simp_all
  then show ?thesis by (simp add: w_window_def)
qed

text \<open>The changes that the optimiser proposes with its settings.\<close>

lemma window_changes: "proposed_changes (1 :: u32) 32 4 = Some [1, 4, 16]"
  by (simp add: proposed_changes.simps [of "1 :: u32"] proposed_changes.simps [of "4 :: u32"]
      proposed_changes.simps [of "16 :: u32"] proposed_changes.simps [of "64 :: u32"])

lemma multiple_changes: "proposed_changes (1 / 100 :: real) (1 / 2) 4 = Some [1 / 100, 1 / 25, 4 / 25]"
  by (simp add: proposed_changes.simps [of "1 / 100 :: real"] proposed_changes.simps [of "1 / 25 :: real"]
      proposed_changes.simps [of "4 / 25 :: real"] proposed_changes.simps [of "16 / 25 :: real"])

lemma intersend_changes: "proposed_changes (1 / 20 :: real) 1 4 = Some [1 / 20, 1 / 5, 4 / 5]"
  by (simp add: proposed_changes.simps [of "1 / 20 :: real"] proposed_changes.simps [of "1 / 5 :: real"]
      proposed_changes.simps [of "4 / 5 :: real"] proposed_changes.simps [of "16 / 5 :: real"])

lemma alternatives_eligible:
  assumes "eligible_value s v" and "proposed_changes (min_change s) (max_change s) (multiplier s) = Some cs"
  shows "\<exists>vs. alternatives s v = Some (Inr (v # vs)) \<and> (\<forall>x \<in> set (v # vs). eligible_value s x)
    \<and> length vs \<le> 2 * length cs"
proof -
  have "length (concat (map (\<lambda>c. filter (eligible_value s) [v + c, v - c]) cs)) \<le> 2 * length cs"
    by (induction cs) auto
  then show ?thesis using assms by (auto simp: alternatives_def split: if_splits)
qed

definition whisker_eligible :: "whisker \<Rightarrow> bool" where
  "whisker_eligible w \<longleftrightarrow> 0 \<le> window_increment w \<and> window_increment w \<le> 256
     \<and> 0 \<le> window_multiple w \<and> window_multiple w \<le> 1 \<and> 1 / 4 \<le> w_intersend w \<and> w_intersend w \<le> 3"


lemma w_round_eligible:
  assumes "whisker_eligible w" shows "whisker_eligible (w_round w)"
proof -
  have t: "\<lfloor>10000 * x\<rfloor> / 10000 \<le> b \<and> (a \<le> x \<longrightarrow> a \<le> \<lfloor>10000 * x\<rfloor> / 10000)"
    if "x \<le> b" and "of_int \<lfloor>10000 * a\<rfloor> = 10000 * a" for x a b :: real
  proof (intro conjI impI)
    have "of_int \<lfloor>10000 * x\<rfloor> \<le> 10000 * b" using that(1) of_int_floor_le [of "10000 * x"] by linarith
    then show "\<lfloor>10000 * x\<rfloor> / 10000 \<le> b" by simp
    assume "a \<le> x"
    then have "\<lfloor>10000 * a\<rfloor> \<le> \<lfloor>10000 * x\<rfloor>" by (intro floor_mono) simp
    then have "10000 * a \<le> of_int \<lfloor>10000 * x\<rfloor>" using that(2) by (metis of_int_le_iff)
    then show "a \<le> \<lfloor>10000 * x\<rfloor> / 10000" by (simp add: field_simps)
  qed
  from assms show ?thesis
    using t [of "window_multiple w" 1 0] t [of "w_intersend w" 3 "1 / 4"]
    by (auto simp: whisker_eligible_def w_round_def trunc_real_def)
qed

lemma window_increment_eligible:
  "0 \<le> i \<Longrightarrow> i \<le> 256 \<Longrightarrow> eligible_value window_increment_setting (of_int i)"
proof -
  assume "0 \<le> i" "i \<le> 256"
  moreover from this have "uint (of_int i :: u32) = i" by (simp add: uint_word_of_int)
  ultimately show ?thesis by (simp add: eligible_value_def window_increment_setting_def word_le_def)
qed

lemma new_whisker_eligible:
  assumes "eligible_value window_increment_setting i" and "eligible_value window_multiple_setting m"
    and "eligible_value intersend_setting t"
  shows "whisker_eligible (new_whisker w i m t)"
proof -
  have "uint i \<le> 256"
    using assms(1) by (simp add: eligible_value_def window_increment_setting_def word_le_def)
  with assms(2,3) show ?thesis unfolding new_whisker_def
    by (intro w_round_eligible)
      (simp add: whisker_eligible_def eligible_value_def window_multiple_setting_def intersend_setting_def)
qed

text \<open>
  C25. From a rule with eligible values, the exploration ends and fails no assertion: it returns at
  least one candidate, and every candidate has eligible values again, covers the same domain and is
  of the next generation. So the optimiser can be iterated.
\<close>

theorem next_generation_eligible:
  assumes "whisker_eligible w"
  shows "\<exists>ws. next_generation w = Some (Inr ws) \<and> ws \<noteq> []
    \<and> (\<forall>x \<in> set ws. whisker_eligible x \<and> w_domain x = w_domain w \<and> w_generation x = w_generation w + 1)"
proof -
  obtain iis where incs: "alternatives window_increment_setting (of_int (window_increment w)) = Some (Inr iis)"
    "iis \<noteq> []" "\<forall>i \<in> set iis. eligible_value window_increment_setting i"
    using alternatives_eligible [OF window_increment_eligible, of "window_increment w" "[1, 4, 16]"]
      window_changes assms by (auto simp: whisker_eligible_def window_increment_setting_def)
  obtain ms where mults: "alternatives window_multiple_setting (window_multiple w) = Some (Inr ms)"
    "ms \<noteq> []" "\<forall>m \<in> set ms. eligible_value window_multiple_setting m"
    using alternatives_eligible [of window_multiple_setting "window_multiple w" "[1 / 100, 1 / 25, 4 / 25]"]
      multiple_changes assms
    by (auto simp: whisker_eligible_def eligible_value_def window_multiple_setting_def)
  obtain ts where sends: "alternatives intersend_setting (w_intersend w) = Some (Inr ts)"
    "ts \<noteq> []" "\<forall>t \<in> set ts. eligible_value intersend_setting t"
    using alternatives_eligible [of intersend_setting "w_intersend w" "[1 / 20, 1 / 5, 4 / 5]"]
      intersend_changes assms
    by (auto simp: whisker_eligible_def eligible_value_def intersend_setting_def)
  let ?ws = "concat (map (\<lambda>i. concat (map (\<lambda>m. map (new_whisker w i m) ts) ms)) iis)"
  have "next_generation w = Some (Inr ?ws)" by (simp add: next_generation_def incs(1) mults(1) sends(1))
  moreover have "?ws \<noteq> []" using incs(2) mults(2) sends(2) by (cases "iis"; cases ms; cases ts) auto
  moreover have "\<forall>x \<in> set ?ws. whisker_eligible x" using incs(3) mults(3) sends(3)
    by (auto intro: new_whisker_eligible)
  moreover have "\<forall>x \<in> set ?ws. w_domain x = w_domain w \<and> w_generation x = w_generation w + 1"
    by (auto simp: new_whisker_def w_round_def)
  ultimately show ?thesis by blast
qed

theorem next_generation_eligible_witness:
  "\<exists>ws. next_generation (Whisker_default (MemoryRange (Memory 0 0 0 0) MAX_MEMORY)) = Some (Inr ws) \<and> ws \<noteq> []"
  using next_generation_eligible [of "Whisker_default (MemoryRange (Memory 0 0 0 0) MAX_MEMORY)"]
  by (auto simp: whisker_eligible_def Whisker_default_def window_increment_setting_def
      window_multiple_setting_def intersend_setting_def)

end
