(* ===== verification/Whisker_Tree.thy ===== *)
theory Whisker_Tree
  imports Whisker
begin

text \<open>
  Model of \<open>src/whiskertree.hh\<close> and \<open>src/whiskertree.cc\<close>: the tree of rules of a Remy controller.
  A node holds a range of signals and either one rule (a leaf) or children whose ranges partition its
  range. The C++ code returns a pointer to the rule that it finds and counts its use through the
  pointer; here the search returns the path to the leaf, and the use is an update at that path.
\<close>


section \<open>Trees\<close>

datatype whisker_tree =
  WhiskerTree (wt_domain: memory_range) (wt_children: "whisker_tree list") (wt_leaf: "whisker list")

definition WhiskerTree_default :: whisker_tree where
  "WhiskerTree_default =
     (let r = MemoryRange (Memory 0 0 0 0) MAX_MEMORY in WhiskerTree r [] [Whisker_default r])"

definition WhiskerTree_of :: "(real list \<Rightarrow> real) \<Rightarrow> whisker \<Rightarrow> bool \<Rightarrow> whisker_tree res" where
  "WhiskerTree_of median w bisect =
     (if \<not> bisect then Inr (WhiskerTree (w_domain w) [] [w])
      else bindE (w_bisect median w) (\<lambda>ws.
           Inr (WhiskerTree (w_domain w) (map (\<lambda>x. WhiskerTree (w_domain x) [] [x]) ws) [])))"

definition is_leaf :: "whisker_tree \<Rightarrow> bool" where
  "is_leaf t \<longleftrightarrow> wt_leaf t \<noteq> []"

definition num_children :: "whisker_tree \<Rightarrow> int res" where
  "num_children t =
     (if is_leaf t then bindE (guardE (length (wt_leaf t) = 1) AssertFailed) (\<lambda>_. Inr 1)
      else Inr (int (length (wt_children t))))"


section \<open>Searching and using a rule\<close>

fun whisker_path :: "memory \<Rightarrow> whisker_tree \<Rightarrow> nat list option res"
and whisker_path_in :: "memory \<Rightarrow> nat \<Rightarrow> whisker_tree list \<Rightarrow> nat list option res" where
  "whisker_path m (WhiskerTree d cs ls) =
     (if \<not> contains d m then Inr None
      else if ls \<noteq> [] then Inr (Some [])
      else whisker_path_in m 0 cs)"
| "whisker_path_in m i [] = Inl AssertFailed"
| "whisker_path_in m i (c # cs) =
     bindE (whisker_path m c) (\<lambda>r. case r of Some p \<Rightarrow> Inr (Some (i # p))
       | None \<Rightarrow> whisker_path_in m (Suc i) cs)"

fun leaf_at :: "nat list \<Rightarrow> whisker_tree \<Rightarrow> whisker" where
  "leaf_at [] t = hd (wt_leaf t)"
| "leaf_at (i # p) t = leaf_at p (wt_children t ! i)"

fun update_at :: "nat list \<Rightarrow> (whisker \<Rightarrow> whisker) \<Rightarrow> whisker_tree \<Rightarrow> whisker_tree" where
  "update_at [] f (WhiskerTree d cs ls) = WhiskerTree d cs (f (hd ls) # tl ls)"
| "update_at (i # p) f (WhiskerTree d cs ls) = WhiskerTree d (cs[i := update_at p f (cs ! i)]) ls"

definition use_whisker :: "memory \<Rightarrow> bool \<Rightarrow> whisker_tree \<Rightarrow> (whisker \<times> whisker_tree) res" where
  "use_whisker m trk t =
     bindE (whisker_path m t) (\<lambda>r. case r of None \<Rightarrow> Inl ExitFailure
       | Some p \<Rightarrow>
           let t1 = update_at p w_use t;
               t2 = (if trk then update_at p (\<lambda>w. w\<lparr>w_domain := track m (w_domain w)\<rparr>) t1 else t1)
           in Inr (leaf_at p t2, t2))"


section \<open>Operations on all rules\<close>

fun reset_counts :: "whisker_tree \<Rightarrow> whisker_tree" where
  "reset_counts (WhiskerTree d cs ls) =
     (if ls \<noteq> [] then WhiskerTree d cs (w_reset_count (hd ls) # tl ls)
      else WhiskerTree d (map reset_counts cs) ls)"

text \<open>One child of the loop of \<open>most_used\<close>.\<close>

definition consider_child :: "u32 \<Rightarrow> whisker option \<Rightarrow> u32 \<times> whisker option \<Rightarrow> u32 \<times> whisker option" where
  "consider_child max_generation candidate acc =
     (case candidate of None \<Rightarrow> acc
      | Some w \<Rightarrow> if w_generation w \<le> max_generation \<and> w_count w \<ge> fst acc then (w_count w, Some w) else acc)"

fun most_used :: "u32 \<Rightarrow> whisker_tree \<Rightarrow> whisker option" where
  "most_used max_generation (WhiskerTree d cs ls) =
     (if ls \<noteq> [] then
        (if w_generation (hd ls) \<le> max_generation \<and> w_count (hd ls) > 0 then Some (hd ls) else None)
      else snd (fold (consider_child max_generation) (map (most_used max_generation) cs) (0, None)))"

text \<open>The operations that assert the shape of a leaf, over the children by an explicit recursion.\<close>

fun update_leaves :: "(whisker \<Rightarrow> whisker) \<Rightarrow> whisker_tree \<Rightarrow> whisker_tree res"
and update_leaves_in :: "(whisker \<Rightarrow> whisker) \<Rightarrow> whisker_tree list \<Rightarrow> whisker_tree list res" where
  "update_leaves f (WhiskerTree d cs ls) =
     (if ls \<noteq> [] then
        bindE (guardE (length ls = 1) AssertFailed) (\<lambda>_.
        bindE (guardE (cs = []) AssertFailed) (\<lambda>_. Inr (WhiskerTree d cs (f (hd ls) # tl ls))))
      else bindE (update_leaves_in f cs) (\<lambda>cs'. Inr (WhiskerTree d cs' ls)))"
| "update_leaves_in f [] = Inr []"
| "update_leaves_in f (c # cs) =
     bindE (update_leaves f c) (\<lambda>c'. bindE (update_leaves_in f cs) (\<lambda>cs'. Inr (c' # cs')))"

definition reset_generation :: "whisker_tree \<Rightarrow> whisker_tree res" where
  "reset_generation = update_leaves (w_demote 0)"

definition wt_promote :: "u32 \<Rightarrow> whisker_tree \<Rightarrow> whisker_tree res" where
  "wt_promote generation = update_leaves (w_promote generation)"

fun replace :: "whisker \<Rightarrow> whisker_tree \<Rightarrow> (bool \<times> whisker_tree) res"
and replace_in :: "whisker \<Rightarrow> whisker_tree list \<Rightarrow> whisker_tree list res" where
  "replace w (WhiskerTree d cs ls) =
     (if \<not> contains d (range_median (w_domain w)) then Inr (False, WhiskerTree d cs ls)
      else if ls \<noteq> [] then
        bindE (guardE (mr_eq (w_domain w) (w_domain (hd ls))) AssertFailed) (\<lambda>_.
        Inr (True, WhiskerTree d cs (w # tl ls)))
      else bindE (replace_in w cs) (\<lambda>cs'. Inr (True, WhiskerTree d cs' ls)))"
| "replace_in w [] = Inl AssertFailed"
| "replace_in w (c # cs) =
     bindE (replace w c) (\<lambda>(done, c').
       if done then Inr (c' # cs) else bindE (replace_in w cs) (\<lambda>cs'. Inr (c' # cs')))"

fun replace_tree :: "whisker \<Rightarrow> whisker_tree \<Rightarrow> whisker_tree \<Rightarrow> (bool \<times> whisker_tree) res"
and replace_tree_in :: "whisker \<Rightarrow> whisker_tree \<Rightarrow> whisker_tree list \<Rightarrow> whisker_tree list res" where
  "replace_tree source dst (WhiskerTree d cs ls) =
     (if \<not> contains d (range_median (w_domain source)) then Inr (False, WhiskerTree d cs ls)
      else if ls \<noteq> [] then
        bindE (guardE (mr_eq (w_domain source) (w_domain (hd ls))) AssertFailed) (\<lambda>_. Inr (True, dst))
      else bindE (replace_tree_in source dst cs) (\<lambda>cs'. Inr (True, WhiskerTree d cs' ls)))"
| "replace_tree_in source dst [] = Inl AssertFailed"
| "replace_tree_in source dst (c # cs) =
     bindE (replace_tree source dst c) (\<lambda>(done, c').
       if done then Inr (c' # cs) else bindE (replace_tree_in source dst cs) (\<lambda>cs'. Inr (c' # cs')))"

fun total_whisker_queries :: "whisker_tree \<Rightarrow> u32 res"
and total_queries_in :: "whisker_tree list \<Rightarrow> u32 \<Rightarrow> u32 res" where
  "total_whisker_queries (WhiskerTree d cs ls) =
     (if ls \<noteq> [] then bindE (guardE (cs = []) AssertFailed) (\<lambda>_. Inr (w_count (hd ls)))
      else total_queries_in cs 0)"
| "total_queries_in [] acc = Inr acc"
| "total_queries_in (c # cs) acc =
     bindE (total_whisker_queries c) (\<lambda>n. total_queries_in cs (acc + n))"


section \<open>Well-formed trees\<close>

fun leaves :: "whisker_tree \<Rightarrow> whisker list" where
  "leaves (WhiskerTree d cs ls) = (if ls \<noteq> [] then [hd ls] else concat (map leaves cs))"

fun tree_ok :: "whisker_tree \<Rightarrow> bool" where
  "tree_ok (WhiskerTree d cs ls) \<longleftrightarrow>
     (if ls \<noteq> [] then length ls = 1 \<and> cs = [] \<and> (\<forall>m. contains (w_domain (hd ls)) m \<longleftrightarrow> contains d m)
      else (\<forall>c \<in> set cs. tree_ok c) \<and> (\<forall>m. hits (map wt_domain cs) m = (if contains d m then 1 else 0)))"

text \<open>The rules of a tree whose range contains a memory.\<close>

definition matching :: "memory \<Rightarrow> whisker_tree \<Rightarrow> whisker list" where
  "matching m t = filter (\<lambda>w. contains (w_domain w) m) (leaves t)"

definition matching_in :: "memory \<Rightarrow> whisker_tree list \<Rightarrow> whisker list" where
  "matching_in m cs = concat (map (matching m) cs)"

lemma matching_WhiskerTree [simp]:
  "matching m (WhiskerTree d cs ls) =
     (if ls \<noteq> [] then (if contains (w_domain (hd ls)) m then [hd ls] else []) else matching_in m cs)"
  by (auto simp: matching_def matching_in_def filter_concat comp_def matching_def [abs_def])

lemma matching_in_simps [simp]:
  "matching_in m [] = []" "matching_in m (c # cs) = matching m c @ matching_in m cs"
  by (simp_all add: matching_in_def)

lemma hits_zero: "hits (map wt_domain cs) m = 0 \<longleftrightarrow> (\<forall>c \<in> set cs. \<not> contains (wt_domain c) m)"
  by (induction cs) auto

lemma matching_in_Nil: "matching_in m cs = [] \<longleftrightarrow> (\<forall>c \<in> set cs. matching m c = [])"
  by (auto simp: matching_in_def)

lemma matching_outside: "tree_ok t \<Longrightarrow> \<not> contains (wt_domain t) m \<Longrightarrow> matching m t = []"
proof (induction t)
  case (WhiskerTree d cs ls)
  show ?case
  proof (cases "ls = []")
    case True
    with WhiskerTree.prems have "\<forall>c \<in> set cs. tree_ok c \<and> \<not> contains (wt_domain c) m"
      by (simp add: hits_zero [symmetric])
    then show ?thesis using WhiskerTree.IH True by (simp add: matching_in_Nil)
  qed (use WhiskerTree.prems in auto)
qed

text \<open>The search follows the unique path to the rule that matches.\<close>

lemma whisker_path_ok:
  "tree_ok t \<Longrightarrow> \<exists>r. whisker_path m t = Inr r \<and>
     (case r of None \<Rightarrow> \<not> contains (wt_domain t) m
      | Some p \<Rightarrow> contains (wt_domain t) m \<and> matching m t = [leaf_at p t])"
  and whisker_path_in_ok:
  "\<forall>c \<in> set cs. tree_ok c \<Longrightarrow> hits (map wt_domain cs) m = 1 \<Longrightarrow>
     \<exists>j p. whisker_path_in m i cs = Inr (Some ((i + j) # p)) \<and> j < length cs
       \<and> matching_in m cs = [leaf_at p (cs ! j)]"
proof (induction m t and m i cs rule: whisker_path_whisker_path_in.induct)
  case (1 m d cs ls)
  then show ?case
    by (cases "contains d m"; cases "ls = []") (auto split: if_splits)
next
  case (2 m i)
  then show ?case by simp
next
  case (3 m i c cs)
  obtain r where r: "whisker_path m c = Inr r" "case r of None \<Rightarrow> \<not> contains (wt_domain c) m
      | Some p \<Rightarrow> contains (wt_domain c) m \<and> matching m c = [leaf_at p c]"
    using 3 by auto
  show ?case
  proof (cases r)
    case None
    then have c: "\<not> contains (wt_domain c) m" "matching m c = []"
      using r(2) 3(3) matching_outside by auto
    obtain j p where "whisker_path_in m (Suc i) cs = Inr (Some ((Suc i + j) # p))" "j < length cs"
      "matching_in m cs = [leaf_at p (cs ! j)]"
      using 3(2) [OF r(1) None] 3(3,4) c by auto
    then show ?thesis using r None c by (intro exI [of _ "Suc j"] exI [of _ p]) simp
  next
    case (Some p)
    then have c: "contains (wt_domain c) m" "matching m c = [leaf_at p c]" using r(2) by auto
    then have "\<forall>x \<in> set cs. \<not> contains (wt_domain x) m" using 3(4) hits_zero [of cs m] by simp
    then have "matching_in m cs = []" using 3(3) matching_outside by (simp add: matching_in_Nil)
    then show ?thesis using r Some c by (intro exI [of _ 0] exI [of _ p]) simp
  qed
qed

text \<open>A path of the search leads to a leaf; updating the leaf there changes only its rule.\<close>

fun valid_path :: "nat list \<Rightarrow> whisker_tree \<Rightarrow> bool" where
  "valid_path [] t \<longleftrightarrow> wt_leaf t \<noteq> []"
| "valid_path (i # p) t \<longleftrightarrow> wt_leaf t = [] \<and> i < length (wt_children t) \<and> valid_path p (wt_children t ! i)"

lemma whisker_path_valid:
  "whisker_path m t = Inr (Some p) \<Longrightarrow> valid_path p t"
  and whisker_path_in_valid:
  "whisker_path_in m i cs = Inr (Some p) \<Longrightarrow>
     \<exists>j q. p = (i + j) # q \<and> j < length cs \<and> valid_path q (cs ! j)"
proof (induction m t and m i cs arbitrary: p and p rule: whisker_path_whisker_path_in.induct)
  case (3 m i c cs)
  then obtain r where r: "whisker_path m c = Inr r" by (auto simp: res_simps)
  show ?case
  proof (cases r)
    case None
    then have "whisker_path_in m (Suc i) cs = Inr (Some p)" using 3(3) r by simp
    then obtain j q where "p = (Suc i + j) # q" "j < length cs" "valid_path q (cs ! j)"
      using 3(2) [OF r None] by blast
    then show ?thesis by (intro exI [of _ "Suc j"] exI [of _ q]) simp
  next
    case (Some q)
    then show ?thesis using 3 r by (intro exI [of _ 0] exI [of _ q]) (auto simp: res_simps)
  qed
qed (auto split: if_splits simp: res_simps)

lemma leaf_at_update_at: "valid_path p t \<Longrightarrow> leaf_at p (update_at p f t) = f (leaf_at p t)"
proof (induction p arbitrary: t)
  case Nil
  then show ?case by (cases t) auto
next
  case (Cons i p)
  then show ?case by (cases t) auto
qed

lemma wt_domain_update_at [simp]: "wt_domain (update_at p f t) = wt_domain t"
  by (cases p; cases t) auto

lemma valid_path_update_at: "valid_path p t \<Longrightarrow> valid_path p (update_at p f t)"
proof (induction p arbitrary: t)
  case Nil
  then show ?case by (cases t) auto
next
  case (Cons i p)
  then show ?case by (cases t) auto
qed

lemma map_list_update_same: "i < length xs \<Longrightarrow> f y = f (xs ! i) \<Longrightarrow> map f (xs[i := y]) = map f xs"
  by (metis list_update_id map_update)

lemma tree_ok_update_at:
  assumes "\<And>w m. contains (w_domain (f w)) m = contains (w_domain w) m"
  shows "tree_ok t \<Longrightarrow> valid_path p t \<Longrightarrow> tree_ok (update_at p f t)"
proof (induction p arbitrary: t)
  case Nil
  then show ?case by (cases t) (auto simp: assms)
next
  case (Cons i p)
  obtain d cs ls where t: "t = WhiskerTree d cs ls" by (cases t)
  have i: "i < length cs" "ls = []" "valid_path p (cs ! i)" using Cons.prems t by auto
  then have "tree_ok (update_at p f (cs ! i))" using Cons t by auto
  moreover have "map wt_domain (cs[i := update_at p f (cs ! i)]) = map wt_domain cs"
    using i by (intro map_list_update_same) simp_all
  ultimately show ?case using Cons.prems i t
    by (auto dest!: set_update_subset_insert [THEN subsetD])
qed


lemma leaves_update_at:
  "valid_path p t \<Longrightarrow> \<exists>before after. leaves t = before @ leaf_at p t # after
     \<and> leaves (update_at p f t) = before @ f (leaf_at p t) # after"
proof (induction p arbitrary: t)
  case Nil
  then show ?case by (cases t) (auto intro: exI [of _ "[]"])
next
  case (Cons i p)
  obtain d cs ls where t: "t = WhiskerTree d cs ls" by (cases t)
  have i: "i < length cs" "ls = []" "valid_path p (cs ! i)" using Cons.prems t by auto
  obtain before after where leaf: "leaves (cs ! i) = before @ leaf_at p (cs ! i) # after"
    "leaves (update_at p f (cs ! i)) = before @ f (leaf_at p (cs ! i)) # after"
    using Cons.IH [OF i(3)] by blast
  have "cs = take i cs @ cs ! i # drop (Suc i) cs" using i(1) by (rule id_take_nth_drop)
  then have "concat (map leaves cs)
      = concat (map leaves (take i cs)) @ leaves (cs ! i) @ concat (map leaves (drop (Suc i) cs))"
    by (metis concat.simps(2) concat_append list.simps(9) map_append)
  moreover have "concat (map leaves (cs[i := update_at p f (cs ! i)]))
      = concat (map leaves (take i cs)) @ leaves (update_at p f (cs ! i)) @ concat (map leaves (drop (Suc i) cs))"
    using i(1) by (simp add: upd_conv_take_nth_drop)
  ultimately show ?case using t i leaf
    by (intro exI [of _ "concat (map leaves (take i cs)) @ before"]
        exI [of _ "after @ concat (map leaves (drop (Suc i) cs))"]) simp
qed

lemma contains_use [simp]: "contains (mr_use r) m = contains r m"
  and contains_track [simp]: "contains (track q r) m = contains r m"
  by (simp_all add: contains_def mr_use_def track_def)

definition same_rule :: "whisker \<Rightarrow> whisker \<Rightarrow> bool" where
  "same_rule w w' \<longleftrightarrow> w_generation w' = w_generation w \<and> window_increment w' = window_increment w
     \<and> window_multiple w' = window_multiple w \<and> w_intersend w' = w_intersend w
     \<and> mr_lower (w_domain w') = mr_lower (w_domain w) \<and> mr_upper (w_domain w') = mr_upper (w_domain w)"

lemma use_whisker_ok:
  assumes "tree_ok t" and "contains (wt_domain t) m"
  shows "\<exists>before w after w' t'. leaves t = before @ w # after \<and> matching m t = [w]
    \<and> use_whisker m trk t = Inr (w', t') \<and> leaves t' = before @ w' # after
    \<and> same_rule w w' \<and> w_count w' = w_count w + 1 \<and> tree_ok t' \<and> wt_domain t' = wt_domain t"
proof -
  obtain p where path: "whisker_path m t = Inr (Some p)" "matching m t = [leaf_at p t]"
    using whisker_path_ok(1) [OF assms(1), of m] assms(2) by (auto split: option.splits)
  have valid: "valid_path p t" using whisker_path_valid(1) [OF path(1)] .
  define f where "f = (\<lambda>w. if trk then (w_use w)\<lparr>w_domain := track m (w_domain (w_use w))\<rparr> else w_use w)"
  let ?g = "\<lambda>w. w\<lparr>w_domain := track m (w_domain w)\<rparr>"
  have update_twice: "valid_path q u \<Longrightarrow> update_at q g (update_at q f u) = update_at q (\<lambda>w. g (f w)) u" for q u g f
  proof (induction q arbitrary: u)
    case Nil
    then show ?case by (cases u) auto
  next
    case (Cons i q)
    then show ?case by (cases u) auto
  qed
  have tree: "use_whisker m trk t = Inr (f (leaf_at p t), update_at p f t)"
    using path(1) leaf_at_update_at [OF valid] update_twice [OF valid]
    by (auto simp: use_whisker_def f_def Let_def)
  have f: "same_rule w (f w)" "w_count (f w) = w_count w + 1" "contains (w_domain (f w)) x = contains (w_domain w) x" for w x
    by (auto simp: f_def same_rule_def w_use_def w_count_def mr_use_def track_def contains_def)
  obtain before after where "leaves t = before @ leaf_at p t # after"
    "leaves (update_at p f t) = before @ f (leaf_at p t) # after"
    using leaves_update_at [OF valid] by blast
  moreover have "tree_ok (update_at p f t)" using tree_ok_update_at [OF f(3) assms(1) valid] .
  ultimately show ?thesis using path(2) tree f(1,2) wt_domain_update_at by blast
qed

lemma use_whisker_outside:
  assumes "tree_ok t" and "\<not> contains (wt_domain t) m"
  shows "use_whisker m trk t = Inl ExitFailure"
proof -
  have "whisker_path m t = Inr None" using whisker_path_ok(1) [OF assms(1), of m] assms(2)
    by (auto split: option.splits)
  then show ?thesis by (simp add: use_whisker_def)
qed

text \<open>
  C20. In a well-formed tree, a memory in its domain is matched by exactly one rule; the search finds
  that rule without a failed assertion and increments its use count; no other rule, no window, pacing
  or domain changes, and the tree stays well-formed. Outside the domain the program exits.
\<close>

theorem use_whisker_finds_unique_rule:
  assumes "tree_ok t"
  shows "if contains (wt_domain t) m
    then \<exists>before w after w' t'. leaves t = before @ w # after \<and> matching m t = [w]
      \<and> use_whisker m trk t = Inr (w', t') \<and> leaves t' = before @ w' # after
      \<and> same_rule w w' \<and> w_count w' = w_count w + 1 \<and> tree_ok t' \<and> wt_domain t' = wt_domain t
    else use_whisker m trk t = Inl ExitFailure"
  using use_whisker_ok [OF assms] use_whisker_outside [OF assms] by auto

lemma tree_ok_default: "tree_ok WhiskerTree_default"
  by (simp add: WhiskerTree_default_def Whisker_default_def Let_def)

theorem use_whisker_finds_unique_rule_witness:
  "\<exists>w t. use_whisker (Memory 1 1 1 1) True WhiskerTree_default = Inr (w, t) \<and> w_count w = 1"
proof -
  have "contains (wt_domain WhiskerTree_default) (Memory 1 1 1 1)"
    by (simp add: WhiskerTree_default_def Let_def contains_def mem_ge_def mem_less_def Memory_def MAX_MEMORY_def)
  moreover have "\<forall>w \<in> set (leaves WhiskerTree_default). w_count w = 0"
    by (simp add: WhiskerTree_default_def Let_def Whisker_default_def w_count_def MemoryRange_def)
  ultimately show ?thesis
    using use_whisker_finds_unique_rule [OF tree_ok_default, of "Memory 1 1 1 1" True] by auto
qed


section \<open>Replacing and refining rules\<close>

text \<open>Replacing is an update of the leaf that the search finds for the centre of the domain.\<close>

lemma whisker_path_in_Some: "whisker_path_in m i cs \<noteq> Inr None"
  by (induction cs arbitrary: i) (auto simp: res_simps split: option.splits)

definition replace_at :: "whisker \<Rightarrow> nat list option \<Rightarrow> whisker_tree \<Rightarrow> (bool \<times> whisker_tree) res" where
  "replace_at w r t = (case r of None \<Rightarrow> Inr (False, t)
     | Some p \<Rightarrow> bindE (guardE (mr_eq (w_domain w) (w_domain (leaf_at p t))) AssertFailed) (\<lambda>_.
         Inr (True, update_at p (\<lambda>_. w) t)))"

definition replace_child_at :: "whisker \<Rightarrow> nat \<Rightarrow> nat list option \<Rightarrow> whisker_tree list \<Rightarrow> whisker_tree list res" where
  "replace_child_at w i r cs = (case r of Some (j # p) \<Rightarrow>
       bindE (replace_at w (Some p) (cs ! (j - i))) (\<lambda>(done, c'). Inr (cs[j - i := c']))
     | _ \<Rightarrow> Inl AssertFailed)"

lemma replace_eq:
  "replace w t = bindE (whisker_path (range_median (w_domain w)) t) (\<lambda>r. replace_at w r t)"
  and replace_in_eq:
  "replace_in w cs = bindE (whisker_path_in (range_median (w_domain w)) i cs) (\<lambda>r. replace_child_at w i r cs)"
proof (induction w t and w cs arbitrary: and i rule: replace_replace_in.induct)
  case (1 w d cs ls)
  let ?m = "range_median (w_domain w)"
  show ?case
  proof (cases "contains d ?m \<and> ls = []")
    case True
    have "bindE (whisker_path_in ?m 0 cs) (\<lambda>r. bindE (replace_child_at w 0 r cs)
        (\<lambda>cs'. Inr (True, WhiskerTree d cs' ls)))
      = bindE (whisker_path_in ?m 0 cs) (\<lambda>r. replace_at w r (WhiskerTree d cs ls))"
    proof (cases "whisker_path_in ?m 0 cs")
      case (Inr r)
      then show ?thesis
      proof (cases r)
        case None
        then show ?thesis using Inr whisker_path_in_Some by simp
      next
        case (Some p)
        then obtain j q where "p = j # q" using whisker_path_in_valid Inr by blast
        then show ?thesis using Inr Some by (auto simp: replace_child_at_def replace_at_def bindE_assoc)
      qed
    qed simp
    moreover have "replace_in w cs = bindE (whisker_path_in ?m 0 cs) (\<lambda>r. replace_child_at w 0 r cs)"
      using 1 True by blast
    ultimately show ?thesis using True by (simp add: bindE_assoc)
  qed (auto simp: replace_at_def)
next
  case (2 w)
  then show ?case by simp
next
  case (3 w c cs)
  let ?m = "range_median (w_domain w)"
  show ?case
  proof (cases "whisker_path ?m c")
    case (Inl e)
    then show ?thesis using 3(1) by simp
  next
    case (Inr r)
    show ?thesis
    proof (cases r)
      case (Some p)
      have "bindE (replace_at w (Some p) c) (\<lambda>(done, c'). if done then Inr (c' # cs)
            else bindE (replace_in w cs) (\<lambda>cs'. Inr (c' # cs')))
          = bindE (replace_at w (Some p) c) (\<lambda>(done, c'). Inr (c' # cs))"
        by (simp add: replace_at_def guardE_def)
      then show ?thesis using Inr Some 3(1) by (simp add: replace_child_at_def)
    next
      case None
      then have c: "replace w c = Inr (False, c)" using 3(1) Inr by (simp add: replace_at_def)
      have IH: "replace_in w cs = bindE (whisker_path_in ?m (Suc i) cs) (\<lambda>r. replace_child_at w (Suc i) r cs)"
        using 3(2) [of "(False, c)" False c "Suc i"] c by simp
      show ?thesis
      proof (cases "whisker_path_in ?m (Suc i) cs")
        case (Inl e)
        then show ?thesis using Inr None c IH by simp
      next
        case (Inr r')
        then obtain p where p: "r' = Some p" using whisker_path_in_Some by (cases r') auto
        then obtain j q where "p = (Suc i + j) # q" using whisker_path_in_valid Inr by blast
        then show ?thesis using \<open>whisker_path ?m c = Inr r\<close> None Inr p c IH
          by (cases "replace_at w (Some q) (cs ! j)") (auto simp: replace_child_at_def)
      qed
    qed
  qed
qed

text \<open>
  C22. Replacing a rule is the same as searching the rule for the centre of its domain and replacing
  the leaf that is found there: nothing happens (with result false) when the centre is outside the
  tree, and an assertion fails exactly when the domain of the leaf differs or the search fails.
\<close>

theorem replace_is_search_and_update:
  "replace w t = bindE (whisker_path (range_median (w_domain w)) t) (\<lambda>r.
     case r of None \<Rightarrow> Inr (False, t)
     | Some p \<Rightarrow> if mr_eq (w_domain w) (w_domain (leaf_at p t)) then Inr (True, update_at p (\<lambda>_. w) t)
                else Inl AssertFailed)"
  unfolding replace_eq replace_at_def by (auto simp: guardE_def intro!: bindE_cong split: option.splits)

lemma hits_map_domain: "hits (map wt_domain (map (\<lambda>x. WhiskerTree (w_domain x) [] [x])
    (map (\<lambda>x. w\<lparr>w_domain := x\<rparr>) rs))) m = hits rs m"
  by (induction rs) auto

text \<open>
  C23. Refining a rule: when the medians of the tracked signals lie in its domain, the tree that bisects
  it is well-formed, has 16 leaves with the actions of the rule, and matches the same memories.
\<close>

theorem bisected_tree_ok:
  assumes "proper (w_domain w)" and "length (mr_acc (w_domain w)) = datasize"
    and "\<forall>i < datasize. field (mr_lower (w_domain w)) i \<le> median (mr_acc (w_domain w) ! i)
           \<and> median (mr_acc (w_domain w) ! i) \<le> field (mr_upper (w_domain w)) i"
  shows "\<exists>t. WhiskerTree_of median w True = Inr t \<and> tree_ok t \<and> length (leaves t) = 16
    \<and> wt_domain t = w_domain w
    \<and> (\<forall>x \<in> set (leaves t). window_increment x = window_increment w
         \<and> window_multiple x = window_multiple w \<and> w_intersend x = w_intersend w)"
proof -
  obtain rs where rs: "mr_bisect median (w_domain w) = Inr rs" "length rs = 16"
    "\<forall>m. hits rs m = (if contains (w_domain w) m then 1 else 0)"
    using mr_bisect_ok [OF assms] by blast
  let ?cs = "map (\<lambda>x. WhiskerTree (w_domain x) [] [x]) (map (\<lambda>x. w\<lparr>w_domain := x\<rparr>) rs)"
  let ?t = "WhiskerTree (w_domain w) ?cs []"
  have "WhiskerTree_of median w True = Inr ?t" by (simp add: WhiskerTree_of_def w_bisect_def rs(1))
  moreover have "tree_ok ?t" using rs(3) hits_map_domain [of w rs] by simp
  moreover have "leaves ?t = map (\<lambda>x. w\<lparr>w_domain := x\<rparr>) rs" by (simp add: comp_def)
  ultimately show ?thesis using rs(2) by auto
qed

theorem bisected_tree_ok_witness:
  "\<exists>t. WhiskerTree_of (\<lambda>xs. 2) (Whisker_default (MemoryRange (Memory 0 0 0 0) MAX_MEMORY)) True = Inr t
     \<and> length (leaves t) = 16"
proof -
  let ?w = "Whisker_default (MemoryRange (Memory 0 0 0 0) MAX_MEMORY)"
  have fields: "field (mr_lower (w_domain ?w)) j = 0" "field (mr_upper (w_domain ?w)) j = 163840" for j
    by (simp_all add: Whisker_default_def field_def Memory_def MAX_MEMORY_def)
  have "length (mr_acc (w_domain ?w)) = datasize" by (simp add: Whisker_default_def MemoryRange_def)
  with fields show ?thesis using bisected_tree_ok [of ?w "\<lambda>xs. 2"] by (auto simp: proper_def)
qed

end
