(* ===== verification/Remy.thy ===== *)
theory Remy
  imports Whisker_Tree
begin

text \<open>
  Model of \<open>src/rat.hh\<close>, \<open>src/rat.cc\<close> (the window of a Remy sender, set by the rule that matches the
  congestion signals) and of \<open>src/remycc.hh\<close>, \<open>src/remycc.cc\<close> (the congestion controller around it,
  compiled with \<open>SCALE_SEND_RECEIVE_EWMA\<close>). The rule tree that a \<open>Rat\<close> refers to is part of its
  state, because using a rule counts in the tree. The global \<open>TRAINING_LINK_RATE\<close> is a parameter.
\<close>


section \<open>Rat\<close>

record rat =
  rat_whiskers :: whisker_tree
  rat_memory :: memory
  packets_sent :: int
  packets_received :: int
  rat_track :: bool
  rat_last_send_time :: real
  rat_window :: int
  rat_intersend_time :: real
  rat_flow_id :: u32
  rat_largest_ack :: int

definition Rat :: "whisker_tree \<Rightarrow> bool \<Rightarrow> rat" where
  "Rat whiskers trk = \<lparr>rat_whiskers = whiskers, rat_memory = Memory_default, packets_sent = 0,
     packets_received = 0, rat_track = trk, rat_last_send_time = 0, rat_window = 0,
     rat_intersend_time = 0, rat_flow_id = 0, rat_largest_ack = - 1\<rparr>"

text \<open>Window and pacing from the rule that matches the signals.\<close>

definition apply_whisker :: "rat \<Rightarrow> rat res" where
  "apply_whisker r =
     bindE (use_whisker (rat_memory r) (rat_track r) (rat_whiskers r)) (\<lambda>(w, t).
     Inr (r\<lparr>rat_whiskers := t, rat_window := w_window w (rat_window r), rat_intersend_time := w_intersend w\<rparr>))"

definition rat_packets_received :: "packet list \<Rightarrow> real \<Rightarrow> rat \<Rightarrow> rat res" where
  "rat_packets_received packets factor r =
     bindE (guardE (packets \<noteq> []) AssertFailed) (\<lambda>_.
     let r1 = r\<lparr>packets_received := packets_received r + int (length packets),
                rat_largest_ack := fold (\<lambda>p a. max (pk_seq_num p) a) packets (rat_largest_ack r)\<rparr>;
         fid = flow_id (last packets)
     in bindE (guardE (sint fid \<noteq> - 1) AssertFailed) (\<lambda>_.
        bindE (mem_packets_received packets fid factor (rat_memory r1)) (\<lambda>m.
        apply_whisker (r1\<lparr>rat_memory := m\<rparr>))))"

definition rat_reset :: "rat \<Rightarrow> rat res" where
  "rat_reset r =
     (let r1 = r\<lparr>rat_memory := mem_reset (rat_memory r), rat_last_send_time := 0, rat_window := 0,
                 rat_intersend_time := 0, rat_flow_id := rat_flow_id r + 1,
                 rat_largest_ack := packets_sent r - 1\<rparr>
      in bindE (guardE (rat_flow_id r1 \<noteq> 0) AssertFailed) (\<lambda>_. Inr r1))"

text \<open>\<open>None\<close> is the largest \<open>double\<close>: the window is closed.\<close>

definition next_event_time :: "real \<Rightarrow> rat \<Rightarrow> real option" where
  "next_event_time tickno r =
     (if packets_sent r < rat_largest_ack r + 1 + rat_window r then
        (if rat_last_send_time r + rat_intersend_time r \<le> tickno then Some tickno
         else Some (rat_last_send_time r + rat_intersend_time r))
      else None)"

definition rat_send :: "real \<Rightarrow> rat \<Rightarrow> (bool \<times> rat) res" where
  "rat_send curtime r =
     bindE (guardE (packets_sent r \<ge> rat_largest_ack r + 1) AssertFailed) (\<lambda>_.
     bindE (if rat_window r = 0 then apply_whisker r else Inr r) (\<lambda>r1.
     if packets_sent r1 < rat_largest_ack r1 + 1 + rat_window r1
        \<and> rat_last_send_time r1 + rat_intersend_time r1 \<le> curtime
     then Inr (True, r1\<lparr>packets_sent := packets_sent r1 + 1, rat_last_send_time := curtime\<rparr>)
     else Inr (False, r1)))"


section \<open>RemyCC\<close>

record remycc =
  rc_rat :: rat
  rc_unacknowledged_packets :: "int \<rightharpoonup> real"
  rc_flow_id :: int
  rc_cur_tick :: real
  measured_link_rate :: real
  rc_window :: real
  rc_intersend_time :: real
  rc_timeout :: real

definition RemyCC :: "whisker_tree \<Rightarrow> remycc" where
  "RemyCC s_tree = \<lparr>rc_rat = Rat s_tree False, rc_unacknowledged_packets = Map.empty, rc_flow_id = 0,
     rc_cur_tick = 0, measured_link_rate = - 1, rc_window = 2, rc_intersend_time = 0, rc_timeout = 1000\<rparr>"

definition rc_init :: "remycc \<Rightarrow> remycc res" where
  "rc_init s = bindE (rat_reset (rc_rat s)) (\<lambda>r.
     Inr (s\<lparr>rc_flow_id := 0, rc_rat := r, rc_window := 2, rc_intersend_time := 0\<rparr>))"

definition rc_set_timestamp :: "real \<Rightarrow> remycc \<Rightarrow> remycc" where
  "rc_set_timestamp t s = s\<lparr>rc_cur_tick := t\<rparr>"

definition rc_onLinkRateMeasurement :: "real \<Rightarrow> remycc \<Rightarrow> remycc" where
  "rc_onLinkRateMeasurement rate s = s\<lparr>measured_link_rate := rate\<rparr>"

definition rc_onPktSent :: "int \<Rightarrow> remycc \<Rightarrow> remycc" where
  "rc_onPktSent seq s = s\<lparr>rc_unacknowledged_packets := (rc_unacknowledged_packets s)(seq \<mapsto> rc_cur_tick s)\<rparr>"

definition acked_packet :: "int \<Rightarrow> real \<Rightarrow> real \<Rightarrow> remycc \<Rightarrow> packet" where
  "acked_packet seq recv_ts sent_time s =
     (Packet 0 (of_int (rc_flow_id s)) sent_time seq)
       \<lparr>tick_received := rc_cur_tick s, receiver_timestamp := recv_ts\<rparr>"

text \<open>
  The keys of an \<open>unordered_map\<close> are distinct, so the branch for a repeated packet is never taken;
  an unknown packet is ignored.
\<close>

definition rc_onACK :: "real \<Rightarrow> int \<Rightarrow> real \<Rightarrow> remycc \<Rightarrow> remycc res" where
  "rc_onACK training ack recv_ts s =
     (let seq = ack - 1 in
      case rc_unacknowledged_packets s seq of None \<Rightarrow> Inr s
      | Some sent_time \<Rightarrow>
          let s1 = s\<lparr>rc_unacknowledged_packets := (rc_unacknowledged_packets s)(seq := None)\<rparr>;
              p = acked_packet seq recv_ts sent_time s1;
              rate = measured_link_rate s1
          in if rate > 0 then
               bindE (rat_packets_received [p] (1 * training / rate) (rc_rat s1)) (\<lambda>r.
               Inr (s1\<lparr>rc_rat := r, rc_window := of_int (rat_window r) * rate / training,
                       rc_intersend_time := rat_intersend_time r * training / rate\<rparr>))
             else
               bindE (rat_packets_received [p] 1 (rc_rat s1)) (\<lambda>r.
               Inr (s1\<lparr>rc_rat := r, rc_window := of_int (rat_window r),
                       rc_intersend_time := rat_intersend_time r\<rparr>)))"


section \<open>Sending within the window\<close>

definition rat_ok :: "rat \<Rightarrow> bool" where
  "rat_ok r \<longleftrightarrow> tree_ok (rat_whiskers r) \<and> mem_ok (rat_memory r)
     \<and> 0 \<le> rat_window r \<and> rat_window r \<le> 1000000"

text \<open>
  With an open window, a \<open>Rat\<close> sends at a time exactly when \<open>next_event_time\<close> announces that
  time; a packet that is sent keeps the packets in flight within the window, and one that is not
  leaves the state alone.
\<close>

theorem rat_send_iff_event_now:
  assumes "rat_largest_ack r + 1 \<le> packets_sent r" and "rat_window r \<noteq> 0"
  shows "rat_send now r =
    (if next_event_time now r = Some now
     then Inr (True, r\<lparr>packets_sent := packets_sent r + 1, rat_last_send_time := now\<rparr>)
     else Inr (False, r))
    \<and> (next_event_time now r = Some now \<longrightarrow>
         packets_sent r + 1 - (rat_largest_ack r + 1) \<le> rat_window r)"
  using assms by (auto simp: rat_send_def next_event_time_def)

theorem rat_send_iff_event_now_witness:
  "\<exists>r'. rat_send 7 ((Rat WhiskerTree_default False)\<lparr>rat_window := 1\<rparr>) = Inr (True, r')"
  using rat_send_iff_event_now [of "(Rat WhiskerTree_default False)\<lparr>rat_window := 1\<rparr>" 7]
  by (simp add: Rat_def next_event_time_def)


section \<open>Acknowledgements\<close>

lemma w_window_range: "0 \<le> w_window w p \<and> w_window w p \<le> 1000000"
  by (simp add: w_window_def)

lemma apply_whisker_ok:
  assumes "tree_ok (rat_whiskers r)"
  shows "if contains (wt_domain (rat_whiskers r)) (rat_memory r)
    then \<exists>w w' t. matching (rat_memory r) (rat_whiskers r) = [w] \<and> same_rule w w' \<and> tree_ok t
      \<and> apply_whisker r = Inr (r\<lparr>rat_whiskers := t, rat_window := w_window w (rat_window r),
          rat_intersend_time := w_intersend w\<rparr>)
    else apply_whisker r = Inl ExitFailure"
proof (cases "contains (wt_domain (rat_whiskers r)) (rat_memory r)")
  case True
  then obtain w w' t where "matching (rat_memory r) (rat_whiskers r) = [w]" "same_rule w w'" "tree_ok t"
    "use_whisker (rat_memory r) (rat_track r) (rat_whiskers r) = Inr (w', t)"
    using use_whisker_ok [OF assms True, of "rat_track r"] by blast
  then show ?thesis using True by (auto simp: apply_whisker_def same_rule_def w_window_def)
next
  case False
  then show ?thesis using use_whisker_outside [OF assms] by (simp add: apply_whisker_def)
qed

lemma rat_one_packet:
  assumes "rat_ok r" and "sint (flow_id p) \<noteq> - 1" and "follows (rat_memory r) p" and "0 \<le> factor"
  shows "\<exists>m. packet_received factor p (rat_memory r) = Inr m \<and> mem_ok m \<and>
    (if contains (wt_domain (rat_whiskers r)) m
     then \<exists>w r'. matching m (rat_whiskers r) = [w] \<and> rat_packets_received [p] factor r = Inr r' \<and> rat_ok r'
       \<and> rat_memory r' = m \<and> rat_window r' = w_window w (rat_window r) \<and> rat_intersend_time r' = w_intersend w
     else rat_packets_received [p] factor r = Inl ExitFailure)"
proof -
  obtain m where m: "packet_received factor p (rat_memory r) = Inr m" "mem_ok m"
    using packet_received_ok [of "rat_memory r" p factor] assms by (auto simp: rat_ok_def)
  define r1 where "r1 = r\<lparr>packets_received := packets_received r + 1,
    rat_largest_ack := max (pk_seq_num p) (rat_largest_ack r), rat_memory := m\<rparr>"
  have run: "rat_packets_received [p] factor r = apply_whisker r1"
    using m assms(2) by (simp add: rat_packets_received_def mem_packets_received_def r1_def Let_def)
  have tree: "tree_ok (rat_whiskers r1)" using assms(1) by (simp add: r1_def rat_ok_def)
  from m apply_whisker_ok [OF tree] w_window_range show ?thesis
    unfolding run by (auto simp: r1_def rat_ok_def split: if_splits)
qed


text \<open>The factor between the link that the rules were trained for and the measured one.\<close>

definition link_scale :: "real \<Rightarrow> remycc \<Rightarrow> real" where
  "link_scale training s = (if measured_link_rate s > 0 then training / measured_link_rate s else 1)"

text \<open>
  C26. The acknowledgement of a packet that is in flight updates the signals and sets window and pacing
  by the one rule that matches them, scaled to the measured link, and the packet is no longer in
  flight; when no rule matches, the program exits. The acknowledgement of any other packet changes
  nothing.
\<close>

theorem rc_onACK_applies_rule:
  assumes "rat_ok (rc_rat s)" and "rc_flow_id s = 0" and "0 < training"
    and "\<And>sent. rc_unacknowledged_packets s (ack - 1) = Some sent \<Longrightarrow>
           follows (rat_memory (rc_rat s)) (acked_packet (ack - 1) recv_ts sent s)"
  shows "case rc_unacknowledged_packets s (ack - 1) of None \<Rightarrow> rc_onACK training ack recv_ts s = Inr s
    | Some sent \<Rightarrow> \<exists>m. packet_received (link_scale training s) (acked_packet (ack - 1) recv_ts sent s)
          (rat_memory (rc_rat s)) = Inr m \<and>
        (if contains (wt_domain (rat_whiskers (rc_rat s))) m
         then \<exists>w s'. matching m (rat_whiskers (rc_rat s)) = [w] \<and> rc_onACK training ack recv_ts s = Inr s'
           \<and> rat_ok (rc_rat s') \<and> rat_memory (rc_rat s') = m
           \<and> rc_unacknowledged_packets s' = (rc_unacknowledged_packets s)(ack - 1 := None)
           \<and> rc_window s' = of_int (w_window w (rat_window (rc_rat s))) / link_scale training s
           \<and> rc_intersend_time s' = w_intersend w * link_scale training s
         else rc_onACK training ack recv_ts s = Inl ExitFailure)"
proof (cases "rc_unacknowledged_packets s (ack - 1)")
  case None
  then show ?thesis by (simp add: rc_onACK_def)
next
  case (Some sent)
  let ?p = "acked_packet (ack - 1) recv_ts sent s" and ?f = "link_scale training s"
  have f: "0 < ?f" using assms(3) by (simp add: link_scale_def)
  have p: "acked_packet (ack - 1) recv_ts sent (s\<lparr>rc_unacknowledged_packets := u\<rparr>) = ?p" for u
    by (simp add: acked_packet_def)
  have "sint (flow_id ?p) \<noteq> - 1" using assms(2) by (simp add: acked_packet_def Packet_def)
  from rat_one_packet [OF assms(1) this assms(4) [OF Some] less_imp_le [OF f]] obtain m where
    m: "packet_received ?f ?p (rat_memory (rc_rat s)) = Inr m"
    "if contains (wt_domain (rat_whiskers (rc_rat s))) m
     then \<exists>w r'. matching m (rat_whiskers (rc_rat s)) = [w] \<and> rat_packets_received [?p] ?f (rc_rat s) = Inr r'
       \<and> rat_ok r' \<and> rat_memory r' = m \<and> rat_window r' = w_window w (rat_window (rc_rat s))
       \<and> rat_intersend_time r' = w_intersend w
     else rat_packets_received [?p] ?f (rc_rat s) = Inl ExitFailure"
    by blast
  have run: "rc_onACK training ack recv_ts s = bindE (rat_packets_received [?p] ?f (rc_rat s)) (\<lambda>r.
      Inr (s\<lparr>rc_unacknowledged_packets := (rc_unacknowledged_packets s)(ack - 1 := None), rc_rat := r,
        rc_window := of_int (rat_window r) / ?f, rc_intersend_time := rat_intersend_time r * ?f\<rparr>))"
    by (simp add: rc_onACK_def Some p link_scale_def Let_def)
  show ?thesis using m unfolding Some run by (auto split: if_splits)
qed

lemma rat_ok_init: "tree_ok t \<Longrightarrow> rat_ok (Rat t trk)"
  by (simp add: rat_ok_def Rat_def mem_ok_init)

theorem rc_onACK_applies_rule_witness:
  "\<exists>s'. rc_onACK 1 1 5 (rc_set_timestamp 9 (rc_onPktSent 0 (rc_set_timestamp 2 (RemyCC WhiskerTree_default)))) = Inr s'
     \<and> rc_unacknowledged_packets s' 0 = None"
proof -
  let ?s = "rc_set_timestamp 9 (rc_onPktSent 0 (rc_set_timestamp 2 (RemyCC WhiskerTree_default)))"
  have sent: "rc_unacknowledged_packets ?s 0 = Some 2" and rat: "rc_rat ?s = Rat WhiskerTree_default False"
    by (simp_all add: rc_set_timestamp_def rc_onPktSent_def RemyCC_def)
  let ?p = "acked_packet 0 5 2 ?s"
  have p: "follows (Memory 0 0 0 0) ?p"
    by (simp add: follows_def acked_packet_def Packet_def rc_set_timestamp_def Memory_def RemyCC_def)
  have m: "\<exists>m. packet_received f ?p (Memory 0 0 0 0) = Inr m \<and> contains (wt_domain WhiskerTree_default) m" for f
    by (simp add: packet_received_def Memory_def WhiskerTree_default_def Let_def contains_def mem_ge_def
        mem_less_def MAX_MEMORY_def)
  show ?thesis
    using rc_onACK_applies_rule [of ?s 1 1 5] rat_ok_init [OF tree_ok_default] m [of "link_scale 1 ?s"] p sent
    unfolding rat by (auto simp: Rat_def rc_set_timestamp_def rc_onPktSent_def RemyCC_def)
qed

end
