(* ===== verification/Remy_Dna.thy ===== *)
theory Remy_Dna
  imports Whisker_Tree
begin

text \<open>
  The stored form of a Remy rule tree. The messages of \<open>src/protobufs-default/dna.proto\<close> are records
  whose optional fields are options (the generated code reads an unset number as 0 and an unset
  message as the message without fields); the conversions are the functions \<open>DNA\<close> and the
  constructors from messages in \<open>src/memory-default.cc\<close>, \<open>src/memoryrange.cc\<close>, \<open>src/whisker.cc\<close> and
  \<open>src/whiskertree.cc\<close>. The bytes on disk are those of the protocol-buffer library.
\<close>


section \<open>Messages\<close>

record dna_memory =
  dna_rec_send_ewma :: "real option"
  dna_rec_rec_ewma :: "real option"
  dna_rtt_ratio :: "real option"
  dna_slow_rec_rec_ewma :: "real option"

record dna_range =
  dna_lower :: "dna_memory option"
  dna_upper :: "dna_memory option"

record dna_whisker =
  dna_window_increment :: "int option"
  dna_window_multiple :: "real option"
  dna_intersend :: "real option"
  dna_whisker_domain :: "dna_range option"

datatype dna_tree =
  DnaTree (dna_tree_domain: "dna_range option") (dna_children: "dna_tree list") (dna_leaf: "dna_whisker option")

definition empty_dna_memory :: dna_memory where
  "empty_dna_memory = \<lparr>dna_rec_send_ewma = None, dna_rec_rec_ewma = None, dna_rtt_ratio = None,
     dna_slow_rec_rec_ewma = None\<rparr>"

definition empty_dna_range :: dna_range where
  "empty_dna_range = \<lparr>dna_lower = None, dna_upper = None\<rparr>"


section \<open>Conversions\<close>

text \<open>The value of an optional field.\<close>

definition get_or :: "'a \<Rightarrow> 'a option \<Rightarrow> 'a" where
  "get_or d x = (case x of None \<Rightarrow> d | Some v \<Rightarrow> v)"

definition memory_dna :: "memory \<Rightarrow> dna_memory" where
  "memory_dna m = \<lparr>dna_rec_send_ewma = Some (rec_send_ewma m), dna_rec_rec_ewma = Some (rec_rec_ewma m),
     dna_rtt_ratio = Some (rtt_ratio m), dna_slow_rec_rec_ewma = Some (slow_rec_rec_ewma m)\<rparr>"

definition get_val_or_default :: "bool \<Rightarrow> real option \<Rightarrow> real" where
  "get_val_or_default limit x = get_or (if limit then 0 else 163840) x"

definition memory_of_dna :: "bool \<Rightarrow> dna_memory \<Rightarrow> memory" where
  "memory_of_dna is_lower_limit dna =
     Memory (get_val_or_default is_lower_limit (dna_rec_send_ewma dna))
       (get_val_or_default is_lower_limit (dna_rec_rec_ewma dna))
       (get_val_or_default is_lower_limit (dna_rtt_ratio dna))
       (get_val_or_default is_lower_limit (dna_slow_rec_rec_ewma dna))"

definition range_dna :: "memory_range \<Rightarrow> dna_range" where
  "range_dna r = \<lparr>dna_lower = Some (memory_dna (mr_lower r)), dna_upper = Some (memory_dna (mr_upper r))\<rparr>"

definition range_of_dna :: "dna_range \<Rightarrow> memory_range" where
  "range_of_dna dna = MemoryRange (memory_of_dna True (get_or empty_dna_memory (dna_lower dna)))
     (memory_of_dna False (get_or empty_dna_memory (dna_upper dna)))"

definition whisker_dna :: "whisker \<Rightarrow> dna_whisker" where
  "whisker_dna w = \<lparr>dna_window_increment = Some (window_increment w),
     dna_window_multiple = Some (window_multiple w), dna_intersend = Some (w_intersend w),
     dna_whisker_domain = Some (range_dna (w_domain w))\<rparr>"

definition whisker_of_dna :: "dna_whisker \<Rightarrow> whisker" where
  "whisker_of_dna dna = \<lparr>w_generation = 0, window_increment = get_or 0 (dna_window_increment dna),
     window_multiple = get_or 0 (dna_window_multiple dna), w_intersend = get_or 0 (dna_intersend dna),
     w_domain = range_of_dna (get_or empty_dna_range (dna_whisker_domain dna))\<rparr>"

fun tree_dna :: "whisker_tree \<Rightarrow> dna_tree" where
  "tree_dna (WhiskerTree d cs ls) =
     (if ls \<noteq> [] then DnaTree (Some (range_dna d)) [] (Some (whisker_dna (hd ls)))
      else DnaTree (Some (range_dna d)) (map tree_dna cs) None)"

fun tree_of_dna :: "dna_tree \<Rightarrow> whisker_tree res"
and trees_of_dna :: "dna_tree list \<Rightarrow> whisker_tree list res" where
  "tree_of_dna (DnaTree d cs leaf) =
     (let dom = range_of_dna (get_or empty_dna_range d) in
      case leaf of
        Some l \<Rightarrow> bindE (guardE (cs = []) AssertFailed) (\<lambda>_. Inr (WhiskerTree dom [] [whisker_of_dna l]))
      | None \<Rightarrow> bindE (guardE (cs \<noteq> []) AssertFailed) (\<lambda>_.
          bindE (trees_of_dna cs) (\<lambda>ts. Inr (WhiskerTree dom ts []))))"
| "trees_of_dna [] = Inr []"
| "trees_of_dna (c # cs) = bindE (tree_of_dna c) (\<lambda>t. bindE (trees_of_dna cs) (\<lambda>ts. Inr (t # ts)))"


section \<open>Storing and loading\<close>

text \<open>What is not stored: generations, use counts, tracked samples and the state of the memories.\<close>

definition fresh_memory :: "memory \<Rightarrow> memory" where
  "fresh_memory m = Memory (rec_send_ewma m) (rec_rec_ewma m) (rtt_ratio m) (slow_rec_rec_ewma m)"

definition fresh_range :: "memory_range \<Rightarrow> memory_range" where
  "fresh_range r = MemoryRange (fresh_memory (mr_lower r)) (fresh_memory (mr_upper r))"

definition fresh_whisker :: "whisker \<Rightarrow> whisker" where
  "fresh_whisker w = w\<lparr>w_generation := 0, w_domain := fresh_range (w_domain w)\<rparr>"

fun fresh_tree :: "whisker_tree \<Rightarrow> whisker_tree" where
  "fresh_tree (WhiskerTree d cs ls) =
     WhiskerTree (fresh_range d) (map fresh_tree cs) (map fresh_whisker ls)"

text \<open>The shape that the constructor from a message asserts.\<close>

fun shape_ok :: "whisker_tree \<Rightarrow> bool" where
  "shape_ok (WhiskerTree d cs ls) \<longleftrightarrow>
     (if ls \<noteq> [] then length ls = 1 \<and> cs = [] else cs \<noteq> [] \<and> (\<forall>c \<in> set cs. shape_ok c))"

lemma memory_round_trip: "memory_of_dna b (memory_dna m) = fresh_memory m"
  by (simp add: memory_of_dna_def memory_dna_def fresh_memory_def get_val_or_default_def get_or_def)

lemma range_round_trip: "range_of_dna (range_dna r) = fresh_range r"
  by (simp add: range_of_dna_def range_dna_def fresh_range_def memory_round_trip get_or_def)

lemma whisker_round_trip: "whisker_of_dna (whisker_dna w) = fresh_whisker w"
  by (simp add: whisker_of_dna_def whisker_dna_def fresh_whisker_def range_round_trip get_or_def)

lemma trees_of_dna_map:
  "\<forall>c \<in> set cs. tree_of_dna (f c) = Inr (g c) \<Longrightarrow> trees_of_dna (map f cs) = Inr (map g cs)"
  by (induction cs) auto

lemma tree_round_trip: "shape_ok t \<Longrightarrow> tree_of_dna (tree_dna t) = Inr (fresh_tree t)"
proof (induction t)
  case (WhiskerTree d cs ls)
  show ?case
  proof (cases "ls = []")
    case True
    then have "trees_of_dna (map tree_dna cs) = Inr (map fresh_tree cs)"
      using WhiskerTree by (intro trees_of_dna_map) auto
    then show ?thesis using True WhiskerTree.prems by (simp add: range_round_trip get_or_def)
  next
    case False
    then obtain w where "ls = [w]" using WhiskerTree.prems by (cases ls) auto
    then show ?thesis using WhiskerTree.prems
      by (simp add: range_round_trip whisker_round_trip get_or_def)
  qed
qed

lemma contains_fresh [simp]: "contains (fresh_range r) m = contains r m"
  by (simp add: contains_def fresh_range_def fresh_memory_def mem_ge_def mem_less_def Memory_def)

lemma matching_fresh: "shape_ok t \<Longrightarrow> matching m (fresh_tree t) = map fresh_whisker (matching m t)"
proof (induction t)
  case (WhiskerTree d cs ls)
  show ?case
  proof (cases "ls = []")
    case True
    then have "\<forall>c \<in> set cs. matching m (fresh_tree c) = map fresh_whisker (matching m c)"
      using WhiskerTree by simp
    then have "matching_in m (map fresh_tree cs) = map fresh_whisker (matching_in m cs)"
      by (induction cs) auto
    then show ?thesis using True by simp
  next
    case False
    then show ?thesis by (cases ls) (auto simp: fresh_whisker_def)
  qed
qed

text \<open>
  C24. Storing a tree and loading it again fails no assertion and yields the same tree with the rules'
  statistics reset; every memory is matched by the same rules (reset) as before.
\<close>

theorem dna_round_trip:
  assumes "shape_ok t"
  shows "tree_of_dna (tree_dna t) = Inr (fresh_tree t)
    \<and> (\<forall>m. matching m (fresh_tree t) = map fresh_whisker (matching m t))"
  using tree_round_trip [OF assms] matching_fresh [OF assms] by simp

theorem dna_round_trip_witness:
  "tree_of_dna (tree_dna WhiskerTree_default) = Inr WhiskerTree_default"
  using dna_round_trip [of WhiskerTree_default]
  by (simp add: WhiskerTree_default_def Whisker_default_def Let_def fresh_whisker_def fresh_range_def
      fresh_memory_def Memory_def MAX_MEMORY_def)

end
