(* ===== verification/Traffic_Generator.thy ===== *)
theory Traffic_Generator
  imports C_Strings
begin

text \<open>
  Model of \<open>src/traffic-generator.hh\<close>: the parameters of the on/off traffic and the loop that runs
  one flow after the other. The random durations are the environment (one pair per flow), and the
  operation \<open>send_data\<close> of the connection is the parameter \<open>run_flow\<close>, which returns \<open>None\<close> when it
  does not return; it knows the source number that \<open>spawn_senders\<close> draws.
\<close>


section \<open>Parameters\<close>

datatype traffic_type = EXPONENTIAL_ON_OFF | DETERMINISTIC_ON_OFF

datatype switch_type = TIME_SWITCHED | BYTE_SWITCHED

record traffic_generator =
  tg_traffic_type :: traffic_type
  tg_switch_type :: switch_type
  mean_off_unit :: real
  mean_on_unit :: real
  num_cycles :: u32

definition apply_param :: "string \<Rightarrow> traffic_generator \<Rightarrow> traffic_generator" where
  "apply_param arg g =
     (if arg = ''exponential'' then g\<lparr>tg_traffic_type := EXPONENTIAL_ON_OFF\<rparr>
      else if arg = ''deterministic'' then g\<lparr>tg_traffic_type := DETERMINISTIC_ON_OFF\<rparr>
      else if arg = ''byte_switched'' then g\<lparr>tg_switch_type := BYTE_SWITCHED\<rparr>
      else if take 11 arg = ''num_cycles='' then g\<lparr>num_cycles := of_int (atoi (drop 11 arg))\<rparr>
      else g)"

text \<open>\<open>s.find(',', pos)\<close>, or the length of the string when there is none.\<close>

definition find_comma :: "string \<Rightarrow> nat \<Rightarrow> nat" where
  "find_comma s pos = pos + length (takeWhile (\<lambda>c. c \<noteq> CHR '','') (drop pos s))"

function parse_params :: "string \<Rightarrow> nat \<Rightarrow> traffic_generator \<Rightarrow> traffic_generator" where
  "parse_params s start_pos g =
     (if start_pos < length s then
        (let end_pos = find_comma s start_pos
         in parse_params s (end_pos + 1) (apply_param (take (end_pos - start_pos) (drop start_pos s)) g))
      else g)"
  by auto
termination
  by (relation "measure (\<lambda>(s, start_pos, g). length s - start_pos)") (auto simp: find_comma_def)

declare parse_params.simps [simp del]

definition TrafficGenerator :: "real \<Rightarrow> real \<Rightarrow> string \<Rightarrow> traffic_generator" where
  "TrafficGenerator s_mean_on_unit s_mean_off_unit traffic_params =
     parse_params traffic_params 0 \<lparr>tg_traffic_type = EXPONENTIAL_ON_OFF, tg_switch_type = TIME_SWITCHED,
       mean_off_unit = s_mean_off_unit, mean_on_unit = s_mean_on_unit, num_cycles = - 1\<rparr>"


section \<open>Flows\<close>

text \<open>The time or the number of bytes of a flow, given the random sample.\<close>

definition on_duration :: "traffic_generator \<Rightarrow> real \<Rightarrow> real" where
  "on_duration g sample = (if tg_traffic_type g = DETERMINISTIC_ON_OFF then mean_on_unit g else sample)"

fun flow_loop ::
  "traffic_generator \<Rightarrow> (real \<Rightarrow> bool \<Rightarrow> u32 \<Rightarrow> 's \<Rightarrow> 's res option) \<Rightarrow> (real \<times> real) list \<Rightarrow> u32 \<Rightarrow> 's \<Rightarrow> 's res option" where
  "flow_loop g run_flow [] fid s = None"
| "flow_loop g run_flow ((off_sample, on_sample) # samples) fid s =
     (case run_flow (on_duration g on_sample) (tg_switch_type g = BYTE_SWITCHED) fid s of
        None \<Rightarrow> None
      | Some (Inl e) \<Rightarrow> Some (Inl e)
      | Some (Inr s') \<Rightarrow>
          if fid + 1 \<ge> num_cycles g then Some (Inr s')
          else flow_loop g run_flow samples (fid + 1) s')"

definition tg_send_data ::
  "traffic_generator \<Rightarrow> (real \<Rightarrow> bool \<Rightarrow> u32 \<Rightarrow> 's \<Rightarrow> 's res option) \<Rightarrow> (real \<times> real) list \<Rightarrow> 's \<Rightarrow> 's res option" where
  "tg_send_data g run_flow samples s = flow_loop g run_flow samples 0 s"

text \<open>Only one sender is supported; the seed that it draws is that of the samples.\<close>

definition spawn_senders ::
  "traffic_generator \<Rightarrow> int \<Rightarrow> (real \<Rightarrow> bool \<Rightarrow> u32 \<Rightarrow> 's \<Rightarrow> 's res option) \<Rightarrow> (real \<times> real) list \<Rightarrow> 's \<Rightarrow> 's res option" where
  "spawn_senders g num_senders run_flow samples s =
     (if num_senders \<noteq> 1 then Some (Inl AssertFailed) else tg_send_data g run_flow samples s)"


section \<open>Parsing recovers the parameters\<close>

fun join_commas :: "string list \<Rightarrow> string" where
  "join_commas [] = []"
| "join_commas [a] = a"
| "join_commas (a # b # as) = a @ CHR '','' # join_commas (b # as)"

lemma apply_param_empty [simp]: "apply_param [] g = g"
  by (simp add: apply_param_def)

lemma parse_params_end: "length s \<le> pos \<Longrightarrow> parse_params s pos g = g"
  by (subst parse_params.simps) simp

lemma parse_params_suffix:
  assumes "\<forall>a \<in> set args. CHR '','' \<notin> set a" and "drop pos s = join_commas args" and "pos \<le> length s"
  shows "parse_params s pos g = fold apply_param args g"
  using assms
proof (induction args arbitrary: pos g rule: join_commas.induct)
  case 1
  then show ?case by (simp add: parse_params_end)
next
  case (2 a)
  have find: "find_comma s pos = pos + length a"
  proof -
    have "takeWhile (\<lambda>c. c \<noteq> CHR '','') a = a" using 2(1) by (auto simp: takeWhile_eq_all_conv)
    then show ?thesis using 2(2) unfolding find_comma_def by (simp only: join_commas.simps)
  qed
  have len: "length s = pos + length a" using 2(2,3) by (metis join_commas.simps(2) le_add_diff_inverse length_drop)
  show ?case
  proof (cases "a = []")
    case True
    then show ?thesis using len by (simp add: parse_params_end)
  next
    case False
    then have "parse_params s pos g = parse_params s (Suc (pos + length a)) (apply_param a g)"
      using len 2(2) by (subst parse_params.simps) (simp add: find Let_def)
    then show ?thesis using len by (simp add: parse_params_end)
  qed
next
  case (3 a b as)
  have "takeWhile (\<lambda>c. c \<noteq> CHR '','') (drop pos s) = a"
  proof -
    have "\<forall>x \<in> set a. x \<noteq> CHR '','' " using 3(2) by auto
    then show ?thesis using 3(3) by (simp add: takeWhile_append2)
  qed
  then have find: "find_comma s pos = pos + length a" by (simp add: find_comma_def)
  have len: "length s = pos + Suc (length a + length (join_commas (b # as)))"
    using 3(3,4) by (metis add_Suc_right join_commas.simps(3) le_add_diff_inverse length_Cons length_append length_drop)
  have rest: "drop (Suc (pos + length a)) s = join_commas (b # as)"
    using 3(3) by (metis append_eq_conv_conj drop_Suc drop_drop add.commute join_commas.simps(3) list.sel(3) tl_drop)
  have arg: "take (length a) (drop pos s) = a" using 3(3) by simp
  have "parse_params s pos g = parse_params s (Suc (pos + length a)) (apply_param a g)"
    using len arg by (subst parse_params.simps) (simp add: find Let_def)
  then show ?case using 3(1) [OF _ rest] 3(2) len by simp
qed

text \<open>
  Parameters that are joined by commas are applied one after the other, in order, to the defaults;
  the parser ends for every string.
\<close>

theorem traffic_params_applied_in_order:
  assumes "\<forall>a \<in> set args. CHR '','' \<notin> set a"
  shows "TrafficGenerator on off (join_commas args) = fold apply_param args (TrafficGenerator on off [])"
proof -
  have "TrafficGenerator on off [] = \<lparr>tg_traffic_type = EXPONENTIAL_ON_OFF, tg_switch_type = TIME_SWITCHED,
      mean_off_unit = off, mean_on_unit = on, num_cycles = - 1\<rparr>"
    unfolding TrafficGenerator_def by (subst parse_params.simps) simp
  then show ?thesis using parse_params_suffix [OF assms, of 0 "join_commas args"]
    by (simp add: TrafficGenerator_def)
qed

theorem traffic_params_applied_in_order_witness:
  "num_cycles (TrafficGenerator 1 1 ''deterministic,num_cycles=3'') = 3"
  using traffic_params_applied_in_order [of "[''deterministic'', ''num_cycles=3'']" 1 1]
  by (simp add: apply_param_def atoi_def read_sign_def is_space_def is_digit_def digits_value_def)


section \<open>The number of flows\<close>

lemma flow_loop_runs:
  assumes "\<And>on b fid s. run_flow on b fid s = Some (Inr (step on b fid s))"
    and "k \<le> length samples" and "0 < k" and "unat fid + k = max (unat fid + 1) (unat (num_cycles g))"
    and "unat fid + k < 2 ^ 32"
  shows "flow_loop g run_flow samples fid s = Some (Inr (fold
    (\<lambda>(i, off, on) s. step (on_duration g on) (tg_switch_type g = BYTE_SWITCHED) (fid + of_nat i) s)
    (zip [0..<k] samples) s))"
  using assms(2-5)
proof (induction k arbitrary: samples fid s)
  case (Suc k)
  obtain off on rest where samples: "samples = (off, on) # rest" using Suc.prems(1) by (cases samples) auto
  have next_id: "unat (fid + 1) = unat fid + 1"
    using Suc.prems(4) by (simp add: unat_word_ariths unsigned_of_nat take_bit_nat_eq_self)
  have zip: "zip [0..<Suc k] samples = (0, off, on) # map (\<lambda>(i, x). (Suc i, x)) (zip [0..<k] rest)"
    by (simp add: samples upt_conv_Cons map_Suc_upt [symmetric] zip_map1 del: upt_Suc)
  show ?case
  proof (cases k)
    case 0
    then have "num_cycles g \<le> fid + 1" using Suc.prems(3) next_id by (simp add: word_le_nat_alt)
    then show ?thesis using 0 assms(1) by (simp add: samples)
  next
    case (Suc j)
    then have "\<not> num_cycles g \<le> fid + 1" using Suc.prems(3) next_id by (simp add: word_le_nat_alt)
    moreover have "k \<le> length rest" "0 < k" "unat (fid + 1) + k = max (unat (fid + 1) + 1) (unat (num_cycles g))"
      "unat (fid + 1) + k < 2 ^ 32"
      using Suc Suc.prems samples next_id by auto
    note IH = Suc.IH [OF this, of "step (on_duration g on) (tg_switch_type g = BYTE_SWITCHED) fid s"]
    ultimately show ?thesis using assms(1) IH
      unfolding zip by (simp add: samples fold_map comp_def split_beta add.assoc)
  qed
qed simp


text \<open>
  C27. When every flow returns, the generator runs \<open>num_cycles\<close> flows (but at least one), with the
  flow numbers 0, 1, ... in order, and with the configured durations in the deterministic mode; then
  it stops.
\<close>

theorem traffic_runs_all_cycles:
  assumes "\<And>on b fid s. run_flow on b fid s = Some (Inr (step on b fid s))"
    and "k = max 1 (unat (num_cycles g))" and "k \<le> length samples"
  shows "spawn_senders g 1 run_flow samples s = Some (Inr (fold
    (\<lambda>(i, off, on) s. step (on_duration g on) (tg_switch_type g = BYTE_SWITCHED) (of_nat i) s)
    (zip [0..<k] samples) s))"
proof -
  have "unat (num_cycles g) < 2 ^ 32" by (rule order_less_le_trans [OF unsigned_less]) simp
  then show ?thesis
    using flow_loop_runs [of run_flow step k samples 0 g s, OF assms(1,3)] assms(2)
    by (simp add: spawn_senders_def tg_send_data_def)
qed

theorem traffic_runs_all_cycles_witness:
  "spawn_senders (TrafficGenerator 1 1 ''num_cycles=2'') 1 (\<lambda>on b fid s. Some (Inr (s @ [fid])))
     [(0, 0), (0, 0)] [] = Some (Inr [0, 1])"
proof -
  have "num_cycles (TrafficGenerator 1 1 ''num_cycles=2'') = 2"
    using parse_params_suffix [of "[''num_cycles=2'']" 0 "''num_cycles=2''"]
    by (simp add: TrafficGenerator_def apply_param_def atoi_def read_sign_def is_space_def is_digit_def
        digits_value_def)
  then have cycles: "2 = max 1 (unat (num_cycles (TrafficGenerator 1 1 ''num_cycles=2'')))" by simp
  have "[0..<2] = [0, 1 :: nat]" by (simp add: upt_rec)
  then show ?thesis
    using traffic_runs_all_cycles [of "\<lambda>on b fid s. Some (Inr (s @ [fid]))" "\<lambda>on b fid s. s @ [fid]",
        OF refl cycles, of "[(0, 0), (0, 0)]" "[]"] by simp
qed

end
