(* ===== verification/Sender.thy ===== *)
theory Sender
  imports Ctcp Remy Remy_Dna Traffic_Generator
begin

text \<open>
  Model of \<open>src/sender.cc\<close>: the options on the command line and the choice of the congestion
  controller. The files that hold Remy rules are the parameter \<open>files\<close> (\<open>None\<close> when a file cannot be
  opened or parsed); usage messages and warnings are left out. \<open>launch\<close> is the controller and the
  traffic with which the sender starts; running the flows is \<open>tg_send_data\<close> over \<open>send_data\<close>.
\<close>


section \<open>Options\<close>

datatype cctype = REMYCC | TCPCC | KERNELCC | PCC | NASHCC | MARKOVIANCC

record sender_options =
  serverip :: string
  serverport :: int
  sourceport :: int
  offduration :: int
  onduration :: int
  traffic_params :: string
  delta_conf :: string
  opt_train_length :: int
  opt_cctype :: cctype
  ratFound :: bool
  whiskers :: whisker_tree
  TRAINING_LINK_RATE :: real
  LINK_LOGGING :: bool
  LINK_LOGGING_FILENAME :: string

definition default_options :: sender_options where
  "default_options = \<lparr>serverip = ''0.0'', serverport = 9004, sourceport = 9004, offduration = 5000,
     onduration = 5000, traffic_params = [], delta_conf = [], opt_train_length = 1, opt_cctype = REMYCC,
     ratFound = False, whiskers = WhiskerTree_default, TRAINING_LINK_RATE = 4000000 / 1500,
     LINK_LOGGING = False, LINK_LOGGING_FILENAME = []\<rparr>"

definition read_cctype :: "string \<Rightarrow> cctype \<Rightarrow> cctype" where
  "read_cctype s old =
     (if s = ''remy'' then REMYCC else if s = ''tcp'' then TCPCC else if s = ''kernel'' then KERNELCC
      else if s = ''pcc'' then PCC else if s = ''nash'' then NASHCC
      else if s = ''markovian'' then MARKOVIANCC else old)"

text \<open>One argument. The rule file is read only while the chosen controller is Remy.\<close>

definition parse_option :: "(string \<Rightarrow> dna_tree option) \<Rightarrow> string \<Rightarrow> sender_options \<Rightarrow> sender_options res" where
  "parse_option files arg opts =
     (if take 3 arg = ''if='' then
        (if opt_cctype opts \<noteq> REMYCC then Inr opts
         else case files (drop 3 arg) of None \<Rightarrow> Inl ExitFailure
           | Some dna \<Rightarrow> bindE (tree_of_dna dna) (\<lambda>t. Inr (opts\<lparr>whiskers := t, ratFound := True\<rparr>)))
      else if take 9 arg = ''serverip='' then Inr (opts\<lparr>serverip := drop 9 arg\<rparr>)
      else if take 11 arg = ''serverport='' then Inr (opts\<lparr>serverport := atoi (drop 11 arg)\<rparr>)
      else if take 11 arg = ''sourceport='' then Inr (opts\<lparr>sourceport := atoi (drop 11 arg)\<rparr>)
      else if take 12 arg = ''offduration='' then Inr (opts\<lparr>offduration := atoi (drop 12 arg)\<rparr>)
      else if take 11 arg = ''onduration='' then Inr (opts\<lparr>onduration := atoi (drop 11 arg)\<rparr>)
      else if take 9 arg = ''linkrate='' then Inr (opts\<lparr>TRAINING_LINK_RATE := atof (drop 9 arg)\<rparr>)
      else if take 8 arg = ''linklog='' then
        Inr (opts\<lparr>LINK_LOGGING_FILENAME := drop 8 arg, LINK_LOGGING := True\<rparr>)
      else if take 15 arg = ''traffic_params='' then Inr (opts\<lparr>traffic_params := drop 15 arg\<rparr>)
      else if take 11 arg = ''delta_conf='' then Inr (opts\<lparr>delta_conf := drop 11 arg\<rparr>)
      else if take 13 arg = ''train_length='' then Inr (opts\<lparr>opt_train_length := atoi (drop 13 arg)\<rparr>)
      else if take 7 arg = ''cctype='' then Inr (opts\<lparr>opt_cctype := read_cctype (drop 7 arg) (opt_cctype opts)\<rparr>)
      else Inr opts)"


section \<open>The controller\<close>

datatype launch =
    RunRemy "remycc ctcp"
  | RunTcp "default_cc ctcp"
  | RunKernel
  | RunCopa "markovian ctcp"

definition start_controller :: "sender_options \<Rightarrow> launch res" where
  "start_controller opts =
     bindE (guardE (serverip opts \<noteq> []) ExitFailure) (\<lambda>_.
     bindE (guardE (ratFound opts \<or> opt_cctype opts \<noteq> REMYCC) ExitFailure) (\<lambda>_.
     case opt_cctype opts of
       REMYCC \<Rightarrow> Inr (RunRemy (CTCP (RemyCC (whiskers opts)) (serverip opts) (serverport opts) (opt_train_length opts)))
     | TCPCC \<Rightarrow> Inr (RunTcp (CTCP DefaultCC (serverip opts) (serverport opts) (opt_train_length opts)))
     | KERNELCC \<Rightarrow> Inr RunKernel
     | PCC \<Rightarrow> Inl AssertFailed
     | NASHCC \<Rightarrow> Inl AssertFailed
     | MARKOVIANCC \<Rightarrow>
         bindE (guardE (delta_conf opts \<noteq> []) AssertFailed) (\<lambda>_.
         bindE (interpret_config_str (delta_conf opts) (MarkovianCC 1 1)) (\<lambda>s.
         Inr (RunCopa (CTCP s (serverip opts) (serverport opts) (opt_train_length opts)))))))"

definition start_traffic :: "sender_options \<Rightarrow> traffic_generator" where
  "start_traffic opts =
     TrafficGenerator (of_int (onduration opts)) (of_int (offduration opts)) (traffic_params opts)"

definition sender_main ::
  "(string \<Rightarrow> dna_tree option) \<Rightarrow> string list \<Rightarrow> (sender_options \<times> launch \<times> traffic_generator) res" where
  "sender_main files args =
     bindE (for_each (parse_option files) args default_options) (\<lambda>opts.
     bindE (start_controller opts) (\<lambda>l. Inr (opts, l, start_traffic opts)))"


section \<open>What the sender starts\<close>

lemma parse_option_frame:
  assumes "parse_option files arg opts = Inr opts'"
  shows "take 7 arg \<noteq> ''cctype='' \<Longrightarrow> opt_cctype opts' = opt_cctype opts"
    and "take 3 arg \<noteq> ''if='' \<Longrightarrow> ratFound opts' = ratFound opts \<and> whiskers opts' = whiskers opts"
  using assms by (auto simp: parse_option_def res_simps split: if_splits option.splits)

lemma parse_option_total: "take 3 arg \<noteq> ''if='' \<Longrightarrow> \<exists>opts'. parse_option files arg opts = Inr opts'"
  unfolding parse_option_def by (simp only: if_False) (intro ex_Inr_if, simp_all)

text \<open>
  The default controller is Remy and has no rules of its own: without a rule file and without an
  option that chooses another controller, every command line that is parsed ends with an exit.
\<close>

theorem sender_needs_rules:
  assumes "\<forall>a \<in> set args. take 3 a \<noteq> ''if='' \<and> take 7 a \<noteq> ''cctype=''"
  shows "sender_main files args = Inl ExitFailure"
proof -
  let ?P = "\<lambda>opts. opt_cctype opts = REMYCC \<and> \<not> ratFound opts"
  have step: "\<exists>opts'. parse_option files a opts = Inr opts' \<and> ?P opts'" if "a \<in> set args" "?P opts" for a opts
  proof -
    have a: "take 3 a \<noteq> ''if=''" "take 7 a \<noteq> ''cctype=''" using assms that(1) by auto
    then obtain opts' where "parse_option files a opts = Inr opts'" using parse_option_total by blast
    then show ?thesis using parse_option_frame [of files a opts opts'] a that(2) by auto
  qed
  have "?P default_options" by (simp add: default_options_def)
  then have "\<exists>opts. for_each (parse_option files) args default_options = Inr opts \<and> ?P opts"
    by (rule for_each_total) (rule step)
  then show ?thesis by (auto simp: sender_main_def start_controller_def guardE_def)
qed

theorem sender_needs_rules_witness:
  "sender_main (\<lambda>f. None) [''serverip=10.0.0.1'', ''onduration=3000''] = Inl ExitFailure"
  using sender_needs_rules [of "[''serverip=10.0.0.1'', ''onduration=3000'']"] by simp










end
