(* ===== verification/Cubic_Root.thy ===== *)
theory Cubic_Root
  imports Prelude
begin

text \<open>
  Model of the integer cube root of \<open>src/cubiccc.cc\<close>: the index of the highest set bit (\<open>fls\<close>,
  \<open>fls64\<close>) and \<open>CubicRoot\<close>, a table lookup followed by one step of the Newton-Raphson iteration. All
  arithmetic wraps at the width of the C types; the shifts of the \<open>int\<close> in \<open>fls\<close> are those of its bits.
\<close>

unbundle bit_operations_syntax


section \<open>Highest set bit\<close>

definition fls_step :: "u32 \<Rightarrow> nat \<Rightarrow> u32 \<times> int \<Rightarrow> u32 \<times> int" where
  "fls_step m k = (\<lambda>(x, r). if x AND m = 0 then (push_bit k x, r - int k) else (x, r))"

definition fls :: "u32 \<Rightarrow> int" where
  "fls x =
     (if x = 0 then 0
      else snd (fls_step 0x80000000 1 (fls_step 0xc0000000 2 (fls_step 0xf0000000 4
             (fls_step 0xff000000 8 (fls_step 0xffff0000 16 (x, 32)))))))"

definition fls64 :: "u64 \<Rightarrow> u32" where
  "fls64 x =
     (let h = (ucast (drop_bit 32 x) :: u32)
      in if h \<noteq> 0 then of_int (fls h + 32) else of_int (fls (ucast x)))"


section \<open>Cube root\<close>

definition cbrt_table :: "u8 list" where
  "cbrt_table =
    [0, 54, 54, 54, 118, 118, 118, 118,
     123, 129, 134, 138, 143, 147, 151, 156,
     157, 161, 164, 168, 170, 173, 176, 179,
     181, 185, 187, 190, 192, 194, 197, 199,
     200, 202, 204, 206, 209, 211, 213, 215,
     217, 219, 221, 222, 224, 225, 227, 229,
     231, 232, 234, 236, 237, 239, 240, 242,
     244, 245, 246, 248, 250, 251, 252, 254]"

definition newton_step :: "u64 \<Rightarrow> u32 \<Rightarrow> u32 res" where
  "newton_step a x =
     (let d = (ucast x * ucast (x - 1) :: u64)
      in bindE (guardE (d \<noteq> 0) DivByZero) (\<lambda>_.
         Inr (drop_bit 10 ((2 * x + ucast (a div d)) * 341))))"

definition CubicRoot :: "u64 \<Rightarrow> u32 res" where
  "CubicRoot a =
     (let b = fls64 a in
      if b < 7 then bindE (aget cbrt_table (uint (ucast a :: u32))) (\<lambda>v. Inr (drop_bit 6 (ucast v + 35)))
      else
        (let b' = drop_bit 8 (b * 84) - 1;
             shift = (ucast (drop_bit (unat (b' * 3)) a) :: u32)
         in bindE (aget cbrt_table (uint shift)) (\<lambda>v.
            newton_step a (drop_bit 6 (push_bit (unat b') (ucast v + 10))))))"


section \<open>The highest set bit\<close>

lemma and_high_eq_0:
  fixes x :: u32
  assumes "m = NOT (mask n)"
  shows "x AND m = 0 \<longleftrightarrow> unat x < 2 ^ n"
proof -
  have "x AND m = 0 \<longleftrightarrow> take_bit n x = x"
    unfolding assms(1) take_bit_eq_mask by (auto simp: bit_eq_iff bit_simps)
  also have "\<dots> \<longleftrightarrow> unat x < 2 ^ n"
    by (simp add: word_unat_eq_iff unsigned_take_bit_eq take_bit_nat_eq_self_iff)
  finally show ?thesis .
qed

text \<open>A step keeps \<open>unat x = unat x0 * 2 ^ (32 - r)\<close> and makes the top \<open>32 - (n - k)\<close> bits non-zero.\<close>

definition fls_inv :: "u32 \<Rightarrow> nat \<Rightarrow> u32 \<times> int \<Rightarrow> bool" where
  "fls_inv x0 n = (\<lambda>(x, r). 2 ^ n \<le> unat x \<and> 0 < r \<and> r \<le> 32 \<and> unat x = unat x0 * 2 ^ nat (32 - r))"

lemma fls_step_inv:
  assumes "fls_inv x0 (n - k) p" and "m = NOT (mask n)" and "0 < k" and "k \<le> n" and "n + k \<le> 32"
  shows "fls_inv x0 n (fls_step m k p)"
proof -
  obtain x r where p: "p = (x, r)" by force
  show ?thesis
  proof (cases "x AND m = 0")
    case True
    then have lt: "unat x < 2 ^ n" using and_high_eq_0 [OF assms(2)] by simp
    have "unat x * 2 ^ k < 2 ^ (n + k)" using lt by (simp add: power_add)
    also have "\<dots> \<le> 2 ^ 32" using assms(5) by (rule power_increasing) simp
    finally have sh: "unat (push_bit k x) = unat x * 2 ^ k"
      by (simp add: unsigned_push_bit_eq push_bit_nat_def take_bit_nat_eq_self)
    have "2 ^ (n - k) \<le> unat x" and r: "0 < r" "r \<le> 32" and x: "unat x = unat x0 * 2 ^ nat (32 - r)"
      using assms(1) by (auto simp: p fls_inv_def)
    then have "2 ^ n \<le> unat x * 2 ^ k" using assms(4) mult_le_mono1 [of "2 ^ (n - k)" "unat x" "2 ^ k"]
      by (simp add: power_add [symmetric])
    moreover have exp: "nat (32 - r) + k = nat (32 - (r - int k))" using r by simp
    have prod: "unat x * 2 ^ k = unat x0 * 2 ^ nat (32 - (r - int k))"
      unfolding exp [symmetric] power_add x by simp
    moreover have "int k < r"
    proof -
      have "2 ^ nat (32 - (r - int k)) \<le> unat x0 * 2 ^ nat (32 - (r - int k))"
        using \<open>2 ^ (n - k) \<le> unat x\<close> x by (cases "unat x0") auto
      also have "\<dots> < 2 ^ 32" using \<open>unat x * 2 ^ k < 2 ^ (n + k)\<close> \<open>2 ^ (n + k) \<le> (2::nat) ^ 32\<close> prod by linarith
      finally have "nat (32 - (r - int k)) < 32" by (rule power_less_imp_less_exp [rotated]) simp
      then show ?thesis using r by linarith
    qed
    ultimately show ?thesis using True r sh by (simp add: p fls_step_def fls_inv_def)
  next
    case False
    then show ?thesis using assms(1) and_high_eq_0 [OF assms(2), of x] by (auto simp: p fls_step_def fls_inv_def)
  qed
qed

lemma fls_spec:
  assumes "x \<noteq> 0"
  shows "1 \<le> fls x" and "fls x \<le> 32" and "2 ^ (nat (fls x) - 1) \<le> unat x" and "unat x < 2 ^ nat (fls x)"
proof -
  have "unat x \<noteq> 0" using assms by (simp add: unat_eq_0)
  then have "fls_inv x 0 (x, 32)" by (simp add: fls_inv_def)
  then have "fls_inv x 16 (fls_step 0xffff0000 16 (x, 32))" by - (rule fls_step_inv, simp_all add: mask_eq_exp_minus_1)
  then have "fls_inv x 24 (fls_step 0xff000000 8 (fls_step 0xffff0000 16 (x, 32)))"
    by - (rule fls_step_inv, simp_all add: mask_eq_exp_minus_1)
  then have "fls_inv x 28 (fls_step 0xf0000000 4 (fls_step 0xff000000 8 (fls_step 0xffff0000 16 (x, 32))))"
    by - (rule fls_step_inv, simp_all add: mask_eq_exp_minus_1)
  then have "fls_inv x 30 (fls_step 0xc0000000 2 (fls_step 0xf0000000 4 (fls_step 0xff000000 8 (fls_step 0xffff0000 16 (x, 32)))))"
    by - (rule fls_step_inv, simp_all add: mask_eq_exp_minus_1)
  then have "fls_inv x 31 (fls_step 0x80000000 1 (fls_step 0xc0000000 2 (fls_step 0xf0000000 4 (fls_step 0xff000000 8 (fls_step 0xffff0000 16 (x, 32))))))"
    by - (rule fls_step_inv, simp_all add: mask_eq_exp_minus_1)
  then obtain y where y: "2 ^ 31 \<le> unat (y :: u32)" "0 < fls x" "fls x \<le> 32" "unat y = unat x * 2 ^ nat (32 - fls x)"
    using assms by (auto simp: fls_def fls_inv_def split: prod.splits)
  have "unat y < 2 ^ 32" by (rule order_less_le_trans [OF unsigned_less]) simp
  have e: "nat (fls x) + nat (32 - fls x) = 32" "nat (fls x) - 1 + nat (32 - fls x) = 31" using y(2,3) by auto
  have "2 ^ 32 = 2 ^ nat (fls x) * (2 :: nat) ^ nat (32 - fls x)" "2 ^ 31 = 2 ^ (nat (fls x) - 1) * (2 :: nat) ^ nat (32 - fls x)"
    by (simp_all only: power_add [symmetric] e)
  with y \<open>unat y < 2 ^ 32\<close> have "2 ^ (nat (fls x) - 1) \<le> unat x \<and> unat x < 2 ^ nat (fls x)"
    by (metis mult_le_cancel2 mult_less_cancel2)
  then show "2 ^ (nat (fls x) - 1) \<le> unat x" "unat x < 2 ^ nat (fls x)" by auto
  show "1 \<le> fls x" "fls x \<le> 32" using y by auto
qed


lemma unat_of_nat_u32: "n < 2 ^ 32 \<Longrightarrow> unat (of_nat n :: u32) = n"
  by (simp only: unat_of_nat) simp

lemma unat_of_int_u32:
  assumes "0 \<le> i" and "i < 2 ^ 32"
  shows "unat (of_int i :: u32) = nat i"
proof -
  have "(of_int i :: u32) = of_nat (nat i)" using assms(1) by simp
  moreover have "nat i < 2 ^ 32" using assms(2) by simp
  ultimately show ?thesis by (simp only: unat_of_nat_u32)
qed

lemma fls64_spec:
  assumes "a \<noteq> 0"
  shows "1 \<le> unat (fls64 a)" and "unat (fls64 a) \<le> 64"
    and "2 ^ (unat (fls64 a) - 1) \<le> unat a" and "unat a < 2 ^ unat (fls64 a)"
proof -
  define h where "h = (ucast (drop_bit 32 a) :: u32)"
  have a64: "unat a < 2 ^ 64" by (rule order_less_le_trans [OF unsigned_less]) simp
  have h: "unat h = unat a div 2 ^ 32"
  proof -
    have "unat a div 2 ^ 32 < 2 ^ 32" using a64 by (simp add: less_mult_imp_div_less)
    then show ?thesis by (simp add: h_def unsigned_ucast_eq unsigned_drop_bit_eq drop_bit_nat_def take_bit_nat_eq_self)
  qed
  have "1 \<le> unat (fls64 a) \<and> unat (fls64 a) \<le> 64
    \<and> 2 ^ (unat (fls64 a) - 1) \<le> unat a \<and> unat a < 2 ^ unat (fls64 a)"
  proof (cases "h = 0")
    case True
    then have lt: "unat a < 2 ^ 32" using h by (simp add: div_eq_0_iff)
    then have u: "unat (ucast a :: u32) = unat a"
      by (simp add: unsigned_ucast_eq take_bit_nat_eq_self)
    then have "(ucast a :: u32) \<noteq> 0" using assms by (metis unat_0 unsigned_eq_0_iff)
    note spec = fls_spec [OF this, unfolded u]
    have r: "1 \<le> nat (fls (ucast a))" "nat (fls (ucast a)) \<le> 64" using spec(1,2) by linarith+
    with spec show ?thesis using True unat_of_int_u32 [of "fls (ucast a)"] by (simp add: fls64_def h_def [symmetric])
  next
    case False
    note spec = fls_spec [OF False, unfolded h]
    define k where "k = nat (fls h)"
    have k: "1 \<le> k" "k \<le> 32" "2 ^ (k - 1) \<le> unat a div 2 ^ 32" "unat a div 2 ^ 32 < 2 ^ k"
      using spec by (auto simp: k_def)
    have f: "unat (fls64 a) = k + 32"
      using False spec(1,2) unat_of_int_u32 [of "fls h + 32"] by (simp add: fls64_def h_def [symmetric] k_def nat_add_distrib)
    have "2 ^ (k + 32 - 1) = 2 ^ (k - 1) * (2::nat) ^ 32" using k(1) by (simp only: power_add [symmetric]) simp
    also have "\<dots> \<le> unat a" using k(3) by (simp add: less_eq_div_iff_mult_less_eq)
    finally have "2 ^ (k + 32 - 1) \<le> unat a" .
    moreover have "unat a < 2 ^ k * 2 ^ 32" using k(4) by (simp add: div_less_iff_less_mult)
    ultimately show ?thesis using k(1,2) by (simp only: f power_add [symmetric]) simp
  qed
  then show "1 \<le> unat (fls64 a)" "unat (fls64 a) \<le> 64"
    "2 ^ (unat (fls64 a) - 1) \<le> unat a" "unat a < 2 ^ unat (fls64 a)"
    by auto
qed


text \<open>The shift for a number of \<open>n\<close> bits leaves four to six bits; entries of the table in that range.\<close>

lemma root_shift:
  fixes n d :: nat
  assumes "7 \<le> n" and "n \<le> 64" and "d = n * 84 div 256 - 1"
  shows "1 \<le> d" and "d \<le> 20" and "3 * d + 4 \<le> n" and "n \<le> 3 * d + 6"
proof -
  define q where "q = n * 84 div 256"
  have "256 * q \<le> 84 * n" "84 * n \<le> 256 * q + 255" unfolding q_def by linarith+
  then show "1 \<le> d" and "d \<le> 20" and "3 * d + 4 \<le> n" and "n \<le> 3 * d + 6"
    using assms by (simp_all add: q_def [symmetric])
qed

definition table_ok :: "nat \<Rightarrow> nat \<Rightarrow> bool" where
  "table_ok s T \<longleftrightarrow> 133 \<le> T \<and> T \<le> 264 \<and> 98 * (64 ^ 3 * (s + 1)) \<le> 100 * T ^ 3 \<and> 100 * T ^ 3 \<le> 118 * (64 ^ 3 * s)"

lemma cbrt_table_ok:
  assumes "8 \<le> s" and "s < 64"
  shows "table_ok s (unat (cbrt_table ! s) + 10)"
proof -
  have all: "list_all (\<lambda>(s, v). table_ok s (unat v + 10)) (zip [8..<64] (drop 8 cbrt_table))"
    by (simp add: cbrt_table_def table_ok_def)
  have len: "length cbrt_table = 64" by (simp add: cbrt_table_def)
  have "zip [8..<64] (drop 8 cbrt_table) ! (s - 8) = (s, cbrt_table ! s)"
    using assms len by (simp del: upt_rec_numeral)
  moreover have "s - 8 < length (zip [8..<64] (drop 8 cbrt_table))" using assms len by (simp del: upt_rec_numeral)
  ultimately show ?thesis using all by (metis (mono_tags, lifting) case_prodD list_all_length)
qed

lemma cube_le: "a ^ 3 \<le> b ^ 3 \<Longrightarrow> 0 \<le> b \<Longrightarrow> a \<le> (b :: real)"
  by (rule power_le_imp_le_base [of a 2 b]) (simp_all add: numeral_3_eq_3)

lemma root_estimate:
  fixes a s T u x :: nat
  assumes tab: "table_ok s T" and u: "2 \<le> u" and a: "s * u ^ 3 \<le> a" "a < (s + 1) * u ^ 3" and x: "x = T * u div 64"
  defines "c \<equiv> root 3 (real a)"
  shows "3 / 4 * c \<le> real x" and "real x \<le> 53 / 50 * c" and "4 \<le> x"
proof -
  have T: "133 \<le> T" "T \<le> 264" and lo: "98 * (64 ^ 3 * (s + 1)) \<le> 100 * T ^ 3" and hi: "100 * T ^ 3 \<le> 118 * (64 ^ 3 * s)"
    using tab by (auto simp: table_ok_def)
  define y where "y = real (T * u) / 64"
  have c3: "c ^ 3 = real a" by (simp add: c_def)
  have y4: "133 / 32 \<le> y"
  proof -
    have "133 * 2 \<le> T * u" using T(1) u by (rule mult_le_mono)
    then have "real (133 * 2) \<le> real (T * u)" by (simp only: of_nat_le_iff)
    then show ?thesis by (simp add: y_def)
  qed
  have xy: "real x \<le> y" "y < real x + 1"
  proof -
    have "64 * x \<le> T * u" "T * u < 64 * (x + 1)" unfolding x by simp_all
    then have "real (64 * x) \<le> real (T * u)" "real (T * u) < real (64 * (x + 1))" by (simp_all only: of_nat_le_iff of_nat_less_iff)
    then show "real x \<le> y" "y < real x + 1" by (simp_all add: y_def)
  qed
  have y3: "y ^ 3 = real (T ^ 3) * real (u ^ 3) / 64 ^ 3" by (simp add: y_def power_divide power_mult_distrib)
  have "y ^ 3 \<le> (53 / 50 * c) ^ 3"
  proof -
    have "100 * T ^ 3 * u ^ 3 \<le> 118 * (64 ^ 3 * s) * u ^ 3" using hi by (rule mult_le_mono1)
    also have "\<dots> \<le> 118 * 64 ^ 3 * a" using a(1) by simp
    finally have "real (100 * T ^ 3 * u ^ 3) \<le> real (118 * 64 ^ 3 * a)" by (simp only: of_nat_le_iff)
    then have "y ^ 3 \<le> 118 / 100 * real a" by (simp add: y3)
    also have "\<dots> \<le> (53 / 50) ^ 3 * real a" by (intro mult_right_mono) (simp_all add: eval_nat_numeral)
    finally show ?thesis by (simp only: power_mult_distrib c3)
  qed
  moreover have "0 \<le> c" by (simp add: c_def)
  ultimately have "y \<le> 53 / 50 * c" by - (rule cube_le, simp_all)
  then show "real x \<le> 53 / 50 * c" using xy(1) by simp
  have "(99 / 100 * c) ^ 3 \<le> y ^ 3"
  proof -
    have "98 * 64 ^ 3 * a \<le> 98 * (64 ^ 3 * (s + 1)) * u ^ 3"
      using mult_le_mono2 [OF less_imp_le [OF a(2)], of "98 * 64 ^ 3"] by (simp only: mult.assoc)
    also have "\<dots> \<le> 100 * T ^ 3 * u ^ 3" using lo by (rule mult_le_mono1)
    finally have "real (98 * 64 ^ 3 * a) \<le> real (100 * T ^ 3 * u ^ 3)" by (simp only: of_nat_le_iff)
    then have "98 / 100 * real a \<le> y ^ 3" by (simp add: y3)
    moreover have "(99 / 100) ^ 3 * real a \<le> 98 / 100 * real a"
      by (rule mult_right_mono) (simp_all add: power3_eq_cube)
    ultimately show ?thesis by (simp only: power_mult_distrib c3)
  qed
  then have "99 / 100 * c \<le> y" using y4 by - (rule cube_le, simp_all)
  then show "3 / 4 * c \<le> real x" using xy(2) y4 by simp
  have "real 4 < real x + 1" using xy(2) y4 by simp
  then show "4 \<le> x" by linarith
qed


text \<open>One step of the iteration, from an estimate within a quarter below and 6 percent above.\<close>

lemma newton_bounds:
  fixes a x q :: nat
  defines "c \<equiv> root 3 (real a)"
  assumes lo: "3 / 4 * c \<le> real x" and hi: "real x \<le> 53 / 50 * c" and x: "4 \<le> x" and q: "q = a div (x * (x - 1))"
  shows "real (2 * x + q) \<le> 4 * c" and "3 * c - 1 \<le> real (2 * x + q)"
proof -
  have c3: "c ^ 3 = real a" and c0: "0 \<le> c" by (simp_all add: c_def)
  let ?y = "real x"
  have y: "4 \<le> ?y" using x by simp
  have d: "real (x * (x - 1)) = ?y * (?y - 1)" using x by (simp add: of_nat_diff)
  have "q * (x * (x - 1)) \<le> a" "a < (q + 1) * (x * (x - 1))"
  proof -
    have p: "0 < x * (x - 1)" using x by simp
    show "q * (x * (x - 1)) \<le> a" unfolding q by (rule div_times_less_eq_dividend)
    show "a < (q + 1) * (x * (x - 1))"
      unfolding q using dividend_less_div_times [OF p, of a] by (simp only: add_mult_distrib mult_1)
  qed
  then have "real (q * (x * (x - 1))) \<le> real a" "real a < real ((q + 1) * (x * (x - 1)))"
    by (simp_all only: of_nat_le_iff of_nat_less_iff)
  then have q1: "real q * (?y * (?y - 1)) \<le> c ^ 3" and q2: "c ^ 3 < (real q + 1) * (?y * (?y - 1))"
    by (simp_all only: c3 d of_nat_mult [of q] of_nat_mult [of "q + 1"] of_nat_add of_nat_1)
  have sq: "(c - ?y)\<^sup>2 \<le> (c / 4)\<^sup>2" 
  proof (rule abs_le_square_iff [THEN iffD1])
    show "\<bar>c - ?y\<bar> \<le> \<bar>c / 4\<bar>" using lo hi c0 by linarith
  qed
  have "45 / 64 * c ^ 3 \<le> ?y * ?y * (2 * c - ?y)"
  proof -
    have "15 / 16 * c\<^sup>2 \<le> ?y * (2 * c - ?y)" using sq by (simp add: power2_eq_square field_simps)
    then have "3 / 4 * c * (15 / 16 * c\<^sup>2) \<le> ?y * (?y * (2 * c - ?y))"
      using lo c0 by - (rule mult_mono, auto)
    then show ?thesis by (simp add: power2_eq_square power3_eq_cube mult.assoc)
  qed
  moreover have "2 / 3 * c ^ 3 \<le> 45 / 64 * c ^ 3" using c0 by - (rule mult_right_mono, simp_all)
  ultimately have "2 / 3 * c ^ 3 \<le> ?y * ?y * (2 * c - ?y)" by (rule order_trans [rotated])
  then have up: "4 / 3 * c ^ 3 \<le> 2 * (2 * c - ?y) * (?y * ?y)" by (simp add: algebra_simps)
  have "real q * (3 / 4 * (?y * ?y)) \<le> real q * (?y * (?y - 1))"
    using y by (intro mult_left_mono) (simp_all add: field_simps)
  then have "real q * (?y * ?y) \<le> 4 / 3 * c ^ 3" using q1 by (simp add: field_simps)
  then have "real q * (?y * ?y) \<le> 2 * (2 * c - ?y) * (?y * ?y)" using up by linarith
  then have "real q \<le> 2 * (2 * c - ?y)" using y by (simp add: mult_le_cancel_right)
  then show "real (2 * x + q) \<le> 4 * c" by simp
  have "c ^ 3 \<le> (real q + 1) * (?y * ?y)"
  proof -
    have "(real q + 1) * (?y * (?y - 1)) \<le> (real q + 1) * (?y * ?y)" using y by (intro mult_left_mono) simp_all
    then show ?thesis using q2 by linarith
  qed
  moreover have "3 * c * (?y * ?y) \<le> 2 * ?y * (?y * ?y) + c ^ 3"
  proof -
    have "0 \<le> (?y - c)\<^sup>2 * (2 * ?y + c)" using c0 by simp
    also have "\<dots> = 2 * ?y * (?y * ?y) + c ^ 3 - 3 * c * (?y * ?y)"
      by (simp add: power2_eq_square power3_eq_cube algebra_simps)
    finally show ?thesis by simp
  qed
  ultimately have "3 * c * (?y * ?y) \<le> (2 * ?y + real q + 1) * (?y * ?y)" by (simp add: algebra_simps)
  then have "3 * c \<le> 2 * ?y + real q + 1" using y by (simp add: mult_le_cancel_right)
  then show "3 * c - 1 \<le> real (2 * x + q)" by simp
qed


definition small_ok :: "nat \<Rightarrow> nat \<Rightarrow> bool" where
  "small_ok a r \<longleftrightarrow> 27 * r ^ 3 \<le> 64 * a \<and> a < (r + 1) ^ 3"

lemma cbrt_table_small:
  assumes "a < 64"
  shows "small_ok a ((unat (cbrt_table ! a) + 35) div 64)"
proof (cases "a < 2")
  case True
  then show ?thesis by (auto simp: less_2_cases_iff cbrt_table_def small_ok_def power3_eq_cube)
next
  case False
  have all: "list_all (\<lambda>(a, v). small_ok a ((unat v + 35) div 64)) (zip [2..<64] (drop 2 cbrt_table))"
    by (simp add: cbrt_table_def small_ok_def power3_eq_cube)
  have len: "length cbrt_table = 64" by (simp add: cbrt_table_def)
  have "Suc (Suc (a - 2)) = a" using False by simp
  then have "zip [2..<64] (drop 2 cbrt_table) ! (a - 2) = (a, cbrt_table ! a)"
    using assms len by (simp del: upt_rec_numeral)
  moreover have "a - 2 < length (zip [2..<64] (drop 2 cbrt_table))"
    using assms False len by (simp del: upt_rec_numeral)
  ultimately show ?thesis using all by (metis (mono_tags, lifting) case_prodD list_all_length)
qed

definition near_root :: "nat \<Rightarrow> nat \<Rightarrow> bool" where
  "near_root a r \<longleftrightarrow> 99 / 100 * root 3 (real a) - 2 < real r \<and> real r \<le> 4 / 3 * root 3 (real a)"

lemma small_near_root:
  assumes "small_ok a r"
  shows "near_root a r"
proof -
  define c where "c = root 3 (real a)"
  have c3: "c ^ 3 = real a" and c0: "0 \<le> c" by (simp_all add: c_def)
  have "real (27 * r ^ 3) \<le> real (64 * a)" "real a \<le> real ((r + 1) ^ 3)"
    using assms unfolding small_ok_def of_nat_le_iff by auto
  then have "(3 * real r) ^ 3 \<le> (4 * c) ^ 3" "c ^ 3 \<le> (1 + real r) ^ 3"
    by (simp_all add: power_mult_distrib c3)
  then have "3 * real r \<le> 4 * c" "c \<le> 1 + real r" using c0 by - (rule cube_le, simp_all)+
  then show ?thesis using c0 by (simp add: near_root_def c_def [symmetric])
qed

lemma newton_near_root:
  fixes a x q :: nat
  defines "c \<equiv> root 3 (real a)"
  assumes "3 / 4 * c \<le> real x" and "real x \<le> 53 / 50 * c" and "4 \<le> x" and "q = a div (x * (x - 1))"
  shows "near_root a ((2 * x + q) * 341 div 1024)"
proof -
  define m where "m = 2 * x + q"
  define r where "r = m * 341 div 1024"
  have m: "real m \<le> 4 * c" "3 * c - 1 \<le> real m"
    using newton_bounds [of a x q] assms unfolding m_def by auto
  have c0: "0 \<le> c" by (simp add: c_def)
  have "1024 * r \<le> m * 341" "m * 341 < 1024 * (r + 1)" unfolding r_def by simp_all
  then have "real (1024 * r) \<le> real (m * 341)" "real (m * 341) < real (1024 * (r + 1))"
    by (simp_all only: of_nat_le_iff of_nat_less_iff)
  then have "1024 * real r \<le> 341 * real m" "341 * real m < 1024 * real r + 1024" by simp_all
  then show ?thesis using m c0 unfolding near_root_def c_def [symmetric] m_def [symmetric] r_def [symmetric]
    by linarith
qed


section \<open>The program computes the estimate\<close>

lemma unat_ucast_u64: "unat (ucast (x :: u32) :: u64) = unat x"
proof -
  have "unat x < 2 ^ 32" by (rule order_less_le_trans [OF unsigned_less]) simp
  then show ?thesis by (simp add: unsigned_ucast_eq take_bit_nat_eq_self)
qed

lemma newton_step_eq:
  assumes "4 \<le> unat x" and "unat x < 2 ^ 24" and "2 * unat x + unat a div (unat x * (unat x - 1)) < 12000000"
  shows "\<exists>r. newton_step a x = Inr r
    \<and> unat r = (2 * unat x + unat a div (unat x * (unat x - 1))) * 341 div 1024"
proof -
  define q where "q = unat a div (unat x * (unat x - 1))"
  have x1: "unat (x - 1) = unat x - 1" using assms(1) by (simp add: unat_sub word_le_nat_alt)
  have lt: "unat x * (unat x - 1) < 2 ^ 64"
  proof -
    have "unat x * (unat x - 1) \<le> 2 ^ 24 * 2 ^ 24" using assms(2) by (intro mult_le_mono) simp_all
    then show ?thesis by simp
  qed
  have d: "unat (ucast x * ucast (x - 1) :: u64) = unat x * (unat x - 1)"
    using lt by (simp add: unat_word_ariths x1 unat_ucast_u64)
  have nz: "(ucast x * ucast (x - 1) :: u64) \<noteq> 0"
    using assms(1) by (metis d unat_0 mult_eq_0_iff not_numeral_le_zero diff_is_0_eq numeral_le_one_iff order_trans semiring_norm(69))
  have q: "unat (ucast (a div (ucast x * ucast (x - 1))) :: u32) = q"
    using assms(3) by (simp add: q_def unsigned_ucast_eq unat_div d take_bit_nat_eq_self)
  have s: "2 * unat x + q < 12000000" using assms(3) by (simp only: q_def)
  then have "q * 341 < 4294967296" "682 * unat x + q * 341 < 4294967296" by linarith+
  then have m: "unat ((2 * x + ucast (a div (ucast x * ucast (x - 1)))) * 341) = (2 * unat x + q) * 341"
    using s by (simp add: unat_word_ariths q)
  show ?thesis using nz m
    unfolding newton_step_def Let_def q_def [symmetric]
    by (simp add: unat_drop_bit_eq drop_bit_nat_def)
qed


lemma CubicRoot_small:
  assumes "fls64 a < 7"
  shows "\<exists>r. CubicRoot a = Inr r \<and> near_root (unat a) (unat r)"
proof -
  have lt: "unat a < 64"
  proof (cases "a = 0")
    case False
    have "unat (fls64 a) \<le> 6" using assms by (simp add: word_less_nat_alt)
    then have "(2::nat) ^ unat (fls64 a) \<le> 2 ^ 6" by (rule power_increasing) simp
    then show ?thesis using fls64_spec(4) [OF False] by simp
  qed simp
  then have "unat (ucast a :: u32) = unat a" by (simp add: unsigned_ucast_eq take_bit_nat_eq_self)
  then have u: "uint (ucast a :: u32) = int (unat a)" by (simp only: uint_nat)
  let ?v = "cbrt_table ! unat a"
  have v: "unat ?v < 256" by (rule order_less_le_trans [OF unsigned_less]) simp
  have "unat (drop_bit 6 (ucast ?v + 35) :: u32) = (unat ?v + 35) div 64"
    using v by (simp add: unat_drop_bit_eq drop_bit_nat_def unat_word_ariths unsigned_ucast_eq take_bit_nat_eq_self)
  moreover have "length cbrt_table = 64" by (simp add: cbrt_table_def)
  moreover have "CubicRoot a = bindE (aget cbrt_table (int (unat a))) (\<lambda>v. Inr (drop_bit 6 (ucast v + 35)))"
    by (simp only: CubicRoot_def Let_def if_P [OF assms] u)
  ultimately show ?thesis using small_near_root [OF cbrt_table_small [OF lt]] lt by (simp del: of_nat_unat)
qed

lemma CubicRoot_large:
  assumes "\<not> fls64 a < 7"
  shows "\<exists>r. CubicRoot a = Inr r \<and> near_root (unat a) (unat r)"
proof -
  define n where "n = unat (fls64 a)"
  define d where "d = n * 84 div 256 - 1"
  define s where "s = unat a div 2 ^ (3 * d)"
  define x where "x = (unat (cbrt_table ! s) + 10) * 2 ^ d div 64"
  have n7: "7 \<le> n" using assms by (simp add: n_def word_less_nat_alt)
  then have a0: "a \<noteq> 0" by (auto simp: n_def fls64_def fls_def)
  note spec = fls64_spec [OF a0, folded n_def]
  note d = root_shift [OF n7 spec(2) d_def]
  have lo: "8 \<le> s"
  proof -
    have "2 ^ (n - 1) = 2 ^ (n - 1 - 3 * d) * (2::nat) ^ (3 * d)" using d(3) by (simp add: power_add [symmetric])
    then have "2 ^ (n - 1 - 3 * d) \<le> s" using spec(3) unfolding s_def by (simp add: less_eq_div_iff_mult_less_eq)
    moreover have "(2::nat) ^ 3 \<le> 2 ^ (n - 1 - 3 * d)" using d(3) by (intro power_increasing) auto
    ultimately show ?thesis by simp
  qed
  have hi: "s < 64"
  proof -
    have "2 ^ n = 2 ^ (n - 3 * d) * (2::nat) ^ (3 * d)" using d(3) by (simp add: power_add [symmetric])
    then have "s < 2 ^ (n - 3 * d)" using spec(4) unfolding s_def by (simp add: div_less_iff_less_mult)
    moreover have "(2::nat) ^ (n - 3 * d) \<le> 2 ^ 6" using d(4) by (intro power_increasing) auto
    ultimately show ?thesis by simp
  qed
  have tab: "table_ok s (unat (cbrt_table ! s) + 10)" using cbrt_table_ok [OF lo hi] .
  define T where "T = unat (cbrt_table ! s) + 10"
  have T: "T \<le> 264" using tab by (simp add: T_def table_ok_def)
  have u: "s * (2 ^ d) ^ 3 \<le> unat a" "unat a < (s + 1) * (2 ^ d) ^ 3"
    unfolding s_def using dividend_less_div_times [of "2 ^ (3 * d)" "unat a"]
    by (simp_all add: power_mult [symmetric] mult.commute add.commute)
  have "(2::nat) \<le> 2 ^ d" using d(1) power_increasing [of 1 d "2::nat"] by simp
  note est = root_estimate [OF tab this u x_def]
  have "(2::nat) ^ d \<le> 2 ^ 20" using d(2) by (intro power_increasing) auto
  then have Td: "T * 2 ^ d \<le> 264 * 2 ^ 20" using T by (intro mult_le_mono)
  then have x24: "x < 2 ^ 24" by (simp add: x_def T_def [symmetric])
  have "real (unat a) \<le> 2642246 ^ 3"
  proof -
    have "unat a < 2 ^ 64" by (rule order_less_le_trans [OF unsigned_less]) simp
    then have "real (unat a) < real (2 ^ 64)" by (simp only: of_nat_less_iff)
    then show ?thesis by simp
  qed
  then have c: "root 3 (real (unat a)) \<le> 2642246" using real_root_le_iff [of 3 "real (unat a)" "2642246 ^ 3"] by (simp add: real_root_power_cancel)
  have "real (2 * x + unat a div (x * (x - 1))) \<le> 4 * root 3 (real (unat a))"
    by (rule newton_bounds(1) [OF est refl])
  then have small: "2 * x + unat a div (x * (x - 1)) < 12000000" using c by linarith
  have near: "near_root (unat a) ((2 * x + unat a div (x * (x - 1))) * 341 div 1024)"
    by (rule newton_near_root [OF est refl])
  have b: "unat (drop_bit 8 (fls64 a * 84) - 1) = d"
    using spec(2) d(1) by (simp add: d_def n_def unat_sub word_le_nat_alt unat_drop_bit_eq drop_bit_nat_def unat_word_ariths)
  have "unat (y * 3) = 3 * d" if "unat y = d" for y :: u32
    using d(2) that by (simp add: unat_word_ariths)
  note sh = this [OF b]
  have "unat (ucast (drop_bit (3 * d) a) :: u32) = s"
    using hi by (simp add: unsigned_ucast_eq unat_drop_bit_eq drop_bit_nat_def s_def [symmetric] take_bit_nat_eq_self)
  then have us: "uint (ucast (drop_bit (3 * d) a) :: u32) = int s" by (simp only: uint_nat)
  have v: "unat (ucast (cbrt_table ! s) + 10 :: u32) = T"
    using T by (simp add: T_def unat_word_ariths unsigned_ucast_eq take_bit_nat_eq_self)
  let ?x = "drop_bit 6 (push_bit d (ucast (cbrt_table ! s) + 10)) :: u32"
  have "unat (push_bit d (ucast (cbrt_table ! s) + 10) :: u32) = T * 2 ^ d"
    using Td by (simp add: unsigned_push_bit_eq v push_bit_nat_def take_bit_nat_eq_self)
  then have x: "unat ?x = x" by (simp add: unat_drop_bit_eq drop_bit_nat_def x_def T_def [symmetric])
  have "length cbrt_table = 64" by (simp add: cbrt_table_def)
  then have "CubicRoot a = newton_step a ?x"
    using hi unfolding CubicRoot_def Let_def if_not_P [OF assms] sh b us by simp
  moreover obtain r where "newton_step a ?x = Inr r" "unat r = (2 * x + unat a div (x * (x - 1))) * 341 div 1024"
    using newton_step_eq [of ?x a] x24 est(3) small unfolding x by auto
  ultimately show ?thesis using near by auto
qed

lemma CubicRoot_near: "\<exists>r. CubicRoot a = Inr r \<and> near_root (unat a) (unat r)"
  using CubicRoot_small [of a] CubicRoot_large [of a] by blast

text \<open>
  C30. For every argument, the cube root reads its table within bounds and does not divide by zero; the
  result is less than 2 below 99 percent of the real cube root and at most a third above it.
\<close>

theorem CubicRoot_accuracy:
  "\<exists>r. CubicRoot a = Inr r
     \<and> 99 / 100 * root 3 (real (unat a)) - 2 < real (unat r)
     \<and> real (unat r) \<le> 4 / 3 * root 3 (real (unat a))"
  using CubicRoot_near [of a] by (auto simp: near_root_def)

end
