(* ===== verification/Cubic.thy ===== *)
theory Cubic
  imports Cubic_Root
begin

text \<open>
  Model of \<open>src/cubiccc.hh\<close> and \<open>src/cubiccc.cc\<close>, a port of TCP Cubic from ns-3. All integers have the
  width of the C types and wrap; the two \<open>double\<close>s hold integers and are reals. The members that the
  file uses but the repository does not declare are parameters: the clock \<open>tcp_time_stamp\<close> is \<open>now\<close>, the
  estimate of the round-trip time \<open>rtt\<close> (milliseconds), and whether unsent data waits is \<open>tx_pending\<close>;
  the calls that hand packets to the base class are recorded as actions. The loop of the TCP-friendly
  region need not end, so it is a partial function and \<open>None\<close> stands for not returning.
\<close>


section \<open>State\<close>

record tcp_cubic =
  m_cWnd :: u32
  m_ssThresh :: u32
  m_initialCWnd :: u32
  m_recover :: int
  m_retxThresh :: u32
  m_inFastRec :: bool
  m_limitedTx :: bool
  m_cubeFactor :: u64
  m_beta :: real
  m_cubeRttScale :: u32
  m_bicScale :: int
  m_betaScale :: u32
  m_maxIncrement :: int
  m_delayedAck :: u32
  m_epochStart :: u64
  m_lastTime :: u32
  m_windowMax :: u32
  m_lastMax :: u32
  m_lastCwnd :: u32
  m_k :: real
  m_dMin :: u32
  m_originPoint :: u32
  m_tcpCwnd :: u32
  m_tcpFriendly :: bool
  m_ackCnt :: u32
  m_cWndCnt :: u32

abbreviation segmentSize :: u32 where "segmentSize \<equiv> 1500"

text \<open>The constructor leaves the other fields with the contents \<open>raw\<close> of the memory.\<close>

definition TcpCubic :: "tcp_cubic \<Rightarrow> tcp_cubic" where
  "TcpCubic raw = raw\<lparr>m_retxThresh := 3, m_inFastRec := False, m_cubeFactor := push_bit (10 + 3 * 10) 1 div 410,
     m_beta := 819, m_bicScale := 41, m_maxIncrement := 16, m_delayedAck := push_bit 4 2, m_epochStart := 0,
     m_windowMax := 0, m_lastMax := 0, m_k := 0, m_dMin := 0, m_originPoint := 0, m_tcpCwnd := 0,
     m_tcpFriendly := True, m_ackCnt := 0, m_cWndCnt := 0, m_ssThresh := 100 * segmentSize,
     m_betaScale := of_int (trunc_real (8 * (1024 + 819) / 3 / (1024 - 819))),
     m_cubeRttScale := of_int (41 * 10)\<rparr>"

definition SetSSThresh :: "u32 \<Rightarrow> tcp_cubic \<Rightarrow> tcp_cubic" where
  "SetSSThresh threshold s = s\<lparr>m_ssThresh := threshold\<rparr>"

definition SetInitialCwnd :: "u32 \<Rightarrow> tcp_cubic \<Rightarrow> tcp_cubic" where
  "SetInitialCwnd cwnd s = s\<lparr>m_initialCWnd := cwnd\<rparr>"

definition InitializeCwnd :: "tcp_cubic \<Rightarrow> tcp_cubic" where
  "InitializeCwnd s = s\<lparr>m_cWnd := m_initialCWnd s * segmentSize\<rparr>"

definition cubic_init :: "tcp_cubic \<Rightarrow> tcp_cubic" where
  "cubic_init s = InitializeCwnd s"

definition CubicReset :: "tcp_cubic \<Rightarrow> tcp_cubic" where
  "CubicReset s = s\<lparr>m_lastMax := 0, m_tcpCwnd := 0, m_epochStart := 0, m_originPoint := 0, m_dMin := 0,
     m_ackCnt := 0, m_lastTime := 0\<rparr>"

definition DelAckTimeout :: "tcp_cubic \<Rightarrow> tcp_cubic" where
  "DelAckTimeout s = CubicReset s"


section \<open>The suggested increment\<close>

definition cwndSeg :: "tcp_cubic \<Rightarrow> u32" where
  "cwndSeg s = m_cWnd s div segmentSize"

partial_function (option) friendliness_loop :: "u32 \<Rightarrow> u32 \<Rightarrow> u32 \<Rightarrow> (u32 \<times> u32) option" where
  "friendliness_loop d ack tcp =
     (if ack > d then friendliness_loop d (ack - d) (tcp + 1) else Some (ack, tcp))"

definition CubicTcpFriendliness :: "u32 \<Rightarrow> tcp_cubic \<Rightarrow> (u32 \<times> tcp_cubic) res option" where
  "CubicTcpFriendliness cnt s =
     (let seg = cwndSeg s; d = drop_bit 3 (seg * m_betaScale s)
      in Option.bind (friendliness_loop d (m_ackCnt s) (m_tcpCwnd s)) (\<lambda>(ack, tcp).
         Some (let s1 = s\<lparr>m_ackCnt := ack, m_tcpCwnd := tcp\<rparr>;
                   max_cnt = seg div (tcp - seg);
                   cnt1 = (if tcp > seg \<and> cnt > max_cnt then max_cnt else cnt)
               in bindE (guardE (m_delayedAck s \<noteq> 0) DivByZero) (\<lambda>_.
                  let cnt2 = push_bit 4 cnt1 div m_delayedAck s
                  in Inr (if cnt2 = 0 then 1 else cnt2, s1)))))"

text \<open>The first update after a reduction: the inflection point and the time \<open>K\<close> to reach it.\<close>

definition begin_epoch :: "u64 \<Rightarrow> u32 \<Rightarrow> tcp_cubic \<Rightarrow> tcp_cubic res" where
  "begin_epoch now seg s =
     (let s1 = s\<lparr>m_epochStart := now, m_ackCnt := 1, m_tcpCwnd := seg\<rparr>
      in if m_lastMax s1 \<le> seg then Inr (s1\<lparr>m_k := 0, m_originPoint := seg\<rparr>)
         else bindE (CubicRoot (ucast (m_lastMax s1 - seg) * m_cubeFactor s1)) (\<lambda>k.
              Inr (s1\<lparr>m_k := of_nat (unat k), m_originPoint := m_lastMax s1\<rparr>)))"

definition epoch_time :: "u64 \<Rightarrow> tcp_cubic \<Rightarrow> u32" where
  "epoch_time now s = ucast (push_bit 10 (now - m_epochStart s + ucast (drop_bit 3 (m_dMin s))) div 1000)"

definition window_target :: "u32 \<Rightarrow> tcp_cubic \<Rightarrow> u32" where
  "window_target t s =
     (let below = (of_nat (unat t) < m_k s);
          offs = of_int (trunc_real (if below then m_k s - of_nat (unat t) else of_nat (unat t) - m_k s)) :: u64;
          d = ucast (drop_bit (10 + 3 * 10) (ucast (m_cubeRttScale s) * offs * offs * offs)) :: u32
      in if below then m_originPoint s - d else m_originPoint s + d)"

definition limit_increment :: "u32 \<Rightarrow> u32 \<Rightarrow> u32 \<Rightarrow> tcp_cubic \<Rightarrow> u32 res" where
  "limit_increment t seg cnt s =
     (if m_dMin s > 0 then
        (let d = of_int (10 * m_maxIncrement s) * m_dMin s
         in bindE (guardE (d \<noteq> 0) DivByZero) (\<lambda>_.
            let min_cnt = (seg * 1000 * 8) div d
            in Inr (if cnt < min_cnt \<and> m_k s \<le> of_nat (unat t) then min_cnt else cnt)))
      else Inr cnt)"

definition suggested_count :: "u64 \<Rightarrow> u32 \<Rightarrow> tcp_cubic \<Rightarrow> u32 res" where
  "suggested_count now seg s =
     (let t = epoch_time now s;
          target = window_target t s;
          cnt = (if target > seg then seg div (target - seg) else 100 * seg)
      in bindE (limit_increment t seg cnt s) (\<lambda>cnt1. Inr (if m_lastMax s = 0 then 50 else cnt1)))"

definition CubicUpdate :: "u64 \<Rightarrow> tcp_cubic \<Rightarrow> (u32 \<times> tcp_cubic) res option" where
  "CubicUpdate now s =
     (let seg = cwndSeg s; s1 = s\<lparr>m_ackCnt := m_ackCnt s + 1\<rparr>
      in if m_lastMax s1 = seg \<and> sint (ucast (now - ucast (m_lastTime s1)) :: u32) \<le> 1000 div 32
         then Some (Inr (0, s1))
         else
           (let s2 = s1\<lparr>m_lastCwnd := seg, m_lastTime := ucast now\<rparr>
            in case (if m_epochStart s2 = 0 then begin_epoch now seg s2 else Inr s2) of
                 Inl e \<Rightarrow> Some (Inl e)
               | Inr s3 \<Rightarrow>
                   (case suggested_count now seg s3 of
                      Inl e \<Rightarrow> Some (Inl e)
                    | Inr cnt \<Rightarrow>
                        if m_tcpFriendly s3 then CubicTcpFriendliness cnt s3 else Some (Inr (cnt, s3)))))"


section \<open>Events\<close>

definition note_rtt :: "int \<Rightarrow> tcp_cubic \<Rightarrow> tcp_cubic" where
  "note_rtt rtt s = (if m_dMin s = 0 \<or> uint (m_dMin s) > rtt then s\<lparr>m_dMin := of_int rtt\<rparr> else s)"

definition grow_window :: "u32 \<Rightarrow> tcp_cubic \<Rightarrow> tcp_cubic" where
  "grow_window cnt s =
     (if cnt \<noteq> 0 then
        (if m_cWndCnt s > cnt then s\<lparr>m_cWnd := m_cWnd s + segmentSize, m_cWndCnt := 0\<rparr>
         else s\<lparr>m_cWndCnt := m_cWndCnt s + 1\<rparr>)
      else s)"

definition NewAck :: "u64 \<Rightarrow> int \<Rightarrow> tcp_cubic \<Rightarrow> tcp_cubic res option" where
  "NewAck now rtt s =
     (let s1 = s\<lparr>m_inFastRec := False\<rparr>
      in if m_cWnd s1 \<le> m_ssThresh s1 then Some (Inr (s1\<lparr>m_cWnd := m_cWnd s1 + segmentSize\<rparr>))
         else Option.bind (CubicUpdate now (note_rtt rtt s1)) (\<lambda>r.
              Some (bindE r (\<lambda>(cnt, s2). Inr (grow_window cnt s2)))))"

datatype cubic_action = DoRetransmit | SendPendingData | SendDataPacket | RestartFromHead | IncreaseMultiplier

definition fast_retransmit :: "tcp_cubic \<Rightarrow> tcp_cubic" where
  "fast_retransmit s =
     (let seg = cwndSeg s;
          last = (if seg < m_lastMax s
                  then of_int (trunc_real (of_nat (unat seg) * (1024 + m_beta s) / (2 * 1024))) else seg);
          temp0 = of_int (trunc_real (of_nat (unat seg) * m_beta s / 1024)) :: u32;
          temp = (if temp0 < 2 then 2 else temp0)
      in s\<lparr>m_epochStart := 0, m_lastMax := last, m_cWnd := temp * segmentSize,
          m_ssThresh := temp * segmentSize, m_inFastRec := True\<rparr>)"

definition DupAck :: "u32 \<Rightarrow> bool \<Rightarrow> tcp_cubic \<Rightarrow> cubic_action list \<times> tcp_cubic" where
  "DupAck dups tx_pending s =
     (if dups = m_retxThresh s \<and> \<not> m_inFastRec s then ([DoRetransmit], fast_retransmit s)
      else if m_inFastRec s then ([SendPendingData], s\<lparr>m_cWnd := m_cWnd s + segmentSize\<rparr>)
      else if \<not> m_inFastRec s \<and> m_limitedTx s \<and> tx_pending then ([SendDataPacket], s)
      else ([], s))"

definition Retransmit :: "tcp_cubic \<Rightarrow> cubic_action list \<times> tcp_cubic" where
  "Retransmit s = ([RestartFromHead, IncreaseMultiplier, DoRetransmit], CubicReset (s\<lparr>m_inFastRec := False\<rparr>))"


section \<open>The loop of the TCP-friendly region\<close>

lemma friendliness_loop_zero:
  assumes "friendliness_loop d ack tcp = Some r"
  shows "d = 0 \<longrightarrow> ack = 0"
  using assms
proof (rule friendliness_loop.raw_induct [where P = "\<lambda>d ack tcp r. d = 0 \<longrightarrow> ack = 0", rotated])
  fix f d ack tcp r
  assume ih: "\<And>d ack tcp r. f d ack tcp = Some r \<Longrightarrow> d = 0 \<longrightarrow> ack = (0 :: u32)"
    and eq: "(if d < ack then f d (ack - d) (tcp + 1) else Some (ack, tcp)) = Some r"
  show "d = 0 \<longrightarrow> ack = (0 :: u32)"
  proof (intro impI, rule ccontr)
    assume d: "d = 0" and ack: "ack \<noteq> 0"
    then have "f d (ack - d) (tcp + 1) = Some r" using eq by (simp add: word_gt_0)
    from ih [OF this] d ack show False by simp
  qed
qed

lemma friendliness_loop_eq:
  "friendliness_loop d ack tcp =
     (if ack \<le> d then Some (ack, tcp)
      else if d = 0 then None
      else Some (of_nat ((unat ack - 1) mod unat d + 1), tcp + of_nat ((unat ack - 1) div unat d)))"
proof (cases "d = 0")
  case True
  then show ?thesis using friendliness_loop_zero [of d ack tcp]
    by (cases "friendliness_loop d ack tcp") (auto simp: friendliness_loop.simps [of 0 0])
next
  case False
  then have d: "0 < unat d" by (simp add: unat_gt_0)
  have "friendliness_loop d ack tcp =
     (if ack \<le> d then Some (ack, tcp)
      else Some (of_nat ((unat ack - 1) mod unat d + 1), tcp + of_nat ((unat ack - 1) div unat d)))"
    if "n = unat ack" for n
    using that
  proof (induction n arbitrary: ack tcp rule: less_induct)
    case (less n)
    show ?case
    proof (cases "ack \<le> d")
      case True
      then show ?thesis by (simp add: friendliness_loop.simps [of d ack] leD)
    next
      case False
      then have gt: "unat d < unat ack" by (simp add: word_less_nat_alt not_le)
      have sub: "unat (ack - d) = unat ack - unat d" using False by (simp add: unat_sub)
      have step: "(unat ack - 1) mod unat d = (unat ack - unat d - 1) mod unat d"
        "(unat ack - 1) div unat d = (unat ack - unat d - 1) div unat d + 1"
        using gt d by (simp_all add: le_mod_geq le_div_geq diff_commute)
      have "friendliness_loop d ack tcp = friendliness_loop d (ack - d) (tcp + 1)"
        using False by (simp add: friendliness_loop.simps [of d ack] not_le)
      also have "\<dots> = (if ack - d \<le> d then Some (ack - d, tcp + 1)
        else Some (of_nat ((unat (ack - d) - 1) mod unat d + 1), tcp + 1 + of_nat ((unat (ack - d) - 1) div unat d)))"
        using less.IH [of "unat (ack - d)" "ack - d"] less.prems sub gt d by simp
      finally have eq: "friendliness_loop d ack tcp = (if ack - d \<le> d then Some (ack - d, tcp + 1)
        else Some (of_nat ((unat (ack - d) - 1) mod unat d + 1), tcp + 1 + of_nat ((unat (ack - d) - 1) div unat d)))" .
      show ?thesis
      proof (cases "ack - d \<le> d")
        case True
        then have "unat ack - unat d \<le> unat d" using sub by (simp add: word_le_nat_alt)
        then have "(unat ack - unat d - 1) mod unat d = unat ack - unat d - 1" "(unat ack - unat d - 1) div unat d = 0"
          using gt d by simp_all
        moreover have "of_nat (unat ack - unat d) = ack - d" by (simp flip: sub)
        ultimately show ?thesis using True False step eq gt by simp
      next
        case False
        then show ?thesis using \<open>\<not> ack \<le> d\<close> step eq by (simp add: sub)
      qed
    qed
  qed
  then show ?thesis using False by simp
qed

section \<open>Updates return\<close>

text \<open>The parameters of the constructor.\<close>

definition cubic_params :: "tcp_cubic \<Rightarrow> bool" where
  "cubic_params s \<longleftrightarrow> m_retxThresh s = 3 \<and> m_beta s = 819 \<and> m_betaScale s = 23 \<and> m_delayedAck s = 32
     \<and> m_maxIncrement s = 16"

lemma TcpCubic_params: "cubic_params (TcpCubic raw)"
proof -
  have "trunc_real (8 * (1024 + 819) / 3 / (1024 - 819)) = 23"
    by (simp add: trunc_real_def floor_eq_iff)
  then show ?thesis by (simp add: cubic_params_def TcpCubic_def)
qed

definition cubic_ok :: "nat \<Rightarrow> tcp_cubic \<Rightarrow> bool" where
  "cubic_ok w s \<longleftrightarrow> cubic_params s \<and> 1500 \<le> unat (m_cWnd s) \<and> unat (m_cWnd s) \<le> w \<and> unat (m_dMin s) < 2 ^ 27"

text \<open>
  The copy constructor leaves \<open>m_lastTime\<close> and \<open>m_lastCwnd\<close> as the memory was (\<open>raw\<close>), like the default
  one; the copy satisfies the invariant whatever they are.
\<close>

definition TcpCubic_copy :: "tcp_cubic \<Rightarrow> tcp_cubic \<Rightarrow> tcp_cubic" where
  "TcpCubic_copy raw sock = raw\<lparr>m_cWnd := m_cWnd sock, m_ssThresh := m_ssThresh sock,
     m_initialCWnd := m_initialCWnd sock, m_recover := m_recover sock, m_retxThresh := m_retxThresh sock,
     m_inFastRec := m_inFastRec sock, m_limitedTx := m_limitedTx sock, m_cubeFactor := m_cubeFactor sock,
     m_beta := m_beta sock, m_cubeRttScale := m_cubeRttScale sock, m_bicScale := m_bicScale sock,
     m_betaScale := m_betaScale sock, m_maxIncrement := m_maxIncrement sock, m_delayedAck := m_delayedAck sock,
     m_epochStart := m_epochStart sock, m_windowMax := m_windowMax sock, m_lastMax := m_lastMax sock,
     m_k := m_k sock, m_dMin := m_dMin sock, m_originPoint := m_originPoint sock, m_tcpCwnd := m_tcpCwnd sock,
     m_tcpFriendly := m_tcpFriendly sock, m_ackCnt := m_ackCnt sock, m_cWndCnt := m_cWndCnt sock\<rparr>"

lemma TcpCubic_copy_ok [simp]: "cubic_ok w (TcpCubic_copy raw s) \<longleftrightarrow> cubic_ok w s"
  by (simp add: cubic_ok_def cubic_params_def TcpCubic_copy_def)

definition cubic_Window :: "tcp_cubic \<Rightarrow> u32" where
  "cubic_Window s = m_cWnd s"

definition GetSSThresh :: "tcp_cubic \<Rightarrow> u32" where
  "GetSSThresh s = m_ssThresh s"

definition GetInitialCwnd :: "tcp_cubic \<Rightarrow> u32" where
  "GetInitialCwnd s = m_initialCWnd s"

lemma cwndSeg_bounds:
  assumes "1500 \<le> unat (m_cWnd s)"
  shows "1 \<le> unat (cwndSeg s)" and "unat (cwndSeg s) \<le> 2863311" and "unat (cwndSeg s) = unat (m_cWnd s) div 1500"
proof -
  show eq: "unat (cwndSeg s) = unat (m_cWnd s) div 1500" by (simp add: cwndSeg_def unat_div)
  have "unat (m_cWnd s) < 2 ^ 32" by (rule order_less_le_trans [OF unsigned_less]) simp
  then show "1 \<le> unat (cwndSeg s)" "unat (cwndSeg s) \<le> 2863311" using assms by (simp_all add: eq)
qed

lemma CubicTcpFriendliness_total:
  assumes "cubic_ok w s"
  shows "\<exists>c s'. CubicTcpFriendliness cnt s = Some (Inr (c, s')) \<and> c \<noteq> 0
    \<and> s' = s\<lparr>m_ackCnt := m_ackCnt s', m_tcpCwnd := m_tcpCwnd s'\<rparr>"
proof -
  have p: "m_betaScale s = 23" "m_delayedAck s = 32" and c: "1500 \<le> unat (m_cWnd s)"
    using assms by (auto simp: cubic_ok_def cubic_params_def)
  note seg = cwndSeg_bounds [OF c]
  have "unat (drop_bit 3 (cwndSeg s * m_betaScale s)) = unat (cwndSeg s) * 23 div 8"
    using seg(2) by (simp add: p unat_drop_bit_eq drop_bit_nat_def unat_word_ariths)
  moreover have "unat (cwndSeg s) * 23 div 8 \<noteq> 0" using seg(1) by (simp add: div_eq_0_iff)
  ultimately have "drop_bit 3 (cwndSeg s * m_betaScale s) \<noteq> 0" by (metis unat_0)
  then have "\<exists>r. friendliness_loop (drop_bit 3 (cwndSeg s * m_betaScale s)) (m_ackCnt s) (m_tcpCwnd s) = Some r"
    by (simp add: friendliness_loop_eq)
  then obtain a t where "friendliness_loop (drop_bit 3 (cwndSeg s * m_betaScale s)) (m_ackCnt s) (m_tcpCwnd s) = Some (a, t)"
    by auto
  then show ?thesis by (simp add: CubicTcpFriendliness_def p Let_def)
qed


definition keeps :: "tcp_cubic \<Rightarrow> tcp_cubic \<Rightarrow> bool" where
  "keeps s s' \<longleftrightarrow> m_cWnd s' = m_cWnd s \<and> m_dMin s' = m_dMin s \<and> m_tcpFriendly s' = m_tcpFriendly s
     \<and> m_inFastRec s' = m_inFastRec s \<and> (cubic_params s \<longrightarrow> cubic_params s')"

lemma keeps_ok: "keeps s s' \<Longrightarrow> cubic_ok w s \<Longrightarrow> cubic_ok w s'"
  by (auto simp: keeps_def cubic_ok_def)

lemma keeps_counts: "keeps s (s\<lparr>m_ackCnt := a, m_tcpCwnd := b\<rparr>)"
  by (simp add: keeps_def cubic_params_def)

lemma begin_epoch_total: "\<exists>s'. begin_epoch now seg s = Inr s' \<and> keeps s s'"
proof -
  obtain k where "CubicRoot (ucast (m_lastMax s - seg) * m_cubeFactor s) = Inr k" using CubicRoot_near by blast
  then show ?thesis by (auto simp: begin_epoch_def keeps_def cubic_params_def Let_def)
qed

lemma limit_increment_total:
  assumes "cubic_ok w s"
  shows "\<exists>c. limit_increment t seg cnt s = Inr c"
proof (cases "m_dMin s > 0")
  case True
  define n where "n = unat (m_dMin s)"
  have n: "0 < n" "n < 2 ^ 27" using True assms by (auto simp: n_def cubic_ok_def unat_gt_0 word_gt_0)
  have "160 * n mod 2 ^ 32 \<noteq> 0"
  proof
    assume "160 * n mod 2 ^ 32 = 0"
    then obtain k where "160 * n = 2 ^ 32 * k" by (auto simp: mod_eq_0_iff_dvd elim: dvdE)
    then have "5 * n = 2 ^ 27 * k" by simp
    then have "5 * n = 134217728 * k" "0 < n" "n < 134217728" using n by simp_all
    then have k: "k < 5" "k \<noteq> 0" by linarith+
    have "134217728 * k mod 5 = 0" using \<open>5 * n = 134217728 * k\<close> by (metis mod_mult_self1_is_0)
    moreover have "k = 1 \<or> k = 2 \<or> k = 3 \<or> k = 4" using k by linarith
    ultimately show False by auto
  qed
  moreover have "unat (of_int (10 * m_maxIncrement s) * m_dMin s) = 160 * n mod 2 ^ 32"
    using assms by (simp add: cubic_ok_def cubic_params_def unat_word_ariths n_def)
  ultimately have "of_int (10 * m_maxIncrement s) * m_dMin s \<noteq> 0" by (metis unat_0)
  then show ?thesis using True by (simp add: limit_increment_def Let_def)
qed (simp add: limit_increment_def)

lemma CubicUpdate_total:
  assumes "cubic_ok w s"
  shows "\<exists>cnt s'. CubicUpdate now s = Some (Inr (cnt, s')) \<and> keeps s s'"
proof (cases "m_lastMax s = cwndSeg s \<and> sint (ucast (now - ucast (m_lastTime s)) :: u32) \<le> 1000 div 32")
  case True
  then have "CubicUpdate now s = Some (Inr (0, s\<lparr>m_ackCnt := m_ackCnt s + 1\<rparr>))"
    by (simp add: CubicUpdate_def Let_def)
  moreover have "keeps s (s\<lparr>m_ackCnt := m_ackCnt s + 1\<rparr>)" by (simp add: keeps_def cubic_params_def)
  ultimately show ?thesis by blast
next
  case False
  define s2 where "s2 = s\<lparr>m_ackCnt := m_ackCnt s + 1, m_lastCwnd := cwndSeg s, m_lastTime := ucast now\<rparr>"
  have k2: "keeps s s2" by (simp add: keeps_def s2_def cubic_params_def)
  obtain s3 where s3: "(if m_epochStart s2 = 0 then begin_epoch now (cwndSeg s) s2 else Inr s2) = Inr s3" and k3: "keeps s2 s3"
  proof (cases "m_epochStart s2 = 0")
    case True
    then show ?thesis using that begin_epoch_total [of now "cwndSeg s" s2] by auto
  next
    case False
    then show ?thesis using that [of s2] by (simp add: keeps_def)
  qed
  have ok: "cubic_ok w s3" using assms k2 k3 keeps_ok by blast
  obtain cnt where cnt: "suggested_count now (cwndSeg s) s3 = Inr cnt"
    using limit_increment_total [OF ok] by (metis bindE.simps(2) suggested_count_def)
  obtain c s4 where "CubicTcpFriendliness cnt s3 = Some (Inr (c, s4))" "s4 = s3\<lparr>m_ackCnt := m_ackCnt s4, m_tcpCwnd := m_tcpCwnd s4\<rparr>"
    using CubicTcpFriendliness_total [OF ok] by blast
  moreover from this(2) have "keeps s3 s4"
    by (metis keeps_counts)
  ultimately have k4: "keeps s s4" and "CubicTcpFriendliness cnt s3 = Some (Inr (c, s4))"
    and k3: "keeps s s3" using k2 k3 by (auto simp: keeps_def)
  moreover have "CubicUpdate now s = (if m_tcpFriendly s3 then CubicTcpFriendliness cnt s3 else Some (Inr (cnt, s3)))"
  proof -
    let ?s1 = "s\<lparr>m_ackCnt := m_ackCnt s + 1\<rparr>"
    have nf: "\<not> (m_lastMax ?s1 = cwndSeg s \<and> sint (ucast (now - ucast (m_lastTime ?s1)) :: u32) \<le> 1000 div 32)"
      using False by simp
    have "?s1\<lparr>m_lastCwnd := cwndSeg s, m_lastTime := ucast now\<rparr> = s2" by (simp add: s2_def)
    then show ?thesis unfolding CubicUpdate_def Let_def if_not_P [OF nf] using s3 cnt by (cases "m_epochStart s2 = 0") simp_all
  qed
  ultimately show ?thesis by auto
qed

section \<open>Every sequence of events\<close>

datatype cubic_event = Acked u64 int | DupAcked u32 bool | TimedOut | DelAckTimedOut

fun cubic_step :: "cubic_event \<Rightarrow> tcp_cubic \<Rightarrow> tcp_cubic res option" where
  "cubic_step (Acked now rtt) s = NewAck now rtt s"
| "cubic_step (DupAcked dups tx_pending) s = Some (Inr (snd (DupAck dups tx_pending s)))"
| "cubic_step TimedOut s = Some (Inr (snd (Retransmit s)))"
| "cubic_step DelAckTimedOut s = Some (Inr (DelAckTimeout s))"

fun cubic_run :: "cubic_event list \<Rightarrow> tcp_cubic \<Rightarrow> tcp_cubic res option" where
  "cubic_run [] s = Some (Inr s)"
| "cubic_run (e # es) s =
     (case cubic_step e s of None \<Rightarrow> None | Some (Inl err) \<Rightarrow> Some (Inl err) | Some (Inr s') \<Rightarrow> cubic_run es s')"

fun event_ok :: "cubic_event \<Rightarrow> bool" where
  "event_ok (Acked now rtt) \<longleftrightarrow> 0 \<le> rtt \<and> rtt < 2 ^ 27"
| "event_ok e \<longleftrightarrow> True"

lemma unat_add_segment:
  assumes "unat c \<le> w" and "w + 1500 < 2 ^ 32"
  shows "unat (c + segmentSize) = unat c + 1500"
  using assms by (simp add: unat_word_ariths)

lemma NewAck_total:
  assumes ok: "cubic_ok w s" and w: "w + 1500 < 2 ^ 32" and rtt: "0 \<le> rtt" "rtt < 2 ^ 27"
  shows "\<exists>s'. NewAck now rtt s = Some (Inr s') \<and> cubic_ok (w + 1500) s' \<and> \<not> m_inFastRec s'
    \<and> (m_cWnd s' = m_cWnd s + segmentSize \<or> m_ssThresh s < m_cWnd s \<and> m_cWnd s' = m_cWnd s)"
proof (cases "m_cWnd s \<le> m_ssThresh s")
  case True
  have "unat (m_cWnd s + segmentSize) = unat (m_cWnd s) + 1500"
    using ok w by (intro unat_add_segment) (auto simp: cubic_ok_def)
  then show ?thesis using True ok by (auto simp: NewAck_def cubic_ok_def cubic_params_def Let_def)
next
  case False
  define s1 where "s1 = note_rtt rtt (s\<lparr>m_inFastRec := False\<rparr>)"
  have "unat (of_int rtt :: u32) < 2 ^ 27" using rtt by (simp add: unat_of_int_u32)
  then have ok1: "cubic_ok w s1" "m_cWnd s1 = m_cWnd s" "\<not> m_inFastRec s1"
    using ok by (auto simp: s1_def note_rtt_def cubic_ok_def cubic_params_def)
  obtain cnt s2 where s2: "CubicUpdate now s1 = Some (Inr (cnt, s2))" "keeps s1 s2"
    using CubicUpdate_total [OF ok1(1)] by blast
  have ok2: "cubic_ok w s2" using keeps_ok [OF s2(2) ok1(1)] .
  then have "unat (m_cWnd s2 + segmentSize) = unat (m_cWnd s2) + 1500"
    using w by (intro unat_add_segment) (auto simp: cubic_ok_def)
  then have "cubic_ok (w + 1500) (grow_window cnt s2) \<and> \<not> m_inFastRec (grow_window cnt s2)
    \<and> (m_cWnd (grow_window cnt s2) = m_cWnd s + segmentSize \<or> m_cWnd (grow_window cnt s2) = m_cWnd s)"
    using ok2 s2(2) ok1 by (auto simp: grow_window_def cubic_ok_def cubic_params_def keeps_def)
  then show ?thesis using False s2(1) by (auto simp: NewAck_def s1_def [symmetric] Let_def not_le)
qed

lemma fast_retransmit_window:
  assumes "cubic_ok w s"
  shows "unat (m_cWnd (fast_retransmit s)) = 1500 * max 2 (unat (cwndSeg s) * 819 div 1024)"
proof -
  have b: "m_beta s = 819" and c: "1500 \<le> unat (m_cWnd s)" using assms by (auto simp: cubic_ok_def cubic_params_def)
  define n where "n = unat (cwndSeg s)"
  have n: "n \<le> 2863311" using cwndSeg_bounds(2) [OF c] by (simp add: n_def)
  have t: "trunc_real (of_nat n * 819 / 1024) = int (n * 819 div 1024)"
    using floor_divide_of_nat_eq [of "n * 819" 1024, where 'a = real] by (simp add: trunc_real_def)
  define k where "k = n * 819 div 1024"
  have k: "k \<le> 2863311" using n by (simp add: k_def)
  define temp :: u32 where "temp = of_int (trunc_real (of_nat (unat (cwndSeg s)) * m_beta s / 1024))"
  have "temp = of_int (int k)" by (simp only: temp_def n_def [symmetric] b t k_def)
  then have u: "unat temp = k" using k by (simp add: unat_of_nat_u32)
  have "m_cWnd (fast_retransmit s) = (if temp < 2 then 2 else temp) * segmentSize"
    by (simp add: fast_retransmit_def Let_def temp_def)
  moreover have "unat ((if temp < 2 then 2 else temp) :: u32) = max 2 k"
    using u by (simp add: word_less_nat_alt)
  ultimately show ?thesis using k by (simp add: unat_word_ariths n_def [symmetric] k_def [symmetric])
qed


lemma DupAck_ok:
  assumes ok: "cubic_ok w s" and w: "w + 1500 < 2 ^ 32"
  shows "cubic_ok (w + 1500) (snd (DupAck dups tx_pending s))"
proof -
  have c: "1500 \<le> unat (m_cWnd s)" "unat (m_cWnd s) \<le> w" using ok by (auto simp: cubic_ok_def)
  have "unat (m_cWnd s + segmentSize) = unat (m_cWnd s) + 1500" by (rule unat_add_segment [OF c(2) w])
  moreover have "unat (m_cWnd (fast_retransmit s)) \<le> w + 1500" "1500 \<le> unat (m_cWnd (fast_retransmit s))"
  proof -
    have "1500 * (unat (cwndSeg s) * 819 div 1024) \<le> w" "1500 * 2 \<le> w + 1500"
      using c cwndSeg_bounds(3) [OF c(1)] by simp_all
    then show "unat (m_cWnd (fast_retransmit s)) \<le> w + 1500" "1500 \<le> unat (m_cWnd (fast_retransmit s))"
      using fast_retransmit_window [OF ok] by auto
  qed
  moreover have "cubic_params (fast_retransmit s)" "m_dMin (fast_retransmit s) = m_dMin s"
    using ok by (simp_all add: fast_retransmit_def Let_def cubic_ok_def cubic_params_def)
  ultimately show ?thesis using ok by (auto simp: DupAck_def cubic_ok_def cubic_params_def)
qed

lemma CubicReset_ok: "cubic_ok w s \<Longrightarrow> cubic_ok w (CubicReset s)"
  by (simp add: CubicReset_def cubic_ok_def cubic_params_def)

lemma cubic_ok_mono: "cubic_ok w s \<Longrightarrow> w \<le> w' \<Longrightarrow> cubic_ok w' s"
  by (auto simp: cubic_ok_def)

lemma cubic_step_total:
  assumes ok: "cubic_ok w s" and w: "w + 1500 < 2 ^ 32" and e: "event_ok e"
  shows "\<exists>s'. cubic_step e s = Some (Inr s') \<and> cubic_ok (w + 1500) s'"
proof (cases e)
  case (Acked now rtt)
  then show ?thesis using NewAck_total [OF ok w, of rtt now] e by auto
next
  case TimedOut
  have "cubic_ok w (s\<lparr>m_inFastRec := False\<rparr>)" using ok by (simp add: cubic_ok_def cubic_params_def)
  then show ?thesis using CubicReset_ok cubic_ok_mono [of w _ "w + 1500"] by (simp add: TimedOut Retransmit_def)
next
  case DelAckTimedOut
  then show ?thesis using CubicReset_ok [OF ok] cubic_ok_mono [of w _ "w + 1500"] by (simp add: DelAckTimeout_def)
qed (simp add: DupAck_ok [OF ok w])

lemma cubic_run_total:
  assumes "cubic_ok w s" and "\<forall>e \<in> set es. event_ok e" and "w + 1500 * length es < 2 ^ 32"
  shows "\<exists>s'. cubic_run es s = Some (Inr s') \<and> cubic_ok (w + 1500 * length es) s'"
  using assms
proof (induction es arbitrary: w s)
  case (Cons e es)
  obtain s1 where "cubic_step e s = Some (Inr s1)" "cubic_ok (w + 1500) s1"
    using cubic_step_total [of w s e] Cons.prems by auto
  then show ?case using Cons.IH [of "w + 1500" s1] Cons.prems by (auto simp: add.assoc)
qed simp

lemma cubic_init_ok:
  assumes "1 \<le> unat w0" and "1500 * unat w0 < 2 ^ 32"
  shows "cubic_ok (1500 * unat w0) (cubic_init (SetInitialCwnd w0 (TcpCubic raw)))"
proof -
  have "unat (w0 * segmentSize) = unat w0 * 1500" using assms(2) by (simp add: unat_word_ariths)
  then show ?thesis using assms(1) TcpCubic_params [of raw]
    by (simp add: cubic_ok_def cubic_params_def cubic_init_def InitializeCwnd_def SetInitialCwnd_def TcpCubic_def)
qed

definition quiet_cubic :: tcp_cubic where
  "quiet_cubic = \<lparr>m_cWnd = 0, m_ssThresh = 0, m_initialCWnd = 0, m_recover = 0, m_retxThresh = 0, m_inFastRec = False,
     m_limitedTx = False, m_cubeFactor = 0, m_beta = 0, m_cubeRttScale = 0, m_bicScale = 0, m_betaScale = 0,
     m_maxIncrement = 0, m_delayedAck = 0, m_epochStart = 0, m_lastTime = 0, m_windowMax = 0, m_lastMax = 0,
     m_lastCwnd = 0, m_k = 0, m_dMin = 0, m_originPoint = 0, m_tcpCwnd = 0, m_tcpFriendly = False,
     m_ackCnt = 0, m_cWndCnt = 0\<rparr>"

text \<open>
  C29. From an initial window of at least one segment, whatever order of acknowledgements, duplicate
  acknowledgements and timeouts arrives, as long as the window cannot reach \<open>2 ^ 32\<close> bytes: no loop of
  Cubic runs for ever, no table is overrun and nothing is divided by zero, and the window stays at
  least one segment and grows by at most one segment per event.
\<close>

theorem cubic_never_stuck:
  assumes "1 \<le> unat w0" and "1500 * (unat w0 + length es) < 2 ^ 32" and "\<forall>e \<in> set es. event_ok e"
  shows "\<exists>s'. cubic_run es (cubic_init (SetInitialCwnd w0 (TcpCubic raw))) = Some (Inr s')
    \<and> 1500 \<le> unat (m_cWnd s') \<and> unat (m_cWnd s') \<le> 1500 * (unat w0 + length es)"
proof -
  have "1500 * unat w0 < 2 ^ 32" "1500 * unat w0 + 1500 * length es < 2 ^ 32"
    using assms(2) by (simp_all add: distrib_left)
  then show ?thesis using cubic_run_total [OF cubic_init_ok [OF assms(1), of raw] assms(3)]
    by (auto simp: cubic_ok_def distrib_left)
qed

theorem cubic_never_stuck_witness:
  "\<exists>s'. cubic_run [Acked 100 20, DupAcked 3 True, Acked 130 20] (cubic_init (SetInitialCwnd 10 (TcpCubic quiet_cubic)))
    = Some (Inr s') \<and> 1500 \<le> unat (m_cWnd s')"
  using cubic_never_stuck [of 10 "[Acked 100 20, DupAcked 3 True, Acked 130 20]" quiet_cubic] by auto

text \<open>
  The loop of the TCP-friendly region returns exactly when the step is not zero or nothing is
  to be subtracted; then it subtracts the step as often as leaves a remainder of at most one step, and
  counts the subtractions.
\<close>

theorem friendliness_loop_returns:
  "friendliness_loop d ack tcp =
     (if ack \<le> d then Some (ack, tcp)
      else if d = 0 then None
      else Some (of_nat ((unat ack - 1) mod unat d + 1), tcp + of_nat ((unat ack - 1) div unat d)))"
  by (rule friendliness_loop_eq)

text \<open>
  The third duplicate acknowledgement outside fast recovery starts a fast retransmission: window
  and threshold become 819/1024 of the window in segments, rounded down, but at least two segments; the
  epoch ends, and a window that had not reached the last maximum lowers the maximum.
\<close>

theorem third_dup_ack_reduces:
  assumes "cubic_ok w s" and "\<not> m_inFastRec s"
  shows "\<exists>s'. DupAck 3 tx_pending s = ([DoRetransmit], s') \<and> m_inFastRec s' \<and> m_epochStart s' = 0
    \<and> unat (m_cWnd s') = 1500 * max 2 (unat (cwndSeg s) * 819 div 1024) \<and> m_ssThresh s' = m_cWnd s'
    \<and> unat (m_lastMax s') = (if cwndSeg s < m_lastMax s then unat (cwndSeg s) * 1843 div 2048 else unat (cwndSeg s))"
proof -
  have p: "m_retxThresh s = 3" "m_beta s = 819" and c: "1500 \<le> unat (m_cWnd s)"
    using assms(1) by (auto simp: cubic_ok_def cubic_params_def)
  define n where "n = unat (cwndSeg s)"
  have n: "n * 1843 div 2048 < 2 ^ 32" using cwndSeg_bounds(2) [OF c] by (simp add: n_def)
  have "trunc_real (of_nat n * (1024 + 819) / (2 * 1024)) = int (n * 1843 div 2048)"
    using floor_divide_of_nat_eq [of "n * 1843" 2048, where 'a = real] by (simp add: trunc_real_def)
  then have "unat (of_int (trunc_real (of_nat n * (1024 + m_beta s) / (2 * 1024))) :: u32) = n * 1843 div 2048"
    using n by (simp add: p unat_of_nat_u32)
  then have "unat (m_lastMax (fast_retransmit s)) = (if cwndSeg s < m_lastMax s then n * 1843 div 2048 else n)"
    by (simp add: fast_retransmit_def Let_def n_def)
  then show ?thesis using assms(2) fast_retransmit_window [OF assms(1)]
    by (simp add: DupAck_def p n_def) (simp add: fast_retransmit_def Let_def)
qed


lemma trunc_of_nat_diff: "(K :: nat) \<le> n \<Longrightarrow> trunc_real (of_nat n - of_nat K) = int (n - K)"
  by (simp add: trunc_real_def of_nat_diff [symmetric] del: of_nat_diff)

lemma cube_delta:
  assumes "trunc_real x = int n" and "scale = 410"
  shows "(ucast (drop_bit (10 + 3 * 10) (ucast (scale :: u32) * (of_int (trunc_real x) :: u64)
      * of_int (trunc_real x) * of_int (trunc_real x))) :: u32) = of_nat (410 * n ^ 3 mod 2 ^ 64 div 2 ^ 40)"
proof -
  define y :: u64 where "y = ucast scale * of_int (trunc_real x) * of_int (trunc_real x) * of_int (trunc_real x)"
  have "y = of_nat (410 * n ^ 3)" by (simp add: y_def assms power3_eq_cube mult.assoc)
  then have "unat y = 410 * n ^ 3 mod 2 ^ 64" by (simp only: unat_of_nat) simp
  then have "unat (drop_bit 40 y) = 410 * n ^ 3 mod 2 ^ 64 div 2 ^ 40" by (simp only: unat_drop_bit_eq drop_bit_nat_def)
  then have "(ucast (drop_bit 40 y) :: u32) = of_nat (410 * n ^ 3 mod 2 ^ 64 div 2 ^ 40)" by (metis of_nat_unat)
  then show ?thesis by (simp add: y_def)
qed

lemma cube_wraps_iff: "410 * n ^ 3 < 2 ^ 64 \<longleftrightarrow> n \<le> (355668 :: nat)"
proof
  assume "n \<le> 355668"
  then have "n ^ 3 \<le> 355668 ^ 3" by (rule power_mono) simp
  then show "410 * n ^ 3 < 2 ^ 64" by simp
next
  show "n \<le> 355668" if "410 * n ^ 3 < 2 ^ 64"
  proof (rule ccontr)
    assume "\<not> n \<le> 355668"
    then have "355669 ^ 3 \<le> n ^ 3" by (intro power_mono) simp_all
    with that show False by simp
  qed
qed

text \<open>
  C31. The target of the window is the cubic function of the time: with the time and the inflection
  point \<open>K\<close> in units of 1/1024 s, the origin minus (before \<open>K\<close>) or plus (after) 410/2^40 times the cube of
  their distance, rounded down. The product is taken modulo 2^64; it does not wrap, and the target is
  the cubic, exactly up to a distance of 355668 units, which is 347.3 seconds.
\<close>

theorem window_target_cubic:
  fixes t :: u32
  assumes "m_cubeRttScale s = 410" and "m_k s = of_nat K"
  defines "d \<equiv> if unat t < K then K - unat t else unat t - K"
  shows "window_target t s =
      (let cube = of_nat ((if d \<le> 355668 then 410 * d ^ 3 else 410 * d ^ 3 mod 2 ^ 64) div 2 ^ 40)
       in if unat t < K then m_originPoint s - cube else m_originPoint s + cube)
    \<and> (410 * d ^ 3 < 2 ^ 64 \<longleftrightarrow> d \<le> 355668)"
proof
  show "410 * d ^ 3 < 2 ^ 64 \<longleftrightarrow> d \<le> 355668" by (rule cube_wraps_iff)
  then have cube: "(if d \<le> 355668 then 410 * d ^ 3 else 410 * d ^ 3 mod 2 ^ 64) = 410 * d ^ 3 mod 2 ^ 64"
    by (auto simp: mod_less)
  show "window_target t s =
      (let cube = of_nat ((if d \<le> 355668 then 410 * d ^ 3 else 410 * d ^ 3 mod 2 ^ 64) div 2 ^ 40)
       in if unat t < K then m_originPoint s - cube else m_originPoint s + cube)"
  proof (cases "unat t < K")
    case True
    have below: "of_nat (unat t) < m_k s" using True by (simp only: assms(2) of_nat_less_iff)
    have "trunc_real (m_k s - of_nat (unat t)) = int (K - unat t)"
      using True unfolding assms(2) by (intro trunc_of_nat_diff) simp
    note delta = cube_delta [OF this assms(1)]
    show ?thesis unfolding cube
      by (simp only: window_target_def Let_def below if_True delta d_def True)
  next
    case False
    have below: "\<not> of_nat (unat t) < m_k s" using False by (simp only: assms(2) of_nat_less_iff not_False_eq_True)
    have "trunc_real (of_nat (unat t) - m_k s) = int (unat t - K)"
      using False unfolding assms(2) by (intro trunc_of_nat_diff) simp
    note delta = cube_delta [OF this assms(1)]
    show ?thesis unfolding cube
      by (simp only: window_target_def Let_def below if_False delta d_def False)
  qed
qed

theorem window_target_cubic_witness:
  "window_target 30000 (quiet_cubic\<lparr>m_cubeRttScale := 410, m_k := 20000, m_originPoint := 90\<rparr>) = 90 + 372"
  using window_target_cubic [of "quiet_cubic\<lparr>m_cubeRttScale := 410, m_k := 20000, m_originPoint := 90\<rparr>" 20000 30000]
  by simp

theorem third_dup_ack_reduces_witness:
  "\<exists>s'. DupAck 3 False (cubic_init (SetInitialCwnd 100 (TcpCubic quiet_cubic))) = ([DoRetransmit], s')
    \<and> unat (m_cWnd s') = 118500"
proof -
  let ?s = "cubic_init (SetInitialCwnd 100 (TcpCubic quiet_cubic))"
  have "cubic_ok 150000 ?s" using cubic_init_ok [of 100 quiet_cubic] by simp
  moreover have "\<not> m_inFastRec ?s" "unat (cwndSeg ?s) = 100"
    by (simp_all add: cubic_init_def InitializeCwnd_def SetInitialCwnd_def TcpCubic_def cwndSeg_def quiet_cubic_def)
  ultimately show ?thesis using third_dup_ack_reduces [of 150000 ?s False] by auto
qed

end
