(* ===== verification/Pcc.thy ===== *)
theory Pcc
  imports Prelude
begin

text \<open>
  Model of \<open>src/pcc.h\<close>, the performance-oriented controller \<open>BBCC\<close> that \<open>pcc-tcp.cc\<close> hands to the UDT
  library. The library divides the transmission into monitor intervals, numbered modulo 100, and calls
  \<open>onMonitorStart\<close> when one starts and \<open>onMonitorEnds\<close> with its counts when its last packet is
  acknowledged or lost. Other callbacks do nothing. The members of the base class that the controller
  writes are fields of the record; \<open>rand\<close> is an argument, the value drawn at index \<open>i\<close> of the loop. The
  members of \<open>BBCC\<close> that no operation reads are left out. Monitor numbers are not negative, so \<open>%\<close> is
  \<open>mod\<close>. Where C++ divides a \<open>double\<close> by zero, which gives an infinity or no number, the model stops
  with \<open>DivByZero\<close>.
\<close>


section \<open>State\<close>

record bbcc =
  m_dPktSndPeriod :: real
  m_dCWndSize :: real
  m_iRTO :: int
  m_iMSS :: int
  target_monitor :: int
  starting_phase :: int
  make_guess :: int
  moving_phase :: int
  moving_phase_initial :: int
  change_intense :: int
  change_amount :: real
  change_direction :: int
  rate_bucket :: "real list"
  monitor_bucket :: "int list"
  utility_bucket :: "real list"
  recorded_number :: int
  current_rate :: real
  previous_rate :: real
  current_utility :: real
  previous_utility :: real
  guess_time :: int
  continous_guess_count :: int
  continous_send :: int
  continous_send_count :: int
  recording_guess_result :: int
  start_rate_array :: "real list"
  start_previous_monitor :: int
  start_previous_utility :: real
  previous_rtt :: real

abbreviation MAX_MONITOR_NUMBER :: int where "MAX_MONITOR_NUMBER \<equiv> 100"
abbreviation NUMBER_OF_PROBE :: int where "NUMBER_OF_PROBE \<equiv> 4"
abbreviation MAX_COUNTINOUS_GUESS :: int where "MAX_COUNTINOUS_GUESS \<equiv> 5"
abbreviation MAX_COUNTINOUS_SEND :: int where "MAX_COUNTINOUS_SEND \<equiv> 1"
abbreviation GRANULARITY :: real where "GRANULARITY \<equiv> 1 / 100"

text \<open>The argument gives the members that the constructor leaves as they are.\<close>

definition BBCC :: "bbcc \<Rightarrow> bbcc" where
  "BBCC s = s\<lparr>m_dPktSndPeriod := 10000, m_dCWndSize := 100000, m_iRTO := 100000000,
     starting_phase := 1, target_monitor := 0, make_guess := 0, moving_phase := 0, moving_phase_initial := 0,
     change_direction := 0, change_intense := 1, guess_time := 0, continous_guess_count := 0,
     continous_send := 0, continous_send_count := 0, previous_utility := 0, previous_rate := 1,
     current_rate := 1, recording_guess_result := 0, recorded_number := 0,
     start_rate_array := replicate 100 0, start_previous_monitor := - 1, start_previous_utility := - 10000,
     previous_rtt := 0\<rparr>"

definition pcc_setRate :: "real \<Rightarrow> bbcc \<Rightarrow> bbcc res" where
  "pcc_setRate mbps s = bindE (guardE (mbps \<noteq> 0) DivByZero) (\<lambda>_.
     Inr (s\<lparr>m_dPktSndPeriod := (real_of_int (m_iMSS s) * 8) / mbps\<rparr>))"


section \<open>The start of a monitor interval\<close>

definition start_doubled :: "int \<Rightarrow> bbcc \<Rightarrow> bbcc res" where
  "start_doubled current_monitor s =
     bindE (aset (start_rate_array s) current_monitor (previous_rate s * 2)) (\<lambda>a.
     bindE (aget a current_monitor) (\<lambda>r.
     pcc_setRate r (s\<lparr>start_rate_array := a, previous_rate := r\<rparr>)))"

text \<open>One turn of the loop over the pairs of probes; the loop runs for \<open>i = 0\<close> and \<open>i = 2\<close>.\<close>

definition guess_pair :: "(int \<Rightarrow> int) \<Rightarrow> int \<Rightarrow> bbcc \<Rightarrow> bbcc res" where
  "guess_pair rand i s =
     (let rand_dir = rand i mod 2 * 2 - 1;
          amount = real_of_int (rand_dir * continous_guess_count s) * GRANULARITY * current_rate s
      in bindE (aset (rate_bucket s) i (current_rate s + amount)) (\<lambda>b1.
         bindE (aset b1 (i + 1) (current_rate s - amount)) (\<lambda>b2.
         Inr (s\<lparr>rate_bucket := b2\<rparr>))))"

definition guess_monitor :: "int \<Rightarrow> int \<Rightarrow> bbcc \<Rightarrow> bbcc res" where
  "guess_monitor current_monitor i s =
     bindE (aset (monitor_bucket s) i ((current_monitor + i) mod MAX_MONITOR_NUMBER)) (\<lambda>b.
     Inr (s\<lparr>monitor_bucket := b\<rparr>))"

definition begin_guess :: "(int \<Rightarrow> int) \<Rightarrow> int \<Rightarrow> bbcc \<Rightarrow> bbcc res" where
  "begin_guess rand current_monitor s =
     bindE (for_each (guess_pair rand) [0, 2]
       (s\<lparr>recording_guess_result := 1, continous_guess_count := continous_guess_count s + 1\<rparr>))
     (for_each (guess_monitor current_monitor) [0, 1, 2, 3])"

definition guess_step :: "(int \<Rightarrow> int) \<Rightarrow> int \<Rightarrow> bbcc \<Rightarrow> bbcc res" where
  "guess_step rand current_monitor s =
     (let s1 = (if guess_time s = 0 \<and> continous_guess_count s = MAX_COUNTINOUS_GUESS
                then s\<lparr>continous_guess_count := 0\<rparr> else s)
      in bindE (if guess_time s1 = 0 then begin_guess rand current_monitor s1 else Inr s1) (\<lambda>s2.
         bindE (aget (rate_bucket s2) (guess_time s2)) (\<lambda>r.
         bindE (pcc_setRate r s2) (\<lambda>s3.
         let s4 = s3\<lparr>guess_time := guess_time s3 + 1\<rparr>
         in Inr (if guess_time s4 = NUMBER_OF_PROBE then s4\<lparr>make_guess := 0, guess_time := 0\<rparr> else s4)))))"

definition continue_sending :: "bbcc \<Rightarrow> bbcc res" where
  "continue_sending s =
     (if continous_send s = 1
      then bindE (if continous_send_count s = 1 then pcc_setRate (current_rate s) s else Inr s) (\<lambda>s1.
        Inr (if continous_send_count s1 < MAX_COUNTINOUS_SEND
             then s1\<lparr>continous_send_count := continous_send_count s1 + 1\<rparr>
             else s1\<lparr>continous_send := 0, continous_send_count := 0, continous_guess_count := 0, make_guess := 1\<rparr>))
      else Inr s)"

definition onMonitorStart :: "(int \<Rightarrow> int) \<Rightarrow> int \<Rightarrow> bbcc \<Rightarrow> bbcc res" where
  "onMonitorStart rand current_monitor s =
     (if starting_phase s \<noteq> 0 then start_doubled current_monitor s
      else bindE (if make_guess s = 1 then guess_step rand current_monitor s else Inr s) continue_sending)"


section \<open>The end of a monitor interval\<close>

definition monitor_utility :: "int \<Rightarrow> int \<Rightarrow> real \<Rightarrow> real \<Rightarrow> real \<Rightarrow> real res" where
  "monitor_utility tot loss time prev_rtt rtt =
     (let t = real_of_int tot;
          l = (if loss < 0 then 0 else real_of_int loss)
      in bindE (guardE (time \<noteq> 0 \<and> t \<noteq> 0 \<and> rtt \<noteq> 0) DivByZero) (\<lambda>_.
         Inr (((t - l) / time * (1 - 1 / (1 + exp (- 100 * (l / t - 5 / 100))))
                * (1 - 1 / (1 + exp (- 10 * (1 - prev_rtt / rtt)))) - 1 * l / time) / rtt * 1000)))"

definition fall_back :: "int \<Rightarrow> bbcc \<Rightarrow> bbcc res" where
  "fall_back i s = bindE (aget (start_rate_array s) i) (\<lambda>r.
     bindE (pcc_setRate r (s\<lparr>starting_phase := 0, make_guess := 1\<rparr>)) (\<lambda>s1.
     Inr (s1\<lparr>current_rate := r\<rparr>)))"

definition end_starting :: "int \<Rightarrow> real \<Rightarrow> bbcc \<Rightarrow> bbcc res" where
  "end_starting endMonitor utility s =
     (if endMonitor - 1 > start_previous_monitor s
      then if start_previous_monitor s = - 1 then fall_back 0 s else fall_back (start_previous_monitor s) s
      else if start_previous_utility s < utility
      then Inr (s\<lparr>start_previous_utility := utility, start_previous_monitor := endMonitor\<rparr>)
      else bindE (fall_back (start_previous_monitor s) s) (\<lambda>s1.
           Inr (s1\<lparr>previous_rate := current_rate s1\<rparr>)))"

definition record_probe :: "int \<Rightarrow> real \<Rightarrow> int \<Rightarrow> bbcc \<Rightarrow> bbcc res" where
  "record_probe endMonitor utility i s =
     bindE (aget (monitor_bucket s) i) (\<lambda>m.
     if endMonitor = m
     then bindE (aset (utility_bucket s) i utility) (\<lambda>b.
          Inr (s\<lparr>recorded_number := recorded_number s + 1, utility_bucket := b\<rparr>))
     else Inr s)"

definition vote :: "bbcc \<Rightarrow> int \<Rightarrow> real \<Rightarrow> real res" where
  "vote s i decision =
     bindE (aget (utility_bucket s) i) (\<lambda>u0. bindE (aget (utility_bucket s) (i + 1)) (\<lambda>u1.
     bindE (aget (rate_bucket s) i) (\<lambda>r0. bindE (aget (rate_bucket s) (i + 1)) (\<lambda>r1.
     Inr (if (u0 > u1 \<and> r0 > r1) \<or> (u0 < u1 \<and> r0 < r1) then decision + 1 else decision - 1)))))"

definition decide :: "int \<Rightarrow> bbcc \<Rightarrow> bbcc res" where
  "decide current s =
     (let s1 = s\<lparr>recorded_number := 0\<rparr> in
      bindE (for_each (vote s1) [0, 2] 0) (\<lambda>decision.
      if decision = 0 then Inr (s1\<lparr>make_guess := 1, recording_guess_result := 0\<rparr>)
      else (let direction = (if decision > 0 then 1 else - 1);
                amount = real_of_int ((continous_guess_count s1 div 2 + 1) * 1 * direction) * GRANULARITY * current_rate s1;
                s2 = s1\<lparr>change_direction := direction, recording_guess_result := 0, moving_phase_initial := 1,
                       change_intense := 1, change_amount := amount, previous_utility := 0,
                       continous_guess_count := 0, previous_rate := current_rate s1,
                       current_rate := current_rate s1 + amount,
                       target_monitor := (current + 1) mod MAX_MONITOR_NUMBER\<rparr>
            in pcc_setRate (current_rate s2) s2)))"

definition record_guess :: "int \<Rightarrow> int \<Rightarrow> real \<Rightarrow> bbcc \<Rightarrow> bbcc res" where
  "record_guess current endMonitor utility s =
     bindE (for_each (record_probe endMonitor utility) [0, 1, 2, 3] s) (\<lambda>s1.
     if recorded_number s1 = NUMBER_OF_PROBE then decide current s1 else Inr s1)"

text \<open>The measured rate lags far behind the intended one: start over from the measured rate.\<close>

definition too_fast :: "real \<Rightarrow> real \<Rightarrow> bbcc \<Rightarrow> bool" where
  "too_fast t time s \<longleftrightarrow> current_rate s > t * 12 / time / 1000 + 30 \<and> current_rate s > 200"

definition resync :: "real \<Rightarrow> real \<Rightarrow> bbcc \<Rightarrow> bbcc res" where
  "resync t time s =
     (let s1 = s\<lparr>current_rate := t * 12 / time / 1000, make_guess := 1, moving_phase := 0, moving_phase_initial := 0,
            change_direction := 0, change_intense := 1, guess_time := 0, continous_guess_count := 0,
            continous_send := 0, continous_send_count := 0, recording_guess_result := 0, recorded_number := 0\<rparr>
      in pcc_setRate (current_rate s1) s1)"

text \<open>The two blocks of the moving phase; the flag tells whether the callback returns.\<close>

definition change_of :: "bbcc \<Rightarrow> real" where
  "change_of s = real_of_int (change_intense s) * GRANULARITY * current_rate s * real_of_int (change_direction s)"

definition first_move :: "real \<Rightarrow> real \<Rightarrow> int \<Rightarrow> int \<Rightarrow> real \<Rightarrow> bbcc \<Rightarrow> (bool \<times> bbcc) res" where
  "first_move t time current endMonitor utility s =
     (if moving_phase_initial s \<noteq> 0 \<and> endMonitor = target_monitor s
      then if too_fast t time s then bindE (resync t time s) (\<lambda>s1. Inr (True, s1))
           else (let s1 = s\<lparr>target_monitor := (current + 1) mod MAX_MONITOR_NUMBER, previous_rate := current_rate s,
                          previous_utility := utility, change_intense := change_intense s + 1\<rparr>;
                     s2 = s1\<lparr>change_amount := change_of s1, current_rate := current_rate s1 + change_of s1\<rparr>
                 in bindE (pcc_setRate (current_rate s2) s2) (\<lambda>s3.
                    Inr (False, s3\<lparr>moving_phase_initial := 0, moving_phase := 1\<rparr>)))
      else Inr (False, s))"

definition next_move :: "real \<Rightarrow> real \<Rightarrow> int \<Rightarrow> int \<Rightarrow> real \<Rightarrow> bbcc \<Rightarrow> bbcc res" where
  "next_move t time current endMonitor utility s =
     (if moving_phase s \<noteq> 0 \<and> endMonitor = target_monitor s
      then if too_fast t time s then resync t time s
           else (let s1 = s\<lparr>current_utility := utility\<rparr> in
             if current_utility s1 > previous_utility s1
             then (let s2 = s1\<lparr>target_monitor := (current + 1) mod MAX_MONITOR_NUMBER,
                            change_intense := change_intense s1 + 1, previous_utility := current_utility s1,
                            previous_rate := current_rate s1\<rparr>;
                       s3 = s2\<lparr>change_amount := change_of s2, current_rate := current_rate s2 + change_of s2\<rparr>
                   in pcc_setRate (current_rate s3) s3)
             else (let s2 = s1\<lparr>moving_phase := 0, make_guess := 1, previous_utility := current_utility s1,
                            previous_rate := current_rate s1\<rparr>;
                       s3 = s2\<lparr>change_amount := change_of s2, current_rate := current_rate s2 - change_of s2\<rparr>
                   in pcc_setRate (current_rate s3) s3))
      else Inr s)"

definition end_running :: "real \<Rightarrow> real \<Rightarrow> int \<Rightarrow> int \<Rightarrow> real \<Rightarrow> bbcc \<Rightarrow> bbcc res" where
  "end_running t time current endMonitor utility s =
     bindE (if recording_guess_result s \<noteq> 0 then record_guess current endMonitor utility s else Inr s) (\<lambda>s1.
     bindE (first_move t time current endMonitor utility s1) (\<lambda>(returned, s2).
     if returned then Inr s2 else next_move t time current endMonitor utility s2))"

definition onMonitorEnds :: "int \<Rightarrow> int \<Rightarrow> real \<Rightarrow> int \<Rightarrow> int \<Rightarrow> real \<Rightarrow> bbcc \<Rightarrow> bbcc res" where
  "onMonitorEnds tot loss time current endMonitor rtt s =
     bindE (monitor_utility tot loss time (if previous_rtt s = 0 then rtt else previous_rtt s) rtt) (\<lambda>u.
     let utility = (if endMonitor = 0 \<and> starting_phase s \<noteq> 0 then u / 2 else u);
         s1 = s\<lparr>previous_rtt := rtt\<rparr>
     in if starting_phase s1 \<noteq> 0 then end_starting endMonitor utility s1
        else end_running (real_of_int tot) time current endMonitor utility s1)"


section \<open>Nothing fails\<close>

text \<open>
  The members of a controller whose first \<open>n\<close> monitors have started. While it is starting, the rates of
  the started monitors are known; afterwards every rate that it may use is positive.
\<close>

definition pcc_inv :: "nat \<Rightarrow> bbcc \<Rightarrow> bool" where
  "pcc_inv n s \<longleftrightarrow> 0 < m_iMSS s \<and> 0 < m_dPktSndPeriod s \<and> 0 < current_rate s \<and> 0 < previous_rate s
     \<and> length (start_rate_array s) = 100 \<and> length (rate_bucket s) = 4 \<and> length (monitor_bucket s) = 4
     \<and> length (utility_bucket s) = 4 \<and> continous_send s = 0
     \<and> guess_time s \<in> {0..3} \<and> continous_guess_count s \<in> {0..5} \<and> (0 < guess_time s \<longrightarrow> (\<forall>r \<in> set (rate_bucket s). 0 < r))
     \<and> change_direction s \<in> {- 1, 0, 1} \<and> 1 \<le> change_intense s
     \<and> (starting_phase s \<noteq> 0 \<longrightarrow> start_previous_monitor s \<in> {- 1..<min (int n) 100}
          \<and> (start_previous_monitor s = - 1 \<longrightarrow> start_previous_utility s = - 10000)
          \<and> (\<forall>i < min n 100. 0 < start_rate_array s ! i))"

lemma pcc_setRate_ok:
  "mbps \<noteq> 0 \<Longrightarrow> pcc_setRate mbps s = Inr (s\<lparr>m_dPktSndPeriod := (real_of_int (m_iMSS s) * 8) / mbps\<rparr>)"
  by (simp add: pcc_setRate_def)

definition guess_amount :: "(int \<Rightarrow> int) \<Rightarrow> bbcc \<Rightarrow> int \<Rightarrow> real" where
  "guess_amount rand s i = real_of_int ((rand i mod 2 * 2 - 1) * (continous_guess_count s + 1)) * GRANULARITY * current_rate s"

lemma begin_guess_eq:
  assumes "length (rate_bucket s) = 4" and "length (monitor_bucket s) = 4"
  shows "begin_guess rand m s = Inr (s\<lparr>recording_guess_result := 1, continous_guess_count := continous_guess_count s + 1,
      rate_bucket := [current_rate s + guess_amount rand s 0, current_rate s - guess_amount rand s 0,
                      current_rate s + guess_amount rand s 2, current_rate s - guess_amount rand s 2],
      monitor_bucket := [m mod 100, (m + 1) mod 100, (m + 2) mod 100, (m + 3) mod 100]\<rparr>)"
proof -
  obtain a b c d where "rate_bucket s = [a, b, c, d]"
    using assms(1) by (auto simp: numeral_eq_Suc length_Suc_conv)
  moreover obtain e f g h where "monitor_bucket s = [e, f, g, h]"
    using assms(2) by (auto simp: numeral_eq_Suc length_Suc_conv)
  ultimately show ?thesis
    by (simp add: begin_guess_def guess_pair_def guess_monitor_def aset_def Let_def guess_amount_def)
qed

lemma guess_amount_bound:
  assumes "continous_guess_count s \<in> {0..4}" and "0 < current_rate s"
  shows "\<bar>guess_amount rand s i\<bar> < current_rate s"
proof -
  have "rand i mod 2 = 0 \<or> rand i mod 2 = 1" by presburger
  then have "\<bar>guess_amount rand s i\<bar> = real_of_int (continous_guess_count s + 1) / 100 * current_rate s"
    using assms by (auto simp: guess_amount_def abs_mult)
  also have "\<dots> < 1 * current_rate s"
    using assms by (intro mult_strict_right_mono) auto
  finally show ?thesis by simp
qed

lemma guess_step_ok:
  assumes "pcc_inv n s" and "starting_phase s = 0"
  shows "\<exists>s'. guess_step rand m s = Inr s' \<and> pcc_inv k s'"
proof -
  note inv = assms(1) [unfolded pcc_inv_def]
  define s1 where "s1 = (if guess_time s = 0 \<and> continous_guess_count s = MAX_COUNTINOUS_GUESS
                then s\<lparr>continous_guess_count := 0\<rparr> else s)"
  have s1: "pcc_inv n s1" "starting_phase s1 = 0" "guess_time s1 = 0 \<Longrightarrow> continous_guess_count s1 \<in> {0..4}"
    using inv assms(2) by (auto simp: s1_def pcc_inv_def)
  have "\<exists>s2. (if guess_time s1 = 0 then begin_guess rand m s1 else Inr s1) = Inr s2
      \<and> pcc_inv n s2 \<and> starting_phase s2 = 0 \<and> (\<forall>r \<in> set (rate_bucket s2). 0 < r)"
  proof (cases "guess_time s1 = 0")
    case True
    then show ?thesis using s1 guess_amount_bound [of s1 rand 0] guess_amount_bound [of s1 rand 2]
      by (auto simp: begin_guess_eq pcc_inv_def abs_less_iff)
  next
    case False
    then show ?thesis using s1 by (auto simp: pcc_inv_def)
  qed
  then obtain s2 where s2: "(if guess_time s1 = 0 then begin_guess rand m s1 else Inr s1) = Inr s2"
    "pcc_inv n s2" "starting_phase s2 = 0" "\<forall>r \<in> set (rate_bucket s2). 0 < r" by blast
  note inv2 = s2(2) [unfolded pcc_inv_def]
  have g: "0 \<le> guess_time s2" "nat (guess_time s2) < length (rate_bucket s2)" using inv2 by auto
  then have r: "0 < rate_bucket s2 ! nat (guess_time s2)" using s2(4) by (simp add: nth_mem)
  have sr: "pcc_setRate (rate_bucket s2 ! nat (guess_time s2)) s2
      = Inr (s2\<lparr>m_dPktSndPeriod := real_of_int (m_iMSS s2) * 8 / rate_bucket s2 ! nat (guess_time s2)\<rparr>)"
    by (rule pcc_setRate_ok) (simp add: r less_imp_neq [symmetric])
  have p: "0 < real_of_int (m_iMSS s2) * 8 / rate_bucket s2 ! nat (guess_time s2)" using r inv2 by simp
  show ?thesis
    unfolding guess_step_def Let_def s1_def [symmetric] s2(1)
    using g p inv2 s2(3,4) by (auto simp: aget_def sr pcc_inv_def)
qed

lemma onMonitorStart_ok:
  assumes "pcc_inv n s" and "m = int n mod 100"
  shows "\<exists>s'. onMonitorStart rand m s = Inr s' \<and> pcc_inv (Suc n) s'"
proof (cases "starting_phase s = 0")
  case True
  then show ?thesis
    using guess_step_ok [OF assms(1) True, of rand m "Suc n"] assms(1)
    by (auto simp: onMonitorStart_def continue_sending_def pcc_inv_def)
next
  case False
  note inv = assms(1) [unfolded pcc_inv_def]
  have m: "0 \<le> m" "nat m < 100" "n < 100 \<Longrightarrow> nat m = n" using assms(2) by auto
  have "\<forall>i < min (Suc n) 100. 0 < (start_rate_array s)[nat m := previous_rate s * 2] ! i"
  proof (intro allI impI)
    fix i assume "i < min (Suc n) 100"
    then have "i = nat m \<or> i < min n 100" using m(3) by (cases "n < 100") auto
    then show "0 < (start_rate_array s)[nat m := previous_rate s * 2] ! i"
      using inv False m by (cases "i = nat m") auto
  qed
  then show ?thesis
    using inv m(1,2) False by (auto simp: onMonitorStart_def start_doubled_def aset_def aget_def pcc_setRate_ok pcc_inv_def)
qed

text \<open>The utility of an interval is at least the penalty of its losses.\<close>

lemma monitor_utility_ok:
  assumes "0 < tot" and "loss \<le> tot" and "0 < time" and "0 < rtt"
  shows "\<exists>u. monitor_utility tot loss time prev_rtt rtt = Inr u \<and> u \<ge> - (real_of_int (max 0 loss) / (time * rtt) * 1000)"
proof -
  define t l where "t = real_of_int tot" and "l = (if loss < 0 then 0 else real_of_int loss)"
  define x y where "x = 1 - 1 / (1 + exp (- 100 * (l / t - 5 / 100)))" and "y = 1 - 1 / (1 + exp (- 10 * (1 - prev_rtt / rtt)))"
  have pos: "0 < 1 + exp z" for z :: real using exp_gt_zero [of z] by linarith
  have "0 \<le> x" "0 \<le> y" using pos by (simp_all add: x_def y_def divide_le_eq_1)
  moreover have lt: "l \<le> t" "0 < t" "l = real_of_int (max 0 loss)" using assms(1,2) by (auto simp: l_def t_def max_def)
  ultimately have "0 \<le> (t - l) / time * x * y" using assms(3) by simp
  then have "(- 1 * l / time) / rtt * 1000 \<le> ((t - l) / time * x * y - 1 * l / time) / rtt * 1000"
    using assms(4) by (intro mult_right_mono divide_right_mono) auto
  moreover have "(- 1 * l / time) / rtt * 1000 = - (real_of_int (max 0 loss) / (time * rtt) * 1000)"
    using lt(3) by simp
  moreover have "monitor_utility tot loss time prev_rtt rtt = Inr (((t - l) / time * x * y - 1 * l / time) / rtt * 1000)"
    using assms lt(2) by (simp add: monitor_utility_def Let_def x_def y_def t_def l_def)
  ultimately show ?thesis by auto
qed

lemma fall_back_ok:
  assumes "pcc_inv n s" and "0 \<le> i" and "i < min (int n) 100" and "starting_phase s \<noteq> 0"
  shows "\<exists>s'. fall_back i s = Inr s' \<and> pcc_inv n s' \<and> pcc_inv n (s'\<lparr>previous_rate := current_rate s'\<rparr>)
    \<and> starting_phase s' = 0 \<and> make_guess s' = 1 \<and> current_rate s' = start_rate_array s ! nat i
    \<and> m_dPktSndPeriod s' = real_of_int (m_iMSS s) * 8 / current_rate s'"
proof -
  note inv = assms(1) [unfolded pcc_inv_def]
  have "nat i < min n 100" using assms(2,3) by linarith
  then have "0 < start_rate_array s ! nat i" "nat i < 100" using inv assms(4) by auto
  then show ?thesis using inv assms(2) by (auto simp: fall_back_def aget_def pcc_setRate_ok pcc_inv_def)
qed

lemma end_starting_ok:
  assumes "pcc_inv n s" and "starting_phase s \<noteq> 0" and "0 \<le> e" and "e < min (int n) 100"
    and "e = 0 \<Longrightarrow> start_previous_monitor s = - 1 \<Longrightarrow> - 10000 < u"
  shows "\<exists>s'. end_starting e u s = Inr s' \<and> pcc_inv n s'"
proof -
  note inv = assms(1) [unfolded pcc_inv_def]
  have sp: "start_previous_monitor s \<in> {- 1..<min (int n) 100}" using inv assms(2) by blast
  have n: "0 < min (int n) 100" using assms(3,4) by linarith
  consider (skip0) "e - 1 > start_previous_monitor s" "start_previous_monitor s = - 1"
    | (skip) "e - 1 > start_previous_monitor s" "0 \<le> start_previous_monitor s"
    | (good) "\<not> e - 1 > start_previous_monitor s" "start_previous_utility s < u"
    | (bad) "\<not> e - 1 > start_previous_monitor s" "\<not> start_previous_utility s < u" "0 \<le> start_previous_monitor s"
  proof (cases "start_previous_monitor s = - 1")
    case True
    then have "start_previous_utility s = - 10000" using inv assms(2) by blast
    then show thesis using that assms(3,5) True by (cases "e - 1 > - 1"; cases "start_previous_utility s < u") auto
  next
    case False
    then show thesis using that sp by (cases "e - 1 > start_previous_monitor s"; cases "start_previous_utility s < u") auto
  qed
  then show ?thesis
  proof cases
    case skip0
    then show ?thesis using fall_back_ok [OF assms(1) _ n assms(2)] by (auto simp: end_starting_def)
  next
    case skip
    then show ?thesis using fall_back_ok [OF assms(1) skip(2) _ assms(2)] sp by (auto simp: end_starting_def)
  next
    case good
    then show ?thesis using inv assms(3,4) by (auto simp: end_starting_def pcc_inv_def)
  next
    case bad
    then show ?thesis using fall_back_ok [OF assms(1) bad(3) _ assms(2)] sp by (auto simp: end_starting_def)
  qed
qed

lemma record_probes_ok:
  assumes "pcc_inv n s" and "set is \<subseteq> {0..3}"
  shows "\<exists>s'. for_each (record_probe e u) is s = Inr s' \<and> pcc_inv n s' \<and> starting_phase s' = starting_phase s
    \<and> current_rate s' = current_rate s \<and> change_intense s' = change_intense s"
  using assms
proof (induction "is" arbitrary: s)
  case (Cons i "is")
  have "\<exists>s1. record_probe e u i s = Inr s1 \<and> pcc_inv n s1 \<and> starting_phase s1 = starting_phase s
    \<and> current_rate s1 = current_rate s \<and> change_intense s1 = change_intense s"
    using Cons.prems by (auto simp: record_probe_def aget_def aset_def pcc_inv_def)
  then show ?case using Cons.IH Cons.prems(2) by fastforce
qed simp

lemma factor_pos:
  fixes r a :: real
  assumes "0 < r" and "\<bar>a\<bar> < 1"
  shows "0 < r + a * r" and "0 < r - a * r"
  using mult_pos_pos [of r "1 + a"] mult_pos_pos [of r "1 - a"] assms by (auto simp: algebra_simps abs_less_iff)

definition voted_up :: "bbcc \<Rightarrow> nat \<Rightarrow> bool" where
  "voted_up s i \<longleftrightarrow> (utility_bucket s ! i > utility_bucket s ! (i + 1) \<and> rate_bucket s ! i > rate_bucket s ! (i + 1))
     \<or> (utility_bucket s ! i < utility_bucket s ! (i + 1) \<and> rate_bucket s ! i < rate_bucket s ! (i + 1))"

lemma votes_eq:
  assumes "length (utility_bucket s) = 4" and "length (rate_bucket s) = 4"
  shows "for_each (vote s) [0, 2] 0 = Inr ((if voted_up s 0 then 1 else - 1) + (if voted_up s 2 then 1 else - 1))"
  using assms by (auto simp: vote_def aget_def voted_up_def)

text \<open>A step by at most three percent.\<close>

definition decided_rate :: "bbcc \<Rightarrow> int \<Rightarrow> real" where
  "decided_rate s direction =
     current_rate s * (1 + real_of_int ((continous_guess_count s div 2 + 1) * direction) / 100)"

lemma decide_eq:
  assumes "pcc_inv n s"
  shows "decide current s =
    (if voted_up s 0 \<noteq> voted_up s 2 then Inr (s\<lparr>recorded_number := 0, make_guess := 1, recording_guess_result := 0\<rparr>)
     else let direction = (if voted_up s 0 then 1 else - 1) in
       Inr (s\<lparr>recorded_number := 0, change_direction := direction, recording_guess_result := 0, moving_phase_initial := 1,
              change_intense := 1, change_amount := decided_rate s direction - current_rate s, previous_utility := 0,
              continous_guess_count := 0, previous_rate := current_rate s, current_rate := decided_rate s direction,
              target_monitor := (current + 1) mod MAX_MONITOR_NUMBER,
              m_dPktSndPeriod := real_of_int (m_iMSS s) * 8 / decided_rate s direction\<rparr>))
    \<and> 0 < decided_rate s 1 \<and> 0 < decided_rate s (- 1)"
proof -
  note inv = assms [unfolded pcc_inv_def]
  have c: "0 \<le> continous_guess_count s div 2" "continous_guess_count s div 2 \<le> 2" using inv by auto
  then have pos: "0 < decided_rate s d" if "d = 1 \<or> d = - 1" for d
  proof -
    have "- 3 \<le> (continous_guess_count s div 2 + 1) * d" using c that by auto
    then have "- 3 \<le> real_of_int ((continous_guess_count s div 2 + 1) * d)" by linarith
    then show ?thesis unfolding decided_rate_def using inv by (intro mult_pos_pos) linarith+
  qed
  have amount: "real_of_int ((continous_guess_count (s\<lparr>recorded_number := 0\<rparr>) div 2 + 1) * 1 * d) * GRANULARITY
      * current_rate (s\<lparr>recorded_number := 0\<rparr>) = decided_rate s d - current_rate s" for d
    by (simp add: decided_rate_def algebra_simps)
  have v: "for_each (vote (s\<lparr>recorded_number := 0\<rparr>)) [0, 2] 0
      = Inr ((if voted_up s 0 then 1 else - 1) + (if voted_up s 2 then 1 else - 1))"
    using votes_eq [of "s\<lparr>recorded_number := 0\<rparr>"] inv by (simp only: voted_up_def) simp
  have nz: "decided_rate s 1 \<noteq> 0" "decided_rate s (- 1) \<noteq> 0" using pos by (auto simp: less_imp_neq [symmetric])
  show ?thesis
    using pos nz unfolding decide_def Let_def v bindE.simps amount
    by (auto simp: pcc_setRate_def)
qed

lemma record_guess_ok:
  assumes "pcc_inv n s" and "starting_phase s = 0"
  shows "\<exists>s'. record_guess current e u s = Inr s' \<and> pcc_inv n s' \<and> starting_phase s' = 0
    \<and> change_intense s' \<le> change_intense s"
proof -
  obtain s1 where s1: "for_each (record_probe e u) [0, 1, 2, 3] s = Inr s1" "pcc_inv n s1" "starting_phase s1 = 0"
    "change_intense s1 = change_intense s"
    using record_probes_ok [OF assms(1), of "[0, 1, 2, 3]" e u] assms(2) by auto
  then show ?thesis
    using decide_eq [OF s1(2), of current] by (auto simp: record_guess_def pcc_inv_def Let_def)
qed

lemma resync_intense: "resync t time s = Inr s' \<Longrightarrow> change_intense s' = 1 \<and> starting_phase s' = starting_phase s"
  by (auto simp: resync_def Let_def pcc_setRate_def res_simps)

lemma resync_ok:
  assumes "pcc_inv n s" and "starting_phase s = 0" and "0 < t" and "0 < time"
  shows "\<exists>s'. resync t time s = Inr s' \<and> pcc_inv n s'"
  using assms by (auto simp: resync_def Let_def pcc_setRate_def pcc_inv_def)

lemma change_of_pos:
  assumes "0 < current_rate s" and "0 \<le> change_intense s" and "change_intense s < 100" and "change_direction s \<in> {- 1, 0, 1}"
  shows "0 < current_rate s + change_of s" and "0 < current_rate s - change_of s"
proof -
  have "\<bar>real_of_int (change_intense s * change_direction s) / 100\<bar> < 1" using assms by auto
  from factor_pos [OF assms(1) this]
  show "0 < current_rate s + change_of s" "0 < current_rate s - change_of s"
    by (simp_all add: change_of_def algebra_simps)
qed

lemma first_move_ok:
  assumes "pcc_inv n s" and "starting_phase s = 0" and "change_intense s < 98" and "0 < t" and "0 < time"
  shows "\<exists>b s'. first_move t time current e u s = Inr (b, s') \<and> pcc_inv n s' \<and> starting_phase s' = 0
    \<and> change_intense s' < 99"
proof (cases "moving_phase_initial s \<noteq> 0 \<and> e = target_monitor s \<and> \<not> too_fast t time s")
  case True
  let ?s1 = "s\<lparr>target_monitor := (current + 1) mod MAX_MONITOR_NUMBER, previous_rate := current_rate s,
               previous_utility := u, change_intense := change_intense s + 1\<rparr>"
  have "0 < current_rate ?s1 + change_of ?s1"
    using assms(1,3) by (intro change_of_pos) (auto simp: pcc_inv_def)
  then show ?thesis using True assms(1-3)
    by (auto simp: first_move_def Let_def pcc_setRate_def pcc_inv_def)
next
  case False
  then show ?thesis using assms resync_ok [OF assms(1,2,4,5)] resync_intense [of t time s]
    by (auto simp: first_move_def)
qed

lemma next_move_ok:
  assumes "pcc_inv n s" and "starting_phase s = 0" and "change_intense s < 99" and "0 < t" and "0 < time"
  shows "\<exists>s'. next_move t time current e u s = Inr s' \<and> pcc_inv n s'"
proof (cases "moving_phase s \<noteq> 0 \<and> e = target_monitor s \<and> \<not> too_fast t time s")
  case True
  let ?s2 = "s\<lparr>current_utility := u, target_monitor := (current + 1) mod MAX_MONITOR_NUMBER,
               change_intense := change_intense s + 1, previous_utility := u, previous_rate := current_rate s\<rparr>"
  let ?s3 = "s\<lparr>current_utility := u, moving_phase := 0, make_guess := 1, previous_utility := u,
               previous_rate := current_rate s\<rparr>"
  have "0 < current_rate ?s2 + change_of ?s2"
    using assms(1,3) by (intro change_of_pos) (auto simp: pcc_inv_def)
  moreover have "0 < current_rate ?s3 - change_of ?s3"
    using assms(1,3) by (intro change_of_pos) (auto simp: pcc_inv_def)
  ultimately show ?thesis using True assms(1,2)
    by (auto simp: next_move_def Let_def pcc_setRate_def pcc_inv_def)
next
  case False
  then show ?thesis using assms resync_ok [OF assms(1,2,4,5)] by (auto simp: next_move_def)
qed

lemma end_running_ok:
  assumes "pcc_inv n s" and "starting_phase s = 0" and "change_intense s < 98" and "0 < t" and "0 < time"
  shows "\<exists>s'. end_running t time current e u s = Inr s' \<and> pcc_inv n s'"
proof -
  obtain s1 where s1: "(if recording_guess_result s \<noteq> 0 then record_guess current e u s else Inr s) = Inr s1"
    "pcc_inv n s1" "starting_phase s1 = 0" "change_intense s1 < 98"
  proof (cases "recording_guess_result s = 0")
    case True
    then show thesis using that assms(1-3) by simp
  next
    case False
    obtain s' where "record_guess current e u s = Inr s'" "pcc_inv n s'" "starting_phase s' = 0"
      "change_intense s' \<le> change_intense s" using record_guess_ok [OF assms(1,2)] by blast
    then show thesis using that [of s'] False assms(3) by simp
  qed
  obtain b s2 where s2: "first_move t time current e u s1 = Inr (b, s2)" "pcc_inv n s2" "starting_phase s2 = 0"
    "change_intense s2 < 99"
    using first_move_ok [OF s1(2-4) assms(4,5), of current e u] by blast
  show ?thesis
    using next_move_ok [OF s2(2-4) assms(4,5), of current e u] s2
    unfolding end_running_def s1(1) by auto
qed

text \<open>
  The first monitor that ends, being monitor 0, makes the controller read the element before the array
  when half of its utility is at most -10000, the value from which the search starts.
\<close>

definition reads_before_array :: "int \<Rightarrow> int \<Rightarrow> real \<Rightarrow> int \<Rightarrow> real \<Rightarrow> bbcc \<Rightarrow> bool" where
  "reads_before_array tot loss time e rtt s \<longleftrightarrow> e = 0 \<and> starting_phase s \<noteq> 0 \<and> start_previous_monitor s = - 1
     \<and> (\<exists>u. monitor_utility tot loss time (if previous_rtt s = 0 then rtt else previous_rtt s) rtt = Inr u \<and> u / 2 \<le> - 10000)"

lemma onMonitorEnds_ok:
  assumes "pcc_inv n s" and "0 \<le> e" and "e < min (int n) 100" and "change_intense s < 98"
    and "0 < tot" and "loss \<le> tot" and "0 < time" and "0 < rtt"
  shows "if reads_before_array tot loss time e rtt s then onMonitorEnds tot loss time current e rtt s = Inl OutOfBounds
    else \<exists>s'. onMonitorEnds tot loss time current e rtt s = Inr s' \<and> pcc_inv n s'"
proof -
  define s1 where "s1 = s\<lparr>previous_rtt := rtt\<rparr>"
  have s1: "pcc_inv n s1" "change_intense s1 < 98" using assms(1,4) by (auto simp: pcc_inv_def s1_def)
  obtain u where u: "monitor_utility tot loss time (if previous_rtt s = 0 then rtt else previous_rtt s) rtt = Inr u"
    using monitor_utility_ok [OF assms(5-8)] by blast
  define v where "v = (if e = 0 \<and> starting_phase s \<noteq> 0 then u / 2 else u)"
  have run: "onMonitorEnds tot loss time current e rtt s =
      (if starting_phase s1 \<noteq> 0 then end_starting e v s1 else end_running (real_of_int tot) time current e v s1)"
    using u by (simp add: onMonitorEnds_def s1_def [symmetric] v_def Let_def)
  show ?thesis
  proof (cases "reads_before_array tot loss time e rtt s")
    case True
    then have "e = 0" "starting_phase s \<noteq> 0" "start_previous_monitor s = - 1" "v \<le> - 10000"
      using u by (auto simp: reads_before_array_def v_def)
    moreover have "start_previous_utility s = - 10000" using assms(1) calculation by (simp add: pcc_inv_def)
    ultimately show ?thesis
      unfolding run using True by (simp add: s1_def end_starting_def fall_back_def aget_def)
  next
    case False
    have "\<exists>s'. end_starting e v s1 = Inr s' \<and> pcc_inv n s'" if "starting_phase s1 \<noteq> 0"
      using that False u
      by (intro end_starting_ok [OF s1(1) that assms(2,3)]) (auto simp: v_def s1_def reads_before_array_def)
    moreover have "\<exists>s'. end_running (real_of_int tot) time current e v s1 = Inr s' \<and> pcc_inv n s'" if "starting_phase s1 = 0"
      by (rule end_running_ok [OF s1(1) that s1(2)]) (use assms(5,7) in simp_all)
    ultimately show ?thesis using False by (simp add: run)
  qed
qed


section \<open>Runs\<close>

datatype pcc_event =
    Started int "int \<Rightarrow> int"
  | Ended int int real int int real

fun pcc_step :: "pcc_event \<Rightarrow> bbcc \<Rightarrow> bbcc res" where
  "pcc_step (Started m rand) s = onMonitorStart rand m s"
| "pcc_step (Ended tot loss time current e rtt) s = onMonitorEnds tot loss time current e rtt s"

text \<open>
  What the library does, after \<open>n\<close> monitors have started: it numbers them modulo 100, and it ends only
  monitors that have started, with at least one packet, a positive duration and round-trip time.
\<close>

fun monitor_protocol :: "nat \<Rightarrow> pcc_event list \<Rightarrow> bool" where
  "monitor_protocol n [] = True"
| "monitor_protocol n (Started m rand # es) = (m = int n mod 100 \<and> monitor_protocol (Suc n) es)"
| "monitor_protocol n (Ended tot loss time current e rtt # es) =
     (0 < tot \<and> loss \<le> tot \<and> 0 < time \<and> 0 < rtt \<and> 0 \<le> e \<and> e < min (int n) 100 \<and> monitor_protocol n es)"

definition starts :: "pcc_event list \<Rightarrow> nat" where
  "starts es = length (filter (\<lambda>ev. case ev of Started m rand \<Rightarrow> True | _ \<Rightarrow> False) es)"

text \<open>The events that a controller in a good state may not survive.\<close>

definition pcc_limit :: "pcc_event \<Rightarrow> bbcc \<Rightarrow> bool" where
  "pcc_limit ev s \<longleftrightarrow> 98 \<le> change_intense s
     \<or> (case ev of Started m rand \<Rightarrow> False
        | Ended tot loss time current e rtt \<Rightarrow>
            reads_before_array tot loss time e rtt s \<and> pcc_step ev s = Inl OutOfBounds)"

lemma pcc_run_ok:
  assumes "pcc_inv n s" and "monitor_protocol n es"
  shows "(\<exists>s'. for_each pcc_step es s = Inr s' \<and> pcc_inv (n + starts es) s')
    \<or> (\<exists>pre ev post s1 k. es = pre @ ev # post \<and> for_each pcc_step pre s = Inr s1 \<and> pcc_inv k s1 \<and> pcc_limit ev s1)"
  using assms
proof (induction es arbitrary: n s)
  case Nil
  then show ?case by (simp add: starts_def)
next
  case (Cons ev es)
  show ?case
  proof (cases "pcc_limit ev s")
    case True
    then show ?thesis using Cons.prems(1)
      by (intro disjI2 exI [of _ "[]"] exI [of _ ev] exI [of _ es] exI [of _ s] exI [of _ n]) simp
  next
    case False
    obtain s1 k where s1: "pcc_step ev s = Inr s1" "pcc_inv k s1" "monitor_protocol k es" "n + starts (ev # es) = k + starts es"
    proof (cases ev)
      case (Started m rand)
      then show ?thesis using that [of _ "Suc n"] onMonitorStart_ok [OF Cons.prems(1), of m rand] Cons.prems(2)
        by (auto simp: starts_def)
    next
      case (Ended tot loss time current e rtt)
      then show ?thesis using that [of _ n] onMonitorEnds_ok [OF Cons.prems(1), of e tot loss time rtt current] Cons.prems(2) False
        by (auto simp: starts_def pcc_limit_def split: if_splits)
    qed
    from Cons.IH [OF s1(2,3)] consider (ok) s' where "for_each pcc_step es s1 = Inr s'" "pcc_inv (k + starts es) s'"
      | (limit) pre ev' post s2 j where "es = pre @ ev' # post" "for_each pcc_step pre s1 = Inr s2" "pcc_inv j s2" "pcc_limit ev' s2"
      by blast
    then show ?thesis
    proof cases
      case ok
      then show ?thesis using s1(1,4) by simp
    next
      case limit
      have "ev # es = (ev # pre) @ ev' # post" using limit(1) by simp
      moreover have "for_each pcc_step (ev # pre) s = Inr s2" using s1(1) limit(2) by simp
      ultimately show ?thesis using limit(3,4) by blast
    qed
  qed
qed

text \<open>
  C33. What a controller does that UDT drives by its protocol. In a run all callbacks return, inside their
  arrays and without a division by zero, and the pacing and the rate stay positive, unless one of two
  things happens, up to which all of this holds: the controller has taken 97 steps in a row in one
  direction (\<open>change_intense\<close> has reached 98; from 100 on a step would make the rate zero or negative);
  or monitor 0 ends first, in the starting phase, with a utility of which half is at most -10000, and
  then the controller does read the element before the array of the starting rates.
\<close>

theorem pcc_run_outcome:
  assumes "0 < m_iMSS s" and "length (rate_bucket s) = 4" and "length (monitor_bucket s) = 4"
    and "length (utility_bucket s) = 4" and "monitor_protocol 0 es"
  shows "(\<exists>s'. for_each pcc_step es (BBCC s) = Inr s' \<and> 0 < m_dPktSndPeriod s' \<and> 0 < current_rate s'
      \<and> guess_time s' \<in> {0..3} \<and> continous_guess_count s' \<in> {0..5} \<and> continous_send s' = 0)
    \<or> (\<exists>pre ev post s'. es = pre @ ev # post \<and> for_each pcc_step pre (BBCC s) = Inr s'
      \<and> 0 < m_dPktSndPeriod s' \<and> 0 < current_rate s'
      \<and> (98 \<le> change_intense s'
         \<or> (\<exists>tot loss time current rtt u. ev = Ended tot loss time current 0 rtt
             \<and> starting_phase s' \<noteq> 0 \<and> start_previous_monitor s' = - 1
             \<and> monitor_utility tot loss time (if previous_rtt s' = 0 then rtt else previous_rtt s') rtt = Inr u
             \<and> u / 2 \<le> - 10000 \<and> pcc_step ev s' = Inl OutOfBounds)))"
proof -
  have "pcc_inv 0 (BBCC s)" using assms(1-4) by (simp add: pcc_inv_def BBCC_def)
  from pcc_run_ok [OF this assms(5)] show ?thesis
  proof (elim disjE exE conjE)
    fix s' assume "for_each pcc_step es (BBCC s) = Inr s'" "pcc_inv (0 + starts es) s'"
    then show ?thesis by (intro disjI1 exI [of _ s']) (auto simp: pcc_inv_def)
  next
    fix pre ev post s' k
    assume run: "es = pre @ ev # post" "for_each pcc_step pre (BBCC s) = Inr s'" "pcc_inv k s'" and limit: "pcc_limit ev s'"
    have pos: "0 < m_dPktSndPeriod s'" "0 < current_rate s'" using run(3) by (simp_all add: pcc_inv_def)
    have "98 \<le> change_intense s' \<or> (\<exists>tot loss time current rtt u. ev = Ended tot loss time current 0 rtt
             \<and> starting_phase s' \<noteq> 0 \<and> start_previous_monitor s' = - 1
             \<and> monitor_utility tot loss time (if previous_rtt s' = 0 then rtt else previous_rtt s') rtt = Inr u
             \<and> u / 2 \<le> - 10000 \<and> pcc_step ev s' = Inl OutOfBounds)"
      using limit unfolding pcc_limit_def reads_before_array_def by (cases ev) auto
    then show ?thesis using run(1,2) pos by blast
  qed
qed

definition sample_bbcc :: bbcc where
  "sample_bbcc = \<lparr>m_dPktSndPeriod = 0, m_dCWndSize = 0, m_iRTO = 0, m_iMSS = 1500, target_monitor = 0,
     starting_phase = 0, make_guess = 0, moving_phase = 0, moving_phase_initial = 0, change_intense = 0,
     change_amount = 0, change_direction = 0, rate_bucket = [0, 0, 0, 0], monitor_bucket = [0, 0, 0, 0],
     utility_bucket = [0, 0, 0, 0], recorded_number = 0, current_rate = 0, previous_rate = 0,
     current_utility = 0, previous_utility = 0, guess_time = 0, continous_guess_count = 0, continous_send = 0,
     continous_send_count = 0, recording_guess_result = 0, start_rate_array = [], start_previous_monitor = 0,
     start_previous_utility = 0, previous_rtt = 0\<rparr>"

text \<open>The first packet of monitor 0 is lost: either outcome of the theorem, here the reading outside.\<close>

definition sample_run :: "pcc_event list" where
  "sample_run = [Started 0 (\<lambda>i. 0), Ended 1 1 (1 / 1000) 0 0 1]"

theorem pcc_run_outcome_witness:
  "\<exists>s'. for_each pcc_step [Started 0 (\<lambda>i. 0)] (BBCC sample_bbcc) = Inr s' \<and> 0 < current_rate s'
    \<and> pcc_step (Ended 1 1 (1 / 1000) 0 0 1) s' = Inl OutOfBounds"
proof -
  obtain s1 where s1: "pcc_step (Started 0 (\<lambda>i. 0)) (BBCC sample_bbcc) = Inr s1" "change_intense s1 = 1" "starting_phase s1 = 1"
    "start_previous_monitor s1 = - 1" "start_previous_utility s1 = - 10000" "previous_rtt s1 = 0" "0 < current_rate s1"
    by (simp add: BBCC_def sample_bbcc_def onMonitorStart_def start_doubled_def aset_def aget_def pcc_setRate_def)
  have "monitor_utility 1 1 (1 / 1000) 1 1 = Inr (- 1000000)" by (simp add: monitor_utility_def)
  then have fails: "for_each pcc_step sample_run (BBCC sample_bbcc) = Inl OutOfBounds"
    using s1 by (simp add: sample_run_def onMonitorEnds_def end_starting_def fall_back_def aget_def)
  have early: "change_intense s' < 98" if "sample_run = pre @ ev # post" "for_each pcc_step pre (BBCC sample_bbcc) = Inr s'"
    for pre ev post s'
    using that s1(1,2) by (auto simp: sample_run_def Cons_eq_append_conv BBCC_def)
  have "monitor_protocol 0 sample_run" by (simp add: sample_run_def)
  then obtain pre ev post s' where run: "sample_run = pre @ ev # post" "for_each pcc_step pre (BBCC sample_bbcc) = Inr s'"
    "0 < current_rate s'" "\<exists>tot loss time current rtt. ev = Ended tot loss time current 0 rtt" "pcc_step ev s' = Inl OutOfBounds"
    using pcc_run_outcome [of sample_bbcc sample_run] fails early by (fastforce simp: sample_bbcc_def)
  have "pre = [Started 0 (\<lambda>i. 0)] \<and> ev = Ended 1 1 (1 / 1000) 0 0 1"
    using run(1,4) by (auto simp: sample_run_def Cons_eq_append_conv)
  then show ?thesis using run(2,3,5) by blast
qed


section \<open>The starting phase\<close>

text \<open>No operation leads back to the starting phase.\<close>

definition phase_is :: "int \<Rightarrow> bbcc res \<Rightarrow> bool" where
  "phase_is p m \<longleftrightarrow> (\<forall>s. m = Inr s \<longrightarrow> starting_phase s = p)"

named_theorems phase_intros \<open>which operations keep the phase\<close>

lemma phase_is_simps [simp]: "phase_is p (Inr s) \<longleftrightarrow> starting_phase s = p" "phase_is p (Inl e)"
  by (auto simp: phase_is_def)

lemma phase_bind [phase_intros]:
  "phase_is p m \<Longrightarrow> (\<And>s. starting_phase s = p \<Longrightarrow> phase_is p (f s)) \<Longrightarrow> phase_is p (bindE m f)"
  by (cases m) auto

lemma phase_bind_other [phase_intros]:
  "(\<And>x. phase_is p (f x)) \<Longrightarrow> phase_is p (bindE (aget xs i) f)"
  "(\<And>ys. phase_is p (g ys)) \<Longrightarrow> phase_is p (bindE (aset ys i v) g)"
  "(\<And>u. phase_is p (h u)) \<Longrightarrow> phase_is p (bindE (guardE b e) h)"
  by (auto simp: aget_def aset_def guardE_def)

lemma phase_bind_any: "(\<And>x. phase_is p (f x)) \<Longrightarrow> phase_is p (bindE m f)"
  by (cases m) auto

lemma phase_if [phase_intros]:
  "(b \<Longrightarrow> phase_is p m) \<Longrightarrow> (\<not> b \<Longrightarrow> phase_is p m') \<Longrightarrow> phase_is p (if b then m else m')"
  by simp

lemma phase_setRate [phase_intros]: "starting_phase s = p \<Longrightarrow> phase_is p (pcc_setRate r s)"
  by (simp add: pcc_setRate_def guardE_def)

lemma phase_for_each:
  assumes "starting_phase s = p" and "\<And>i s. starting_phase s = p \<Longrightarrow> phase_is p (f i s)"
  shows "phase_is p (for_each f is s)"
  using assms(1)
proof (induction "is" arbitrary: s)
  case (Cons i "is")
  show ?case unfolding for_each.simps by (rule phase_bind [OF assms(2) [OF Cons.prems] Cons.IH])
qed simp

lemma phase_begin_guess [phase_intros]: "starting_phase s = p \<Longrightarrow> phase_is p (begin_guess rand m s)"
  unfolding begin_guess_def guess_pair_def guess_monitor_def Let_def
  by (intro phase_bind phase_for_each phase_bind_other) simp_all

lemma phase_guess_step [phase_intros]: "starting_phase s = p \<Longrightarrow> phase_is p (guess_step rand m s)"
  unfolding guess_step_def Let_def by (rule phase_bind, intro phase_intros) (auto intro!: phase_bind_other phase_bind phase_setRate)

lemma phase_continue [phase_intros]: "starting_phase s = p \<Longrightarrow> phase_is p (continue_sending s)"
  unfolding continue_sending_def by (auto intro!: phase_bind phase_setRate)

lemma phase_onMonitorStart: "starting_phase s = p \<Longrightarrow> phase_is p (onMonitorStart rand m s)"
  unfolding onMonitorStart_def start_doubled_def
  by (auto intro!: phase_bind_other phase_setRate phase_bind phase_guess_step phase_continue)

lemma phase_decide: "starting_phase s = p \<Longrightarrow> phase_is p (decide current s)"
  unfolding decide_def Let_def by (rule phase_bind_any) (auto intro!: phase_setRate)

lemma phase_record_guess: "starting_phase s = p \<Longrightarrow> phase_is p (record_guess current e u s)"
  unfolding record_guess_def record_probe_def
  by (rule phase_bind) (auto intro!: phase_for_each phase_bind_other phase_decide simp del: for_each.simps)

lemma phase_resync: "starting_phase s = p \<Longrightarrow> phase_is p (resync t time s)"
  unfolding resync_def Let_def by (rule phase_setRate) simp

lemma phase_first_move: "starting_phase s = p \<Longrightarrow> phase_is p (bindE (first_move t time current e u s) (\<lambda>(b, s1). Inr s1))"
  unfolding first_move_def Let_def by (auto intro!: phase_bind phase_setRate phase_resync simp: bindE_assoc)

lemma phase_next_move: "starting_phase s = p \<Longrightarrow> phase_is p (next_move t time current e u s)"
  unfolding next_move_def Let_def by (auto intro!: phase_setRate phase_resync)

lemma phase_end_running: "starting_phase s = p \<Longrightarrow> phase_is p (end_running t time current e u s)"
  unfolding end_running_def
proof (rule phase_bind)
  fix s1 :: bbcc assume s1: "starting_phase s1 = p"
  show "phase_is p (bindE (first_move t time current e u s1)
      (\<lambda>(returned, s2). if returned then Inr s2 else next_move t time current e u s2))"
    using phase_first_move [OF s1, of t time current e u]
    by (cases "first_move t time current e u s1") (auto intro: phase_next_move)
qed (simp add: phase_record_guess)

lemma pcc_step_phase:
  assumes "pcc_step ev s = Inr s'" and "starting_phase s = 0"
  shows "starting_phase s' = 0"
proof (cases ev)
  case (Started m rand)
  then show ?thesis using phase_onMonitorStart [OF assms(2), of rand m] assms(1) by simp
next
  case (Ended tot loss time current e rtt)
  then obtain u where "end_running (real_of_int tot) time current e u (s\<lparr>previous_rtt := rtt\<rparr>) = Inr s'"
    using assms by (auto simp: onMonitorEnds_def bindE_eq_Inr Let_def)
  then show ?thesis using phase_end_running [of "s\<lparr>previous_rtt := rtt\<rparr>" 0] assms(2) by (fastforce simp: phase_is_def)
qed

lemma monitor_protocol_append:
  "monitor_protocol n (xs @ ys) \<longleftrightarrow> monitor_protocol n xs \<and> monitor_protocol (n + starts xs) ys"
  by (induction n xs rule: monitor_protocol.induct) (auto simp: starts_def)

definition ended :: "pcc_event list \<Rightarrow> int list" where
  "ended es = concat (map (\<lambda>ev. case ev of Ended tot loss time current e rtt \<Rightarrow> [e] | _ \<Rightarrow> []) es)"

text \<open>
  The utility with which an event ends a monitor in the starting phase, after the events \<open>es\<close>, and that
  of the last monitor that ended in \<open>es\<close>.
\<close>

definition rtts :: "pcc_event list \<Rightarrow> real list" where
  "rtts es = concat (map (\<lambda>ev. case ev of Ended tot loss time current e rtt \<Rightarrow> [rtt] | _ \<Rightarrow> []) es)"

definition utility_after :: "pcc_event list \<Rightarrow> pcc_event \<Rightarrow> real" where
  "utility_after es ev = (case ev of Started m rand \<Rightarrow> 0
     | Ended tot loss time current e rtt \<Rightarrow>
         (let before = last (0 # rtts es)
          in case monitor_utility tot loss time (if before = 0 then rtt else before) rtt of Inl x \<Rightarrow> 0
             | Inr u \<Rightarrow> if e = 0 then u / 2 else u))"

fun last_utility_rev :: "pcc_event list \<Rightarrow> real" where
  "last_utility_rev [] = - 10000"
| "last_utility_rev (Started m rand # es) = last_utility_rev es"
| "last_utility_rev (Ended tot loss time current e rtt # es) = utility_after (rev es) (Ended tot loss time current e rtt)"

definition last_utility :: "pcc_event list \<Rightarrow> real" where
  "last_utility es = last_utility_rev (rev es)"

lemma last_utility_simps [simp]:
  "last_utility [] = - 10000" "last_utility (es @ [Started m rand]) = last_utility es"
  "last_utility (es @ [Ended tot loss time current e rtt]) = utility_after es (Ended tot loss time current e rtt)"
  by (simp_all add: last_utility_def)

text \<open>What the callback computes at the end of a monitor in the starting phase.\<close>

lemma onMonitorEnds_starting:
  assumes "starting_phase s \<noteq> 0" and "previous_rtt s = last (0 # rtts es)" and "0 < tot" "loss \<le> tot" "0 < time" "0 < rtt"
  shows "onMonitorEnds tot loss time current e rtt s
    = end_starting e (utility_after es (Ended tot loss time current e rtt)) (s\<lparr>previous_rtt := rtt\<rparr>)"
proof -
  define before where "before = last (0 # rtts es)"
  obtain u where u: "monitor_utility tot loss time (if before = 0 then rtt else before) rtt = Inr u"
    using monitor_utility_ok [OF assms(3-6)] by blast
  have "utility_after es (Ended tot loss time current e rtt) = (if e = 0 then u / 2 else u)"
    unfolding utility_after_def before_def [symmetric] Let_def pcc_event.case u by simp
  moreover have "previous_rtt s = before" using assms(2) by (simp only: before_def)
  ultimately show ?thesis using assms(1) unfolding onMonitorEnds_def by (simp only: u) (simp add: Let_def)
qed

text \<open>While it is starting, each monitor runs at twice the rate of the one before.\<close>

lemma starting_run:
  assumes "for_each pcc_step es (BBCC s0) = Inr s" and "starting_phase s \<noteq> 0" and "monitor_protocol 0 es"
    and "starts es \<le> 100"
  shows "previous_rate s = 2 ^ starts es \<and> (\<forall>i < starts es. start_rate_array s ! i = 2 ^ (i + 1))
    \<and> length (start_rate_array s) = 100 \<and> start_previous_monitor s = last (- 1 # ended es) \<and> m_iMSS s = m_iMSS s0
    \<and> start_previous_utility s = last_utility es \<and> previous_rtt s = last (0 # rtts es)
    \<and> (0 < starts es \<longrightarrow> m_dPktSndPeriod s = real_of_int (m_iMSS s0) * 8 / 2 ^ starts es)"
  using assms
proof (induction es arbitrary: s rule: rev_induct)
  case Nil
  then show ?case by (auto simp: BBCC_def starts_def ended_def rtts_def)
next
  case (snoc ev es)
  then obtain s1 where s1: "for_each pcc_step es (BBCC s0) = Inr s1" "pcc_step ev s1 = Inr s"
    by (auto simp: for_each_append bindE_eq_Inr)
  have ph: "starting_phase s1 \<noteq> 0" using pcc_step_phase [OF s1(2)] snoc.prems(2) by blast
  have prot: "monitor_protocol 0 es" "monitor_protocol (starts es) [ev]" using snoc.prems(3) by (auto simp: monitor_protocol_append)
  have n: "starts es \<le> 100" using snoc.prems(4) by (simp add: starts_def)
  note IH = snoc.IH [OF s1(1) ph prot(1) n]
  show ?case
  proof (cases ev)
    case (Started m rand)
    then have "starts es < 100" "m = int (starts es)" using snoc.prems(4) prot(2) by (auto simp: starts_def)
    then show ?thesis using IH s1(2) ph Started
      by (auto simp: onMonitorStart_def start_doubled_def aset_def aget_def pcc_setRate_ok nth_list_update less_Suc_eq
          starts_def ended_def rtts_def)
  next
    case (Ended tot loss time current e rtt)
    then have "end_starting e (utility_after es ev) (s1\<lparr>previous_rtt := rtt\<rparr>) = Inr s"
      using onMonitorEnds_starting [OF ph, of es tot loss time rtt current e] IH s1(2) prot(2) by simp
    then show ?thesis using IH ph snoc.prems(2) Ended
      by (auto simp: end_starting_def fall_back_def pcc_setRate_def res_simps starts_def ended_def rtts_def split: if_splits)
  qed
qed

lemma ended_started:
  assumes "monitor_protocol n es"
  shows "last (- 1 # ended es) < int (n + starts es) \<and> - 1 \<le> last (- 1 # ended es)"
  using assms
proof (induction es rule: rev_induct)
  case Nil
  then show ?case by (simp add: ended_def)
next
  case (snoc ev es)
  then show ?case by (cases ev) (auto simp: monitor_protocol_append ended_def starts_def)
qed

text \<open>
  C34. The starting phase, for the first hundred monitors. Each monitor runs at twice the rate of the one
  before: the packets of the \<open>n\<close>-th are sent at the rate \<open>2 ^ n\<close>. When a monitor ends that is at most the
  next one after the last that ended, and its utility is larger, the phase goes on at the same rate.
  Otherwise it ends: the controller returns to the rate of the last monitor that ended before, the first
  one if there is none, and begins to probe; except that for the very first end, of monitor 0, it reads
  the element before the array.
\<close>

theorem starting_phase_falls_back:
  assumes "for_each pcc_step es (BBCC s0) = Inr s" and "starting_phase s \<noteq> 0" and "starts es \<le> 100"
    and "monitor_protocol 0 (es @ [ev])" and "ev = Ended tot loss time current e rtt"
  shows "let k = last (- 1 # ended es) in
    m_dPktSndPeriod s = real_of_int (m_iMSS s0) * 8 / 2 ^ starts es \<and>
    (if e \<le> k + 1 \<and> last_utility es < utility_after es ev
     then \<exists>s'. pcc_step ev s = Inr s' \<and> starting_phase s' \<noteq> 0 \<and> m_dPktSndPeriod s' = m_dPktSndPeriod s
     else if k = - 1 \<and> e = 0 then pcc_step ev s = Inl OutOfBounds
     else \<exists>s'. pcc_step ev s = Inr s' \<and> starting_phase s' = 0 \<and> make_guess s' = 1
       \<and> current_rate s' = 2 ^ (if k = - 1 then 1 else nat k + 1)
       \<and> m_dPktSndPeriod s' = real_of_int (m_iMSS s0) * 8 / current_rate s')"
proof -
  have prot: "monitor_protocol 0 es" "monitor_protocol (starts es) [ev]"
    using assms(4) by (auto simp: monitor_protocol_append)
  define k where "k = last (- 1 # ended es)"
  define u where "u = utility_after es ev"
  note run = starting_run [OF assms(1,2) prot(1) assms(3), folded k_def]
  have k: "k < int (starts es)" "- 1 \<le> k" "0 \<le> e" "0 < starts es"
    using ended_started [OF prot(1), folded k_def] prot(2) assms(5) by auto
  have step: "pcc_step ev s = end_starting e u (s\<lparr>previous_rtt := rtt\<rparr>)"
    using onMonitorEnds_starting [OF assms(2), of es tot loss time rtt current e] run prot(2) by (simp add: assms(5) u_def)
  have returns: "fall_back i (s\<lparr>previous_rtt := rtt\<rparr>) = Inr (s\<lparr>previous_rtt := rtt, starting_phase := 0, make_guess := 1,
      m_dPktSndPeriod := real_of_int (m_iMSS s0) * 8 / 2 ^ (nat i + 1), current_rate := 2 ^ (nat i + 1)\<rparr>)"
    if "0 \<le> i" "i < int (starts es)" for i
    using that run assms(3) by (auto simp: fall_back_def aget_def pcc_setRate_def nat_less_iff)
  consider (goes_on) "e \<le> k + 1" "last_utility es < u" | (outside) "k = - 1" "e = 0" "\<not> last_utility es < u"
    | (skipped) "\<not> e \<le> k + 1" | (worse) "0 \<le> k" "e \<le> k + 1" "\<not> last_utility es < u"
    using k(2,3) by linarith
  then have "if e \<le> k + 1 \<and> last_utility es < u
     then \<exists>s'. pcc_step ev s = Inr s' \<and> starting_phase s' \<noteq> 0 \<and> m_dPktSndPeriod s' = m_dPktSndPeriod s
     else if k = - 1 \<and> e = 0 then pcc_step ev s = Inl OutOfBounds
     else \<exists>s'. pcc_step ev s = Inr s' \<and> starting_phase s' = 0 \<and> make_guess s' = 1
       \<and> current_rate s' = 2 ^ (if k = - 1 then 1 else nat k + 1)
       \<and> m_dPktSndPeriod s' = real_of_int (m_iMSS s0) * 8 / current_rate s'"
  proof cases
    case goes_on
    then show ?thesis using run assms(2) by (simp add: step end_starting_def)
  next
    case outside
    then show ?thesis using run by (simp add: step end_starting_def fall_back_def aget_def)
  next
    case skipped
    then show ?thesis using run k returns [of k] returns [of 0] by (auto simp: step end_starting_def)
  next
    case worse
    then show ?thesis using run k(1) returns [of k] by (simp add: step end_starting_def)
  qed
  then show ?thesis using run k(4) unfolding k_def u_def Let_def by simp
qed

text \<open>Monitor 2 ends right after monitor 0: the controller returns to the rate of monitor 0.\<close>

definition starting_sample :: "pcc_event list" where
  "starting_sample = [Started 0 (\<lambda>i. 0), Started 1 (\<lambda>i. 0), Started 2 (\<lambda>i. 0), Ended 10 0 1 2 0 2]"

theorem starting_phase_falls_back_witness:
  "\<exists>s s'. for_each pcc_step starting_sample (BBCC sample_bbcc) = Inr s \<and> m_dPktSndPeriod s = 1500
    \<and> pcc_step (Ended 10 1 1 2 2 2) s = Inr s' \<and> current_rate s' = 2 \<and> make_guess s' = 1"
proof -
  obtain u where u: "monitor_utility 10 0 1 2 2 = Inr u" "- 10000 < u / 2"
    using monitor_utility_ok [of 10 0 1 2 2] by auto
  obtain s where s: "for_each pcc_step starting_sample (BBCC sample_bbcc) = Inr s" "starting_phase s = 1"
    using u by (simp add: starting_sample_def BBCC_def sample_bbcc_def onMonitorStart_def start_doubled_def aset_def
        aget_def pcc_setRate_def onMonitorEnds_def end_starting_def)
  have n: "starts starting_sample = 3" "ended starting_sample = [0]" by (simp_all add: starting_sample_def starts_def ended_def)
  have "starting_phase s \<noteq> 0" "starts starting_sample \<le> 100"
    "monitor_protocol 0 (starting_sample @ [Ended 10 1 1 2 2 2])"
    using s(2) n by (simp_all add: starting_sample_def)
  from starting_phase_falls_back [OF s(1) this refl] show ?thesis
    using s(1) by (auto simp: n Let_def sample_bbcc_def)
qed


section \<open>Probing\<close>

text \<open>
  Probing runs two pairs of monitors, one above and one below the current rate in an order drawn at
  random, by one percent in the first round, two in the second and so on up to five; the fifth round
  is followed by the first. Afterwards the controller waits for the results of just these monitors.
\<close>

theorem guess_round:
  assumes "starting_phase s = 0" and "make_guess s = 1" and "guess_time s = 0" and "continous_send s = 0"
    and "continous_guess_count s \<in> {0..5}" and "0 < current_rate s"
    and "length (rate_bucket s) = 4" and "length (monitor_bucket s) = 4"
  shows "let c = (if continous_guess_count s = 5 then 1 else continous_guess_count s + 1);
           a = (\<lambda>i. (if even (rand i) then - 1 else 1) * real_of_int c / 100 * current_rate s);
           rates = [current_rate s + a 0, current_rate s - a 0, current_rate s + a 2, current_rate s - a 2];
           es = [Started m rand, Started m1 rand1, Started m2 rand2, Started m3 rand3]
    in (\<forall>j < 4. \<exists>s'. for_each pcc_step (take (j + 1) es) s = Inr s'
          \<and> m_dPktSndPeriod s' = real_of_int (m_iMSS s) * 8 / rates ! j \<and> make_guess s' = (if j = 3 then 0 else 1)
          \<and> recording_guess_result s' = 1 \<and> continous_guess_count s' = c \<and> current_rate s' = current_rate s
          \<and> rate_bucket s' = rates \<and> monitor_bucket s' = map (\<lambda>i. (m + i) mod 100) [0, 1, 2, 3])"
proof -
  define c where "c = (if continous_guess_count s = 5 then 1 else continous_guess_count s + 1)"
  define a where "a i = (if even (rand i) then - 1 else 1) * real_of_int c / 100 * current_rate s" for i
  define s1 where "s1 = (if continous_guess_count s = 5 then s\<lparr>continous_guess_count := 0\<rparr> else s)"
  have s1: "continous_guess_count s1 + 1 = c" "current_rate s1 = current_rate s" "m_iMSS s1 = m_iMSS s" "guess_time s1 = 0"
    "length (rate_bucket s1) = 4" "length (monitor_bucket s1) = 4" "starting_phase s1 = 0" "make_guess s1 = 1" "continous_send s1 = 0"
    "continous_guess_count s1 \<in> {0..4}"
    using assms by (auto simp: s1_def c_def)
  have am: "guess_amount rand s1 i = a i" for i
    using s1(1,2) by (simp add: guess_amount_def a_def odd_iff_mod_2_eq_one even_iff_mod_2_eq_zero)
  have bound: "\<bar>a i\<bar> < current_rate s" for i
    using guess_amount_bound [OF s1(10), of rand i] assms(6) by (simp add: am s1(2))
  have nz: "current_rate s + a 0 \<noteq> 0" "current_rate s - a 0 \<noteq> 0" "current_rate s + a 2 \<noteq> 0" "current_rate s - a 2 \<noteq> 0"
    using bound [of 0] bound [of 2] by auto
  define b where "b = s1\<lparr>recording_guess_result := 1, continous_guess_count := c,
      rate_bucket := [current_rate s + a 0, current_rate s - a 0, current_rate s + a 2, current_rate s - a 2],
      monitor_bucket := [m mod 100, (m + 1) mod 100, (m + 2) mod 100, (m + 3) mod 100]\<rparr>"
  have "begin_guess rand m s1 = Inr b"
    using begin_guess_eq [OF s1(5,6), of rand m] by (simp add: b_def am s1(1,2))
  then have first: "pcc_step (Started m rand) s
      = Inr (b\<lparr>m_dPktSndPeriod := real_of_int (m_iMSS s) * 8 / (current_rate s + a 0), guess_time := 1\<rparr>)"
    using assms(1-3) s1 nz(1)
    by (simp add: onMonitorStart_def guess_step_def s1_def [symmetric] aget_def pcc_setRate_def continue_sending_def b_def)
  have "\<forall>j \<in> {0, 1, 2, 3}. \<exists>s'. for_each pcc_step (take (j + 1) [Started m rand, Started m1 rand1, Started m2 rand2, Started m3 rand3]) s = Inr s'
          \<and> m_dPktSndPeriod s' = real_of_int (m_iMSS s) * 8
              / [current_rate s + a 0, current_rate s - a 0, current_rate s + a 2, current_rate s - a 2] ! j
          \<and> make_guess s' = (if j = 3 then 0 else 1)
          \<and> recording_guess_result s' = 1 \<and> continous_guess_count s' = c \<and> current_rate s' = current_rate s
          \<and> rate_bucket s' = [current_rate s + a 0, current_rate s - a 0, current_rate s + a 2, current_rate s - a 2]
          \<and> monitor_bucket s' = [m mod 100, (m + 1) mod 100, (m + 2) mod 100, (m + 3) mod 100]"
    using first s1 nz
    by (simp add: b_def onMonitorStart_def guess_step_def aget_def pcc_setRate_def continue_sending_def numeral_eq_Suc
        del: pcc_step.simps) (simp add: onMonitorStart_def guess_step_def aget_def pcc_setRate_def continue_sending_def numeral_eq_Suc)
  moreover have "(j < 4) = (j \<in> {0, 1, 2, 3})" for j :: nat by auto
  ultimately show ?thesis unfolding Let_def c_def [symmetric] a_def [symmetric] by simp
qed

definition probing_sample :: bbcc where
  "probing_sample = BBCC sample_bbcc\<lparr>starting_phase := 0, make_guess := 1, continous_guess_count := 1, current_rate := 100\<rparr>"

theorem guess_round_witness:
  "\<exists>s'. for_each pcc_step [Started 98 (\<lambda>i. 1), Started 99 (\<lambda>i. 0)] probing_sample = Inr s'
    \<and> m_dPktSndPeriod s' = 12000 / 98 \<and> rate_bucket s' = [102, 98, 102, 98] \<and> monitor_bucket s' = [98, 99, 0, 1]"
proof -
  note r = guess_round [of probing_sample "\<lambda>i. 1" 98 99 "\<lambda>i. 0" 0 "\<lambda>i. 0" 1 "\<lambda>i. 0"]
  have "\<forall>j < (4::nat). \<exists>s'. for_each pcc_step (take (j + 1) [Started 98 (\<lambda>i. 1), Started 99 (\<lambda>i. 0), Started 0 (\<lambda>i. 0), Started 1 (\<lambda>i. 0)])
      probing_sample = Inr s' \<and> m_dPktSndPeriod s' = 12000 / [102, 98, 102, 98] ! j
      \<and> rate_bucket s' = [102, 98, 102, 98] \<and> monitor_bucket s' = [98, 99, 0, 1]"
    using r by (simp add: probing_sample_def BBCC_def sample_bbcc_def Let_def del: pcc_step.simps for_each.simps) blast
  from this [rule_format, of 1] show ?thesis by (simp del: pcc_step.simps for_each.simps)
qed

lemma record_probes_eq:
  assumes "length (utility_bucket s) = 4" and "length (monitor_bucket s) = 4" and "distinct (monitor_bucket s)" and "j < 4"
  shows "for_each (record_probe (monitor_bucket s ! j) u) [0, 1, 2, 3] s
    = Inr (s\<lparr>recorded_number := recorded_number s + 1, utility_bucket := (utility_bucket s)[j := u]\<rparr>)"
proof -
  obtain m0 m1 m2 m3 where m: "monitor_bucket s = [m0, m1, m2, m3]"
    using assms(2) by (auto simp: numeral_eq_Suc length_Suc_conv)
  obtain u0 u1 u2 u3 where "utility_bucket s = [u0, u1, u2, u3]"
    using assms(1) by (auto simp: numeral_eq_Suc length_Suc_conv)
  moreover have "j = 0 \<or> j = 1 \<or> j = 2 \<or> j = 3" using assms(4) by auto
  ultimately show ?thesis using m assms(3)
    by (elim disjE) (simp_all add: record_probe_def aget_def aset_def numeral_eq_Suc)
qed

text \<open>
  C35. When the result of the fourth probe arrives, whichever it is, each pair votes for the rate that had
  the larger utility, the lower one if there was no difference. If the pairs agree, the rate moves
  by one to three percent in that direction; if not, the controller probes again at the same rate.
\<close>

theorem probes_decide:
  assumes "pcc_inv n s" and "starting_phase s = 0" and "recording_guess_result s \<noteq> 0" and "recorded_number s = 3"
    and "distinct (monitor_bucket s)" and "j < 4" and "moving_phase s = 0" and "moving_phase_initial s = 0"
    and "monitor_utility tot loss time (if previous_rtt s = 0 then rtt else previous_rtt s) rtt = Inr u"
    and "monitor_bucket s ! j \<noteq> (current + 1) mod 100" and "rate_bucket s ! 0 \<noteq> rate_bucket s ! 1" and "rate_bucket s ! 2 \<noteq> rate_bucket s ! 3"
  shows "\<exists>s'. onMonitorEnds tot loss time current (monitor_bucket s ! j) rtt s = Inr s' \<and>
    (let us = (utility_bucket s)[j := u]; rs = rate_bucket s;
         up = (\<lambda>i. if rs ! i > rs ! (i + 1) then us ! i > us ! (i + 1) else us ! i < us ! (i + 1));
         step = 1 + continous_guess_count s div 2
     in if up 0 \<noteq> up 2 then make_guess s' = 1 \<and> current_rate s' = current_rate s \<and> m_dPktSndPeriod s' = m_dPktSndPeriod s
        else current_rate s' = current_rate s * (1 + (if up 0 then 1 else - 1) * real_of_int step / 100)
          \<and> 0 < current_rate s' \<and> m_dPktSndPeriod s' = real_of_int (m_iMSS s) * 8 / current_rate s'
          \<and> moving_phase_initial s' = 1 \<and> target_monitor s' = (current + 1) mod 100)"
proof -
  define us where "us = (utility_bucket s)[j := u]"
  define s1 where "s1 = s\<lparr>previous_rtt := rtt, recorded_number := 4, utility_bucket := us\<rparr>"
  define up where "up i = (if rate_bucket s ! i > rate_bucket s ! (i + 1) then us ! i > us ! (i + 1) else us ! i < us ! (i + 1))" for i
  have inv: "pcc_inv n s1" using assms(1) by (simp add: pcc_inv_def s1_def us_def)
  have rec: "for_each (record_probe (monitor_bucket s ! j) u) [0, 1, 2, 3] (s\<lparr>previous_rtt := rtt\<rparr>) = Inr s1"
    using record_probes_eq [of "s\<lparr>previous_rtt := rtt\<rparr>" j u] assms(1,4-6) by (simp only: pcc_inv_def) (simp add: s1_def us_def)
  have voted: "voted_up s1 0 = up 0" "voted_up s1 2 = up 2"
    using assms(11,12) by (auto simp: voted_up_def up_def s1_def)
  have rate: "decided_rate s1 1 = current_rate s * (1 + 1 * real_of_int (1 + continous_guess_count s div 2) / 100)"
    "decided_rate s1 (- 1) = current_rate s * (1 + - 1 * real_of_int (1 + continous_guess_count s div 2) / 100)"
    by (simp_all add: decided_rate_def s1_def algebra_simps)
  have ends: "onMonitorEnds tot loss time current (monitor_bucket s ! j) rtt s
      = bindE (decide current s1) (\<lambda>s2. bindE (first_move (real_of_int tot) time current (monitor_bucket s ! j) u s2)
          (\<lambda>(returned, s3). if returned then Inr s3 else next_move (real_of_int tot) time current (monitor_bucket s ! j) u s3))"
    using assms(2,3,9) rec by (simp add: onMonitorEnds_def end_running_def record_guess_def Let_def s1_def del: for_each.simps)
  show ?thesis
    unfolding ends up_def [symmetric] us_def [symmetric] Let_def
    using decide_eq [OF inv, of current] assms(7,8,10) voted rate
    by (simp add: Let_def first_move_def next_move_def s1_def)
qed

definition decision_sample :: bbcc where
  "decision_sample = BBCC sample_bbcc\<lparr>starting_phase := 0, recording_guess_result := 1, recorded_number := 3,
     continous_guess_count := 2, current_rate := 100, rate_bucket := [102, 98, 102, 98], monitor_bucket := [0, 1, 2, 3],
     utility_bucket := [0, - 1000000, 1, 0], previous_rtt := 2\<rparr>"

theorem probes_decide_witness:
  "\<exists>s'. onMonitorEnds 10 0 1 4 0 2 decision_sample = Inr s' \<and> current_rate s' = 102 \<and> target_monitor s' = 5"
proof -
  obtain u where u: "monitor_utility 10 0 1 2 2 = Inr u" "u \<ge> 0" using monitor_utility_ok [of 10 0 1 2 2] by auto
  have "\<exists>s'. onMonitorEnds 10 0 1 4 (monitor_bucket decision_sample ! 0) 2 decision_sample = Inr s' \<and>
    (let us = (utility_bucket decision_sample)[0 := u]; rs = rate_bucket decision_sample;
         up = (\<lambda>i. if rs ! i > rs ! (i + 1) then us ! i > us ! (i + 1) else us ! i < us ! (i + 1));
         step = 1 + continous_guess_count decision_sample div 2
     in if up 0 \<noteq> up 2 then make_guess s' = 1 \<and> current_rate s' = current_rate decision_sample
          \<and> m_dPktSndPeriod s' = m_dPktSndPeriod decision_sample
        else current_rate s' = current_rate decision_sample * (1 + (if up 0 then 1 else - 1) * real_of_int step / 100)
          \<and> 0 < current_rate s' \<and> m_dPktSndPeriod s' = real_of_int (m_iMSS decision_sample) * 8 / current_rate s'
          \<and> moving_phase_initial s' = 1 \<and> target_monitor s' = (4 + 1) mod 100)"
    by (rule probes_decide [where n = 0])
      (use u in \<open>simp_all add: decision_sample_def BBCC_def sample_bbcc_def pcc_inv_def\<close>)
  then show ?thesis using u(2) by (auto simp: decision_sample_def BBCC_def sample_bbcc_def Let_def)
qed


section \<open>The first monitor\<close>

text \<open>
  When the first monitor ends with a utility so low that half of it is at most -10000, the
  controller reads the element before the array of starting rates; with a larger utility it does not.
\<close>

theorem first_monitor_outcome:
  assumes "starting_phase s \<noteq> 0" and "start_previous_monitor s = - 1" and "start_previous_utility s = - 10000"
    and "monitor_utility tot loss time (if previous_rtt s = 0 then rtt else previous_rtt s) rtt = Inr u"
  shows "onMonitorEnds tot loss time current 0 rtt s =
    (if u / 2 \<le> - 10000 then Inl OutOfBounds
     else Inr (s\<lparr>previous_rtt := rtt, start_previous_utility := u / 2, start_previous_monitor := 0\<rparr>))"
  using assms by (auto simp: onMonitorEnds_def end_starting_def fall_back_def aget_def)

theorem first_monitor_outcome_witness:
  "for_each pcc_step [Started 0 (\<lambda>i. 0), Ended 1 1 (1 / 1000) 0 0 1] (BBCC sample_bbcc) = Inl OutOfBounds"
proof -
  obtain s where s: "pcc_step (Started 0 (\<lambda>i. 0)) (BBCC sample_bbcc) = Inr s" "starting_phase s = 1"
    "start_previous_monitor s = - 1" "start_previous_utility s = - 10000" "previous_rtt s = 0"
    by (simp add: BBCC_def sample_bbcc_def onMonitorStart_def start_doubled_def aset_def aget_def pcc_setRate_def)
  have u: "monitor_utility 1 1 (1 / 1000) 1 1 = Inr (- 1000000)" by (simp add: monitor_utility_def)
  have "onMonitorEnds 1 1 (1 / 1000) 0 0 1 s = Inl OutOfBounds"
    using first_monitor_outcome [of s 1 1 "1 / 1000" 1 "- 1000000" 0] s(2-) u by simp
  then show ?thesis using s(1) by simp
qed

end
