(* ===== verification/Memory_Variants.thy ===== *)
theory Memory_Variants
  imports Remy_Dna "HOL-Library.Sublist"
begin

text \<open>
  The two other kinds of congestion signals for which the Remy code can be compiled (\<open>src/memory.hh\<close>
  chooses one of the three): \<open>src/memory-with-loss-signal.hh\<close> and \<open>.cc\<close>, whose fourth signal is the rate
  of lost packets in a window of a round-trip time, and \<open>src/memory-without-slow-rewma.hh\<close> and \<open>.cc\<close>,
  which have three signals and count lost packets. A \<open>std::queue\<close> is a list whose head is the front.
\<close>


section \<open>Signals with a loss rate\<close>

record loss_memory =
  lm_rec_send_ewma :: real
  lm_rec_rec_ewma :: real
  lm_rtt_ratio :: real
  lm_slow_rec_rec_ewma :: real
  lm_loss_rate :: real
  lm_last_tick_sent :: real
  lm_last_tick_received :: real
  lm_last_receiver_timestamp :: real
  lm_min_rtt :: real
  lm_rtt_estimate :: real
  lm_lost_packets :: "packet list"
  lm_all_packets :: "packet list"
  lm_largest_ack :: int

definition LossMemory :: "real \<Rightarrow> real \<Rightarrow> real \<Rightarrow> real \<Rightarrow> loss_memory" where
  "LossMemory a b c d = \<lparr>lm_rec_send_ewma = a, lm_rec_rec_ewma = b, lm_rtt_ratio = c, lm_slow_rec_rec_ewma = 0,
     lm_loss_rate = d, lm_last_tick_sent = 0, lm_last_tick_received = 0, lm_last_receiver_timestamp = 0,
     lm_min_rtt = 0, lm_rtt_estimate = 0, lm_lost_packets = [], lm_all_packets = [], lm_largest_ack = 0\<rparr>"

text \<open>The constructor from a vector, whose \<open>at\<close> throws.\<close>

definition LossMemory_of :: "real list \<Rightarrow> loss_memory res" where
  "LossMemory_of s_data = bindE (guardE (4 \<le> length s_data) UncaughtException) (\<lambda>_.
     Inr (LossMemory (s_data ! 0) (s_data ! 1) (s_data ! 2) (s_data ! 3)))"

definition lm_reset :: "loss_memory \<Rightarrow> loss_memory" where
  "lm_reset m = m\<lparr>lm_rec_send_ewma := 0, lm_rec_rec_ewma := 0, lm_rtt_ratio := 0, lm_slow_rec_rec_ewma := 0,
     lm_loss_rate := 0, lm_last_tick_sent := 0, lm_last_tick_received := 0, lm_min_rtt := 0, lm_rtt_estimate := 0,
     lm_largest_ack := 0, lm_lost_packets := [], lm_all_packets := []\<rparr>"

definition lm_field :: "loss_memory \<Rightarrow> nat \<Rightarrow> real" where
  "lm_field m num = (if num = 0 then lm_rec_send_ewma m else if num = 1 then lm_rec_rec_ewma m
     else if num = 2 then lm_rtt_ratio m else lm_loss_rate m)"

definition lm_set_field :: "nat \<Rightarrow> real \<Rightarrow> loss_memory \<Rightarrow> loss_memory" where
  "lm_set_field num v m = (if num = 0 then m\<lparr>lm_rec_send_ewma := v\<rparr> else if num = 1 then m\<lparr>lm_rec_rec_ewma := v\<rparr>
     else if num = 2 then m\<lparr>lm_rtt_ratio := v\<rparr> else m\<lparr>lm_loss_rate := v\<rparr>)"

definition lm_ge :: "loss_memory \<Rightarrow> loss_memory \<Rightarrow> bool" where
  "lm_ge m other \<longleftrightarrow> lm_rec_send_ewma m \<ge> lm_rec_send_ewma other \<and> lm_rec_rec_ewma m \<ge> lm_rec_rec_ewma other
     \<and> lm_rtt_ratio m \<ge> lm_rtt_ratio other \<and> lm_loss_rate m \<ge> lm_loss_rate other"

definition lm_less :: "loss_memory \<Rightarrow> loss_memory \<Rightarrow> bool" where
  "lm_less m other \<longleftrightarrow> lm_rec_send_ewma m < lm_rec_send_ewma other \<and> lm_rec_rec_ewma m < lm_rec_rec_ewma other
     \<and> lm_rtt_ratio m < lm_rtt_ratio other \<and> lm_loss_rate m < lm_loss_rate other"

text \<open>As in the default signals, \<open>_rec_rec_ewma\<close> is compared with itself.\<close>

definition lm_eq :: "loss_memory \<Rightarrow> loss_memory \<Rightarrow> bool" where
  "lm_eq m other \<longleftrightarrow> lm_rec_send_ewma m = lm_rec_send_ewma other \<and> lm_rec_rec_ewma m = lm_rec_rec_ewma m
     \<and> lm_rtt_ratio m = lm_rtt_ratio other \<and> lm_loss_rate m = lm_loss_rate other"

definition MAX_LOSS_MEMORY :: "loss_memory res" where
  "MAX_LOSS_MEMORY = LossMemory_of [163840, 163840, 163840, 163840]"

definition lm_note_packet :: "packet \<Rightarrow> loss_memory \<Rightarrow> loss_memory" where
  "lm_note_packet x m =
     m\<lparr>lm_lost_packets := (if lm_largest_ack m + 1 < pk_seq_num x then lm_lost_packets m @ [x] else lm_lost_packets m),
       lm_largest_ack := max (lm_largest_ack m) (pk_seq_num x),
       lm_all_packets := lm_all_packets m @ [x]\<rparr>"

definition lm_update_ewmas :: "real \<Rightarrow> packet \<Rightarrow> loss_memory \<Rightarrow> loss_memory" where
  "lm_update_ewmas factor x m =
     m\<lparr>lm_rec_send_ewma := (1 - alpha) * lm_rec_send_ewma m + alpha * (tick_sent x - lm_last_tick_sent m) * factor,
       lm_rec_rec_ewma := (1 - alpha) * lm_rec_rec_ewma m
                       + alpha * (receiver_timestamp x - lm_last_receiver_timestamp m) * factor,
       lm_slow_rec_rec_ewma := (1 - slow_alpha) * lm_slow_rec_rec_ewma m
                            + slow_alpha * (receiver_timestamp x - lm_last_receiver_timestamp m) * factor,
       lm_last_tick_sent := tick_sent x, lm_last_tick_received := tick_received x,
       lm_last_receiver_timestamp := receiver_timestamp x\<rparr>"

definition lm_packet :: "real \<Rightarrow> packet \<Rightarrow> loss_memory \<Rightarrow> loss_memory res" where
  "lm_packet factor x m0 =
     (let m = lm_note_packet x m0;
          rtt = tick_received x - tick_sent x
      in if lm_last_tick_sent m = 0 \<or> lm_last_tick_received m = 0 then
           Inr (m\<lparr>lm_last_tick_sent := tick_sent x, lm_last_tick_received := tick_received x,
                  lm_last_receiver_timestamp := receiver_timestamp x, lm_min_rtt := rtt, lm_rtt_estimate := rtt\<rparr>)
         else
           (let m1 = lm_update_ewmas factor x m; mr = min (lm_min_rtt m1) rtt
            in bindE (guardE (mr \<noteq> 0) DivByZero) (\<lambda>_.
               bindE (guardE (rtt / mr \<ge> 1) AssertFailed) (\<lambda>_.
               Inr (m1\<lparr>lm_min_rtt := mr, lm_rtt_ratio := rtt / mr,
                       lm_rtt_estimate := (1 - alpha) * lm_rtt_estimate m1 + alpha * rtt\<rparr>)))))"

fun pop_older :: "real \<Rightarrow> packet list \<Rightarrow> packet list" where
  "pop_older t [] = []"
| "pop_older t (x # xs) = (if tick_received x < t then pop_older t xs else x # xs)"

definition lm_measure_loss :: "loss_memory \<Rightarrow> loss_memory" where
  "lm_measure_loss m =
     (let t = lm_last_tick_received m - lm_rtt_estimate m;
          lost = pop_older t (lm_lost_packets m); all = pop_older t (lm_all_packets m)
      in m\<lparr>lm_lost_packets := lost, lm_all_packets := all,
           lm_loss_rate := (if all = [] then 0 else 1 / 10 * real (length lost) / real (length all) * 163840)\<rparr>)"

definition lm_packets_received :: "packet list \<Rightarrow> u32 \<Rightarrow> real \<Rightarrow> loss_memory \<Rightarrow> loss_memory res" where
  "lm_packets_received packets fid factor m =
     bindE (for_each (\<lambda>x m. if flow_id x \<noteq> fid then Inr m else lm_packet factor x m) packets m)
       (\<lambda>m1. Inr (lm_measure_loss m1))"

text \<open>The stored form; \<open>loss_rate\<close> takes the place of the slow average.\<close>

record dna_loss_memory =
  dl_rec_send_ewma :: "real option"
  dl_rec_rec_ewma :: "real option"
  dl_rtt_ratio :: "real option"
  dl_loss_rate :: "real option"

definition lm_dna :: "loss_memory \<Rightarrow> dna_loss_memory" where
  "lm_dna m = \<lparr>dl_rec_send_ewma = Some (lm_rec_send_ewma m), dl_rec_rec_ewma = Some (lm_rec_rec_ewma m),
     dl_rtt_ratio = Some (lm_rtt_ratio m), dl_loss_rate = Some (lm_loss_rate m)\<rparr>"

definition lm_of_dna :: "bool \<Rightarrow> dna_loss_memory \<Rightarrow> loss_memory" where
  "lm_of_dna is_lower_limit dna =
     LossMemory (get_val_or_default is_lower_limit (dl_rec_send_ewma dna))
       (get_val_or_default is_lower_limit (dl_rec_rec_ewma dna))
       (get_val_or_default is_lower_limit (dl_rtt_ratio dna))
       (get_val_or_default is_lower_limit (dl_loss_rate dna))"


section \<open>Three signals\<close>

record short_memory =
  sm_rec_send_ewma :: real
  sm_rec_rec_ewma :: real
  sm_rtt_ratio :: real
  sm_slow_rec_rec_ewma :: real
  sm_last_tick_sent :: real
  sm_last_tick_received :: real
  sm_last_receiver_timestamp :: real
  sm_min_rtt :: real
  sm_num_packets_received :: u64
  sm_num_packets_lost :: u64

definition ShortMemory :: "real \<Rightarrow> real \<Rightarrow> real \<Rightarrow> short_memory" where
  "ShortMemory a b c = \<lparr>sm_rec_send_ewma = a, sm_rec_rec_ewma = b, sm_rtt_ratio = c, sm_slow_rec_rec_ewma = 0,
     sm_last_tick_sent = 0, sm_last_tick_received = 0, sm_last_receiver_timestamp = 0, sm_min_rtt = 0,
     sm_num_packets_received = 0, sm_num_packets_lost = 0\<rparr>"

definition ShortMemory_of :: "real list \<Rightarrow> short_memory res" where
  "ShortMemory_of s_data = bindE (guardE (3 \<le> length s_data) UncaughtException) (\<lambda>_.
     Inr (ShortMemory (s_data ! 0) (s_data ! 1) (s_data ! 2)))"

text \<open>The counters are not reset.\<close>

definition sm_reset :: "short_memory \<Rightarrow> short_memory" where
  "sm_reset m = m\<lparr>sm_rec_send_ewma := 0, sm_rec_rec_ewma := 0, sm_rtt_ratio := 0, sm_slow_rec_rec_ewma := 0,
     sm_last_tick_sent := 0, sm_last_tick_received := 0, sm_min_rtt := 0\<rparr>"

definition sm_field :: "short_memory \<Rightarrow> nat \<Rightarrow> real res" where
  "sm_field m num = bindE (guardE (num \<le> 2) AssertFailed) (\<lambda>_.
     Inr (if num = 0 then sm_rec_send_ewma m else if num = 1 then sm_rec_rec_ewma m else sm_rtt_ratio m))"

definition sm_set_field :: "nat \<Rightarrow> real \<Rightarrow> short_memory \<Rightarrow> short_memory res" where
  "sm_set_field num v m = bindE (guardE (num \<le> 2) AssertFailed) (\<lambda>_.
     Inr (if num = 0 then m\<lparr>sm_rec_send_ewma := v\<rparr> else if num = 1 then m\<lparr>sm_rec_rec_ewma := v\<rparr>
          else m\<lparr>sm_rtt_ratio := v\<rparr>))"

definition sm_ge :: "short_memory \<Rightarrow> short_memory \<Rightarrow> bool" where
  "sm_ge m other \<longleftrightarrow> sm_rec_send_ewma m \<ge> sm_rec_send_ewma other \<and> sm_rec_rec_ewma m \<ge> sm_rec_rec_ewma other
     \<and> sm_rtt_ratio m \<ge> sm_rtt_ratio other"

definition sm_less :: "short_memory \<Rightarrow> short_memory \<Rightarrow> bool" where
  "sm_less m other \<longleftrightarrow> sm_rec_send_ewma m < sm_rec_send_ewma other \<and> sm_rec_rec_ewma m < sm_rec_rec_ewma other
     \<and> sm_rtt_ratio m < sm_rtt_ratio other"

definition sm_eq :: "short_memory \<Rightarrow> short_memory \<Rightarrow> bool" where
  "sm_eq m other \<longleftrightarrow> sm_rec_send_ewma m = sm_rec_send_ewma other \<and> sm_rec_rec_ewma m = sm_rec_rec_ewma m
     \<and> sm_rtt_ratio m = sm_rtt_ratio other"

definition MAX_SHORT_MEMORY :: "short_memory res" where
  "MAX_SHORT_MEMORY = ShortMemory_of [163840, 163840, 163840]"

definition sm_update_ewmas :: "real \<Rightarrow> packet \<Rightarrow> short_memory \<Rightarrow> short_memory" where
  "sm_update_ewmas factor x m =
     m\<lparr>sm_rec_send_ewma := (1 - alpha) * sm_rec_send_ewma m + alpha * (tick_sent x - sm_last_tick_sent m) * factor,
       sm_rec_rec_ewma := (1 - alpha) * sm_rec_rec_ewma m
                       + alpha * (receiver_timestamp x - sm_last_receiver_timestamp m) * factor,
       sm_slow_rec_rec_ewma := (1 - slow_alpha) * sm_slow_rec_rec_ewma m
                            + slow_alpha * (receiver_timestamp x - sm_last_receiver_timestamp m) * factor,
       sm_last_tick_sent := tick_sent x, sm_last_tick_received := tick_received x,
       sm_last_receiver_timestamp := receiver_timestamp x\<rparr>"

text \<open>One packet, with the expected sequence number.\<close>

definition sm_packet :: "real \<Rightarrow> packet \<Rightarrow> int \<times> short_memory \<Rightarrow> (int \<times> short_memory) res" where
  "sm_packet factor x s =
     (case s of (seq, m0) \<Rightarrow>
        let m = (if seq < pk_seq_num x then m0\<lparr>sm_num_packets_lost := sm_num_packets_lost m0 + 1\<rparr> else m0);
            rtt = tick_received x - tick_sent x
        in if sm_last_tick_sent m = 0 \<or> sm_last_tick_received m = 0 then
             Inr (seq + 1, m\<lparr>sm_last_tick_sent := tick_sent x, sm_last_tick_received := tick_received x,
                             sm_last_receiver_timestamp := receiver_timestamp x, sm_min_rtt := rtt\<rparr>)
           else
             (let m1 = sm_update_ewmas factor x m; mr = min (sm_min_rtt m1) rtt
              in bindE (guardE (mr \<noteq> 0) DivByZero) (\<lambda>_.
                 bindE (guardE (rtt / mr \<ge> 1) AssertFailed) (\<lambda>_.
                 Inr (seq + 1, m1\<lparr>sm_min_rtt := mr, sm_rtt_ratio := rtt / mr,
                                  sm_num_packets_received := sm_num_packets_received m1 + 1\<rparr>)))))"

text \<open>The front of an empty vector is not defined.\<close>

definition sm_packets_received :: "packet list \<Rightarrow> u32 \<Rightarrow> real \<Rightarrow> short_memory \<Rightarrow> short_memory res" where
  "sm_packets_received packets fid factor m =
     bindE (aget packets 0) (\<lambda>front.
     bindE (for_each (\<lambda>x s. if flow_id x \<noteq> fid then Inr s else sm_packet factor x s) packets (pk_seq_num front, m))
       (\<lambda>(seq, m'). Inr m'))"

record dna_short_memory =
  ds_rec_send_ewma :: "real option"
  ds_rec_rec_ewma :: "real option"
  ds_rtt_ratio :: "real option"

definition sm_dna :: "short_memory \<Rightarrow> dna_short_memory" where
  "sm_dna m = \<lparr>ds_rec_send_ewma = Some (sm_rec_send_ewma m), ds_rec_rec_ewma = Some (sm_rec_rec_ewma m),
     ds_rtt_ratio = Some (sm_rtt_ratio m)\<rparr>"

definition sm_of_dna :: "bool \<Rightarrow> dna_short_memory \<Rightarrow> short_memory" where
  "sm_of_dna is_lower_limit dna =
     ShortMemory (get_val_or_default is_lower_limit (ds_rec_send_ewma dna))
       (get_val_or_default is_lower_limit (ds_rec_rec_ewma dna))
       (get_val_or_default is_lower_limit (ds_rtt_ratio dna))"


section \<open>The window of the loss rate\<close>

lemma pop_older_eq: "pop_older t xs = dropWhile (\<lambda>x. tick_received x < t) xs"
  by (induction xs) simp_all

lemma subseq_dropWhile: "subseq xs ys \<Longrightarrow> subseq (dropWhile P xs) (dropWhile P ys)"
proof (induction rule: list_emb.induct)
  case (list_emb_Cons xs ys y)
  have "subseq (dropWhile P xs) xs" using suffix_dropWhile suffix_imp_subseq by blast
  then show ?case using list_emb_Cons by (auto intro: list_emb.list_emb_Cons subseq_order.trans)
qed auto

text \<open>The packets that arrive with a gap to all before them, when \<open>a\<close> is the largest number so far.\<close>

fun gaps :: "int \<Rightarrow> packet list \<Rightarrow> packet list" where
  "gaps a [] = []"
| "gaps a (x # xs) = (if a + 1 < pk_seq_num x then [x] else []) @ gaps (max a (pk_seq_num x)) xs"

lemma subseq_gaps: "subseq (gaps a xs) xs"
  by (induction a xs rule: gaps.induct) auto

definition lm_ok :: "loss_memory \<Rightarrow> bool" where
  "lm_ok m \<longleftrightarrow> subseq (lm_lost_packets m) (lm_all_packets m)
     \<and> (lm_last_tick_sent m = 0 \<or> lm_last_tick_received m = 0 \<or> 0 < lm_min_rtt m)"

lemma lm_packet_ok:
  assumes "lm_ok m" and "tick_sent x < tick_received x"
  shows "\<exists>m'. lm_packet factor x m = Inr m' \<and> lm_ok m' \<and> lm_largest_ack m' = max (lm_largest_ack m) (pk_seq_num x)
    \<and> lm_all_packets m' = lm_all_packets m @ [x] \<and> lm_lost_packets m' = lm_lost_packets m @ gaps (lm_largest_ack m) [x]"
proof -
  let ?rtt = "tick_received x - tick_sent x"
  have win: "subseq (lm_lost_packets m @ gaps (lm_largest_ack m) [x]) (lm_all_packets m @ [x])"
    using assms(1) subseq_gaps [of "lm_largest_ack m" "[x]"] by (intro list_emb_append_mono) (simp_all add: lm_ok_def)
  show ?thesis
  proof (cases "lm_last_tick_sent m = 0 \<or> lm_last_tick_received m = 0")
    case True
    then show ?thesis using assms(2) win by (auto simp: lm_packet_def lm_note_packet_def lm_ok_def Let_def)
  next
    case False
    define mr where "mr = min (lm_min_rtt m) ?rtt"
    have pos: "0 < mr" "1 \<le> ?rtt / mr" using assms False by (auto simp: lm_ok_def mr_def le_divide_eq)
    have mr: "lm_min_rtt (lm_update_ewmas factor x (lm_note_packet x m)) = lm_min_rtt m"
      by (simp add: lm_update_ewmas_def lm_note_packet_def)
    have upd: "lm_last_tick_sent (lm_note_packet x m) = lm_last_tick_sent m" "lm_last_tick_received (lm_note_packet x m) = lm_last_tick_received m"
      by (simp_all add: lm_note_packet_def)
    show ?thesis
      unfolding lm_packet_def Let_def upd mr mr_def [symmetric] using False pos win
      by (auto simp: lm_ok_def lm_update_ewmas_def lm_note_packet_def guardE_def)
  qed
qed

lemma lm_packets_ok:
  assumes "lm_ok m" and "\<forall>x \<in> set packets. flow_id x = fid \<longrightarrow> tick_sent x < tick_received x"
  shows "\<exists>m'. for_each (\<lambda>x m. if flow_id x \<noteq> fid then Inr m else lm_packet factor x m) packets m = Inr m' \<and> lm_ok m'
    \<and> lm_all_packets m' = lm_all_packets m @ filter (\<lambda>x. flow_id x = fid) packets
    \<and> lm_lost_packets m' = lm_lost_packets m @ gaps (lm_largest_ack m) (filter (\<lambda>x. flow_id x = fid) packets)"
  using assms
proof (induction packets arbitrary: m)
  case (Cons x xs)
  show ?case
  proof (cases "flow_id x = fid")
    case True
    then obtain m1 where m1: "lm_packet factor x m = Inr m1" "lm_ok m1" "lm_largest_ack m1 = max (lm_largest_ack m) (pk_seq_num x)"
      "lm_all_packets m1 = lm_all_packets m @ [x]" "lm_lost_packets m1 = lm_lost_packets m @ gaps (lm_largest_ack m) [x]"
      using lm_packet_ok [OF Cons.prems(1), of x factor] Cons.prems(2) by auto
    then show ?thesis using Cons.IH [OF m1(2)] Cons.prems(2) True by auto
  next
    case False
    then show ?thesis using Cons.IH [OF Cons.prems(1)] Cons.prems(2) by auto
  qed
qed simp

text \<open>
  Packets that were received after they were sent never fail an assertion. Afterwards the window
  holds the packets of the flow from the first one on that is younger than the estimated round-trip time,
  the other queue those of them that followed a gap, and the loss signal is their share of 16384, so
  it stays between 0 and 16384.
\<close>

theorem loss_rate_of_window:
  assumes "lm_ok m" and "\<forall>x \<in> set packets. flow_id x = fid \<longrightarrow> tick_sent x < tick_received x"
  shows "\<exists>m'. lm_packets_received packets fid factor m = Inr m' \<and> lm_ok m'
    \<and> (let mine = filter (\<lambda>x. flow_id x = fid) packets; t = lm_last_tick_received m' - lm_rtt_estimate m'
       in lm_all_packets m' = dropWhile (\<lambda>x. tick_received x < t) (lm_all_packets m @ mine)
        \<and> lm_lost_packets m' = dropWhile (\<lambda>x. tick_received x < t) (lm_lost_packets m @ gaps (lm_largest_ack m) mine))
    \<and> lm_loss_rate m' = 16384 * real (length (lm_lost_packets m')) / real (length (lm_all_packets m'))
    \<and> 0 \<le> lm_loss_rate m' \<and> lm_loss_rate m' \<le> 16384"
proof -
  obtain m1 where m1: "for_each (\<lambda>x m. if flow_id x \<noteq> fid then Inr m else lm_packet factor x m) packets m = Inr m1" "lm_ok m1"
    "lm_all_packets m1 = lm_all_packets m @ filter (\<lambda>x. flow_id x = fid) packets"
    "lm_lost_packets m1 = lm_lost_packets m @ gaps (lm_largest_ack m) (filter (\<lambda>x. flow_id x = fid) packets)"
    using lm_packets_ok [OF assms] by blast
  let ?m = "lm_measure_loss m1"
  have sub: "subseq (lm_lost_packets ?m) (lm_all_packets ?m)"
    using m1(2) by (simp add: lm_measure_loss_def Let_def pop_older_eq lm_ok_def subseq_dropWhile)
  then have "length (lm_lost_packets ?m) \<le> length (lm_all_packets ?m)" by (rule list_emb_length)
  moreover have rate: "lm_loss_rate ?m = 16384 * real (length (lm_lost_packets ?m)) / real (length (lm_all_packets ?m))"
    by (simp add: lm_measure_loss_def Let_def)
  ultimately have "lm_loss_rate ?m \<le> 16384" "0 \<le> lm_loss_rate ?m"
    by (auto simp: divide_le_eq)
  moreover have "lm_ok ?m" using m1(2) sub by (simp add: lm_ok_def lm_measure_loss_def Let_def)
  moreover have "lm_packets_received packets fid factor m = Inr ?m" using m1(1) by (simp add: lm_packets_received_def)
  ultimately show ?thesis using m1(3,4) rate
    by (auto simp: lm_measure_loss_def Let_def pop_older_eq)
qed

definition sample_packet :: "real \<Rightarrow> int \<Rightarrow> packet" where
  "sample_packet t n = \<lparr>src = 0, flow_id = 1, tick_sent = t, tick_received = t + 10, receiver_timestamp = t, pk_seq_num = n\<rparr>"

theorem loss_rate_of_window_witness:
  "\<exists>m'. lm_packets_received [sample_packet 5 0, sample_packet 6 1, sample_packet 7 3] 1 1 (LossMemory 0 0 0 0) = Inr m'
    \<and> lm_loss_rate m' \<le> 16384"
proof -
  have "lm_ok (LossMemory 0 0 0 0)" by (simp add: lm_ok_def LossMemory_def)
  then show ?thesis
    using loss_rate_of_window [of "LossMemory 0 0 0 0" "[sample_packet 5 0, sample_packet 6 1, sample_packet 7 3]" 1 1]
    by (auto simp: sample_packet_def)
qed


section \<open>Counting losses in a group\<close>

definition sm_ok :: "short_memory \<Rightarrow> bool" where
  "sm_ok m \<longleftrightarrow> sm_last_tick_sent m = 0 \<or> sm_last_tick_received m = 0 \<or> 0 < sm_min_rtt m"

lemma sm_packet_ok:
  assumes "sm_ok m" and "tick_sent x < tick_received x"
  shows "\<exists>m'. sm_packet factor x (e, m) = Inr (e + 1, m') \<and> sm_ok m'
    \<and> sm_num_packets_lost m' = sm_num_packets_lost m + (if e < pk_seq_num x then 1 else 0)"
proof -
  let ?rtt = "tick_received x - tick_sent x"
  show ?thesis
  proof (cases "sm_last_tick_sent m = 0 \<or> sm_last_tick_received m = 0")
    case True
    then show ?thesis using assms(2) by (auto simp: sm_packet_def sm_ok_def Let_def)
  next
    case False
    then have "0 < min (sm_min_rtt m) ?rtt" "1 \<le> ?rtt / min (sm_min_rtt m) ?rtt"
      using assms by (auto simp: sm_ok_def le_divide_eq)
    then show ?thesis using False by (auto simp: sm_packet_def sm_ok_def sm_update_ewmas_def Let_def guardE_def)
  qed
qed

text \<open>The packets from the first one on that does not have the expected number.\<close>

fun after_gap :: "int \<Rightarrow> packet list \<Rightarrow> packet list" where
  "after_gap e [] = []"
| "after_gap e (x # xs) = (if pk_seq_num x = e then after_gap (e + 1) xs else x # xs)"

lemma sm_packets_ok:
  assumes "sm_ok m" and "\<forall>x \<in> set packets. flow_id x = fid \<and> tick_sent x < tick_received x"
    and "sorted_wrt (<) (map pk_seq_num packets)" and "\<forall>x \<in> set packets. e \<le> pk_seq_num x"
  shows "\<exists>e' m'. for_each (\<lambda>x s. if flow_id x \<noteq> fid then Inr s else sm_packet factor x s) packets (e, m) = Inr (e', m') \<and> sm_ok m'
    \<and> sm_num_packets_lost m' = sm_num_packets_lost m + of_nat (length (after_gap e packets))"
  using assms
proof (induction packets arbitrary: e m)
  case (Cons x xs)
  obtain m1 where m1: "sm_packet factor x (e, m) = Inr (e + 1, m1)" "sm_ok m1"
    "sm_num_packets_lost m1 = sm_num_packets_lost m + (if e < pk_seq_num x then 1 else 0)"
    using sm_packet_ok [OF Cons.prems(1), of x factor e] Cons.prems(2) by auto
  have "\<forall>y \<in> set xs. e + 1 \<le> pk_seq_num y" using Cons.prems(3,4) by fastforce
  then obtain e' m' where "for_each (\<lambda>x s. if flow_id x \<noteq> fid then Inr s else sm_packet factor x s) xs (e + 1, m1) = Inr (e', m')"
    "sm_ok m'" "sm_num_packets_lost m' = sm_num_packets_lost m1 + of_nat (length (after_gap (e + 1) xs))"
    using Cons.IH [OF m1(2), of "e + 1"] Cons.prems(2,3) by auto
  moreover have "after_gap (e + 1) xs = xs" if "e < pk_seq_num x"
  proof (cases xs)
    case (Cons y ys)
    then have "e + 1 < pk_seq_num y" using that Cons.prems(3) \<open>xs = y # ys\<close> by simp
    then show ?thesis using Cons by simp
  qed simp
  ultimately show ?case using m1 Cons.prems(2,4) by auto
qed simp

text \<open>
  A group of packets with increasing numbers is taken in without a failure, but it counts as lost
  not the packets that are missing but all packets of the group from the first gap on.
\<close>

theorem group_losses_counted:
  assumes "sm_ok m" and "packets \<noteq> []" and "\<forall>x \<in> set packets. flow_id x = fid \<and> tick_sent x < tick_received x"
    and "sorted_wrt (<) (map pk_seq_num packets)"
  shows "\<exists>m'. sm_packets_received packets fid factor m = Inr m' \<and> sm_ok m'
    \<and> sm_num_packets_lost m' = sm_num_packets_lost m + of_nat (length (after_gap (pk_seq_num (hd packets)) packets))"
proof -
  obtain p ps where p: "packets = p # ps" using assms(2) by (cases packets) auto
  have "\<forall>x \<in> set packets. pk_seq_num (hd packets) \<le> pk_seq_num x" using assms(4) p by auto
  then obtain e' m' where "for_each (\<lambda>x s. if flow_id x \<noteq> fid then Inr s else sm_packet factor x s) packets (pk_seq_num (hd packets), m)
      = Inr (e', m')" "sm_ok m'"
    "sm_num_packets_lost m' = sm_num_packets_lost m + of_nat (length (after_gap (pk_seq_num (hd packets)) packets))"
    using sm_packets_ok [OF assms(1,3,4)] by blast
  moreover have "aget packets 0 = Inr (hd packets)" by (simp add: p aget_def)
  ultimately show ?thesis by (simp add: sm_packets_received_def)
qed

theorem group_losses_counted_witness:
  "\<exists>m'. sm_packets_received [sample_packet 5 0, sample_packet 6 2, sample_packet 7 3] 1 1 (ShortMemory 0 0 0) = Inr m'
    \<and> sm_num_packets_lost m' = 2"
proof -
  have "sm_ok (ShortMemory 0 0 0)" by (simp add: sm_ok_def ShortMemory_def)
  then show ?thesis
    using group_losses_counted [of "ShortMemory 0 0 0" "[sample_packet 5 0, sample_packet 6 2, sample_packet 7 3]" 1 1]
    by (auto simp: sample_packet_def ShortMemory_def)
qed

text \<open>What is stored can be read back.\<close>

theorem loss_signals_round_trip:
  "lm_of_dna b (lm_dna m) = LossMemory (lm_rec_send_ewma m) (lm_rec_rec_ewma m) (lm_rtt_ratio m) (lm_loss_rate m)"
  "sm_of_dna b (sm_dna s) = ShortMemory (sm_rec_send_ewma s) (sm_rec_rec_ewma s) (sm_rtt_ratio s)"
  by (simp_all add: lm_of_dna_def lm_dna_def sm_of_dna_def sm_dna_def get_val_or_default_def get_or_def)

end
