(* ===== verification/Prober.thy ===== *)
theory Prober
  imports Tcp_Header
begin

text \<open>
  Model of \<open>src/prober.cc\<close>: it sends groups of 30 numbered packets and measures the rate of the link from
  the times at which the acknowledgements of a group arrive. Clock and socket are the environment: each
  call of \<open>receivedata\<close> is either a return value of 0 or the header that is in the buffer afterwards, and
  the time after it. The output is the list of logged lines. The log file is always written.
\<close>


section \<open>State\<close>

abbreviation group_size :: int where "group_size \<equiv> 30"

abbreviation link_rate_measurement_alpha :: real where "link_rate_measurement_alpha \<equiv> 1"

abbreviation prober_src_id :: int where "prober_src_id \<equiv> 42"

record prober =
  pr_seq_num :: int
  cur_ack_group_number :: int
  num_received_in_group :: int
  latest_ack_time_in_group :: real
  link_rate_accumulator :: real
  last_measured_link_rate :: real

definition prober_init :: prober where
  "prober_init = \<lparr>pr_seq_num = 0, cur_ack_group_number = - 1, num_received_in_group = - 1,
     latest_ack_time_in_group = - 1, link_rate_accumulator = - 1, last_measured_link_rate = - 1\<rparr>"


section \<open>Sending a group\<close>

text \<open>The headers of a group; packet \<open>i\<close> carries the time read before it is sent.\<close>

definition probe_header :: "int \<Rightarrow> int \<Rightarrow> real \<Rightarrow> tcp_header \<Rightarrow> tcp_header" where
  "probe_header seq i cur_time h = h\<lparr>h_seq_num := seq * group_size + i, h_flow_id := 0, h_src_id := prober_src_id,
     h_sender_timestamp := cur_time, h_receiver_timestamp := 0\<rparr>"

definition send_group :: "(int \<Rightarrow> real) \<Rightarrow> tcp_header \<Rightarrow> prober \<Rightarrow> tcp_header list \<times> prober" where
  "send_group clock h s =
     (map (\<lambda>i. probe_header (pr_seq_num s) i (clock i) h) [0..group_size - 1], s\<lparr>pr_seq_num := pr_seq_num s + 1\<rparr>)"


section \<open>Receiving acknowledgements\<close>

record link_log =
  log_time :: real
  log_rate :: real
  log_rtt :: real

definition group_measured :: "real \<Rightarrow> tcp_header \<Rightarrow> prober \<Rightarrow> (link_log list \<times> prober) res" where
  "group_measured cur_time h s =
     (let interval = link_rate_accumulator s / (real_of_int group_size - 1)
      in bindE (guardE (interval \<noteq> 0) DivByZero) (\<lambda>_.
         let rate = (if last_measured_link_rate s < 0 then 1000 / interval
                     else last_measured_link_rate s * (1 - link_rate_measurement_alpha)
                          + link_rate_measurement_alpha * (1000 / interval))
         in Inr ([\<lparr>log_time = cur_time, log_rate = rate, log_rtt = cur_time - h_sender_timestamp h\<rparr>],
                 s\<lparr>last_measured_link_rate := rate\<rparr>)))"

definition next_in_group :: "real \<Rightarrow> tcp_header \<Rightarrow> prober \<Rightarrow> (link_log list \<times> prober) res" where
  "next_in_group cur_time h s =
     (let s1 = s\<lparr>num_received_in_group := num_received_in_group s + 1,
                link_rate_accumulator := link_rate_accumulator s + (cur_time - latest_ack_time_in_group s),
                latest_ack_time_in_group := cur_time\<rparr>
      in if num_received_in_group s1 = group_size then group_measured cur_time h s1 else Inr ([], s1))"

text \<open>The acknowledgement is numbered from 1, hence the subtraction.\<close>

definition probe_ack :: "real \<Rightarrow> tcp_header \<Rightarrow> prober \<Rightarrow> (link_log list \<times> prober) res" where
  "probe_ack cur_time h0 s =
     (let h = h0\<lparr>h_seq_num := h_seq_num h0 + 1\<rparr> in
      if h_src_id h \<noteq> prober_src_id \<or> h_flow_id h \<noteq> 0 then Inr ([], s)
      else (let ack_group_num = (h_seq_num h - 1) sdiv group_size;
                ack_group_seq = (h_seq_num h - 1) smod group_size
            in if ack_group_num = cur_ack_group_number s
               then if ack_group_seq = num_received_in_group s then next_in_group cur_time h s else Inr ([], s)
               else if ack_group_num > cur_ack_group_number s
               then Inr ([], s\<lparr>cur_ack_group_number := ack_group_num, num_received_in_group := 1,
                              link_rate_accumulator := 0, latest_ack_time_in_group := cur_time\<rparr>)
               else Inr ([], s)))"

text \<open>The loop over the acknowledgements; a call that returns 0 does not count.\<close>

fun receive_group :: "nat \<Rightarrow> (tcp_header option \<times> real) list \<Rightarrow> prober \<Rightarrow> (link_log list \<times> prober) res option" where
  "receive_group 0 es s = Some (Inr ([], s))"
| "receive_group (Suc n) [] s = None"
| "receive_group (Suc n) ((None, t) # es) s = receive_group (Suc n) es s"
| "receive_group (Suc n) ((Some h, t) # es) s =
     (case probe_ack t h s of
        Inl e \<Rightarrow> Some (Inl e)
      | Inr (l, s1) \<Rightarrow> (case receive_group n es s1 of
          None \<Rightarrow> None
        | Some r \<Rightarrow> Some (bindE r (\<lambda>(l', s2). Inr (l @ l', s2)))))"

text \<open>Rounds of the main loop: the clock, the header before, and the calls of each round.\<close>

fun prober_loop :: "((int \<Rightarrow> real) \<times> tcp_header \<times> (tcp_header option \<times> real) list) list \<Rightarrow> prober
    \<Rightarrow> (tcp_header list \<times> link_log list \<times> prober) res option" where
  "prober_loop [] s = Some (Inr ([], [], s))"
| "prober_loop ((clock, h, es) # rs) s =
     (case send_group clock h s of (sent, s1) \<Rightarrow>
      case receive_group (nat group_size) es s1 of
        None \<Rightarrow> None
      | Some (Inl e) \<Rightarrow> Some (Inl e)
      | Some (Inr (l, s2)) \<Rightarrow> (case prober_loop rs s2 of
          None \<Rightarrow> None
        | Some r \<Rightarrow> Some (bindE r (\<lambda>(sent', l', s3). Inr (sent @ sent', l @ l', s3)))))"


section \<open>Measuring a group\<close>

lemma receive_group_filter:
  "receive_group n es s = receive_group n (filter (\<lambda>e. fst e \<noteq> None) es) s"
  by (induction n es s rule: receive_group.induct) (auto split: sum.splits)

definition group_ack :: "int \<Rightarrow> nat \<Rightarrow> tcp_header \<Rightarrow> bool" where
  "group_ack k i h \<longleftrightarrow> h_seq_num h = k * 30 + int i \<and> h_src_id h = 42 \<and> h_flow_id h = 0"

lemma group_number:
  assumes "0 \<le> k" and "i < 30"
  shows "(k * 30 + int i) sdiv 30 = k" and "(k * 30 + int i) smod 30 = int i"
  using assms by (simp_all add: signed_divide_int_def signed_modulo_int_def sgn_if)

text \<open>The state after the acknowledgements \<open>0, \<dots>, j - 1\<close> of group \<open>k\<close> arrived at the times \<open>t\<close>.\<close>

definition in_group :: "int \<Rightarrow> nat \<Rightarrow> (nat \<Rightarrow> real) \<Rightarrow> prober \<Rightarrow> prober" where
  "in_group k j t s = s\<lparr>cur_ack_group_number := k, num_received_in_group := int j,
     link_rate_accumulator := t (j - 1) - t 0, latest_ack_time_in_group := t (j - 1)\<rparr>"

lemma probe_ack_first:
  assumes "group_ack k 0 h" and "0 \<le> k" and "cur_ack_group_number s < k"
  shows "probe_ack (t 0) h s = Inr ([], in_group k 1 t s)"
  using assms group_number [of k 0] by (simp add: probe_ack_def group_ack_def in_group_def Let_def)

lemma probe_ack_next:
  assumes "group_ack k j h" and "0 \<le> k" and "1 \<le> j" and "j < 29"
  shows "probe_ack (t j) h (in_group k j t s) = Inr ([], in_group k (Suc j) t s)"
  using assms group_number [of k j]
  by (simp add: probe_ack_def group_ack_def in_group_def next_in_group_def Let_def)

lemma probe_ack_last:
  assumes "group_ack k 29 h" and "0 \<le> k" and "t 29 \<noteq> t 0"
  shows "\<exists>s'. probe_ack (t 29) h (in_group k 29 t s)
      = Inr ([\<lparr>log_time = t 29, log_rate = 1000 / ((t 29 - t 0) / 29), log_rtt = t 29 - h_sender_timestamp h\<rparr>], s')
    \<and> last_measured_link_rate s' = 1000 / ((t 29 - t 0) / 29) \<and> cur_ack_group_number s' = k \<and> num_received_in_group s' = 30
    \<and> pr_seq_num s' = pr_seq_num s"
proof -
  have "(29 + k * 30) sdiv 30 = k" "(29 + k * 30) smod 30 = 29"
    using group_number [OF assms(2), of 29] by (simp_all add: add.commute)
  then show ?thesis using assms(1,3)
    by (simp add: probe_ack_def group_ack_def in_group_def next_in_group_def group_measured_def Let_def add.commute)
qed

lemma receive_rest_of_group:
  assumes "\<And>i. i < 30 \<Longrightarrow> group_ack k i (h i)" and "0 \<le> k" and "t 29 \<noteq> t 0" and "1 \<le> j" and "j \<le> 29"
  shows "\<exists>s'. receive_group (30 - j) (map (\<lambda>i. (Some (h i), t i)) [j..<30]) (in_group k j t s)
      = Some (Inr ([\<lparr>log_time = t 29, log_rate = 1000 / ((t 29 - t 0) / 29), log_rtt = t 29 - h_sender_timestamp (h 29)\<rparr>], s'))
    \<and> last_measured_link_rate s' = 1000 / ((t 29 - t 0) / 29) \<and> cur_ack_group_number s' = k \<and> num_received_in_group s' = 30
    \<and> pr_seq_num s' = pr_seq_num s"
  using assms(5,4)
proof (induction j rule: inc_induct)
  case base
  then show ?case using probe_ack_last [OF assms(1) assms(2,3), of s] by (auto simp: upt_conv_Cons)
next
  case (step j)
  have "map (\<lambda>i. (Some (h i), t i)) [j..<30] = (Some (h j), t j) # map (\<lambda>i. (Some (h i), t i)) [Suc j..<30]"
    using step.hyps by (simp add: upt_conv_Cons)
  moreover have "30 - j = Suc (30 - Suc j)" using step.hyps by simp
  ultimately show ?case
    using step probe_ack_next [OF assms(1) assms(2), of j t s] by fastforce
qed

text \<open>
  C36. When the 30 acknowledgements of a new group arrive in order, with any number of timeouts between
  them, the prober logs one line: the rate of 29 packets in the time from the first acknowledgement to
  the last, and the time since the last packet was sent.
\<close>

theorem prober_measures_group:
  assumes "filter (\<lambda>e. fst e \<noteq> None) es = map (\<lambda>i. (Some (h i), t i)) [0..<30]"
    and "\<forall>i < 30. group_ack k i (h i)" and "0 \<le> k" and "cur_ack_group_number s < k" and "t 0 < t 29"
  shows "\<exists>s'. receive_group 30 es s
      = Some (Inr ([\<lparr>log_time = t 29, log_rate = 29 * 1000 / (t 29 - t 0), log_rtt = t 29 - h_sender_timestamp (h 29)\<rparr>], s'))
    \<and> last_measured_link_rate s' = 29 * 1000 / (t 29 - t 0) \<and> cur_ack_group_number s' = k \<and> pr_seq_num s' = pr_seq_num s"
proof -
  have "map (\<lambda>i. (Some (h i), t i)) [0..<30] = (Some (h 0), t 0) # map (\<lambda>i. (Some (h i), t i)) [1..<30]"
    by (simp add: upt_conv_Cons)
  then have start: "receive_group 30 es s = receive_group 30 ((Some (h 0), t 0) # map (\<lambda>i. (Some (h i), t i)) [1..<30]) s"
    using receive_group_filter [of 30 es s] assms(1) by simp
  have n: "(30 :: nat) = Suc 29" by simp
  have "probe_ack (t 0) (h 0) s = Inr ([], in_group k 1 t s)"
    using assms(2-4) by (intro probe_ack_first) auto
  moreover obtain s' where "receive_group 29 (map (\<lambda>i. (Some (h i), t i)) [1..<30]) (in_group k 1 t s)
      = Some (Inr ([\<lparr>log_time = t 29, log_rate = 1000 / ((t 29 - t 0) / 29), log_rtt = t 29 - h_sender_timestamp (h 29)\<rparr>], s'))"
    "last_measured_link_rate s' = 1000 / ((t 29 - t 0) / 29)" "cur_ack_group_number s' = k" "pr_seq_num s' = pr_seq_num s"
    using receive_rest_of_group [of k h t 1 s] assms(2,3,5) by auto
  ultimately show ?thesis unfolding start unfolding n receive_group.simps by simp
qed

definition sample_header :: "nat \<Rightarrow> tcp_header" where
  "sample_header i = \<lparr>h_seq_num = int i, h_flow_id = 0, h_src_id = 42, h_sender_timestamp = 2, h_tx_timestamp = 0,
     h_receiver_timestamp = 0, h_adjust_us = 0\<rparr>"

text \<open>A timeout, then an acknowledgement every two milliseconds: 500 packets a second.\<close>

theorem prober_measures_group_witness:
  "\<exists>s'. receive_group 30 ((None, 1) # map (\<lambda>i. (Some (sample_header i), 5 + 2 * real i)) [0..<30]) prober_init
    = Some (Inr ([\<lparr>log_time = 63, log_rate = 500, log_rtt = 61\<rparr>], s'))"
proof -
  let ?es = "(None, 1) # map (\<lambda>i. (Some (sample_header i), 5 + 2 * real i)) [0..<30]"
  have f: "filter (\<lambda>e. fst e \<noteq> None) ?es = map (\<lambda>i. (Some (sample_header i), 5 + 2 * real i)) [0..<30]"
    by (simp add: filter_map comp_def del: upt_Suc)
  have "\<exists>s'. receive_group 30 ?es prober_init
      = Some (Inr ([\<lparr>log_time = 5 + 2 * real 29, log_rate = 29 * 1000 / ((5 + 2 * real 29) - (5 + 2 * real 0)),
                     log_rtt = 5 + 2 * real 29 - h_sender_timestamp (sample_header 29)\<rparr>], s'))
    \<and> last_measured_link_rate s' = 29 * 1000 / ((5 + 2 * real 29) - (5 + 2 * real 0)) \<and> cur_ack_group_number s' = 0
    \<and> pr_seq_num s' = pr_seq_num prober_init"
    by (rule prober_measures_group [OF f]) (simp_all add: group_ack_def sample_header_def prober_init_def)
  then show ?thesis by (auto simp: sample_header_def)
qed

end
