(* ===== verification/Udp_Socket.thy ===== *)
theory Udp_Socket
  imports Prelude
begin

text \<open>
  Model of \<open>src/udp-socket.hh\<close> and \<open>src/udp-socket.cc\<close>. The operating system is a parameter: what
  \<open>bind\<close>, \<open>inet_aton\<close> and \<open>sendto\<close> return, and for a receive the outcomes of the calls of \<open>poll\<close> with the
  datagram that is delivered. A receive waits as long as the outcomes end with an interrupted call,
  then its result is \<open>None\<close>. Addresses of the network layer are a type variable. The messages on the
  error stream are left out.
\<close>


section \<open>State\<close>

record udp_socket =
  us_ipaddr :: string
  us_port :: int
  us_srcport :: int
  us_bound :: bool

definition UDPSocket :: "bool \<Rightarrow> udp_socket res" where
  "UDPSocket setsockopt_ok = bindE (guardE setsockopt_ok ExitFailure) (\<lambda>_.
     Inr \<lparr>us_ipaddr = [], us_port = 0, us_srcport = 0, us_bound = False\<rparr>)"

definition set_remote_ip :: "string \<Rightarrow> int \<Rightarrow> udp_socket \<Rightarrow> udp_socket" where
  "set_remote_ip remote_ip remote_port s = s\<lparr>us_ipaddr := remote_ip, us_port := remote_port\<rparr>"

text \<open>\<open>bindsocket\<close> to an address and a source port, 0 for any; \<open>bind_res\<close> is the result of \<open>bind\<close>.\<close>

definition bindsocket :: "string \<Rightarrow> int \<Rightarrow> int \<Rightarrow> int \<Rightarrow> udp_socket \<Rightarrow> int \<times> udp_socket" where
  "bindsocket s_ipaddr s_port sourceport bind_res s0 =
     (let s = s0\<lparr>us_ipaddr := s_ipaddr, us_port := s_port, us_srcport := sourceport\<rparr> in
      if sourceport = 0 then (0, s\<lparr>us_bound := True\<rparr>)
      else if bind_res < 0 then (- 1, s) else (0, s\<lparr>us_bound := True\<rparr>))"

definition bindsocket_port :: "int \<Rightarrow> int \<Rightarrow> udp_socket \<Rightarrow> int \<times> udp_socket" where
  "bindsocket_port s_port bind_res s0 =
     (let s = s0\<lparr>us_ipaddr := [], us_port := s_port\<rparr> in
      if bind_res \<noteq> 0 then (- 1, s) else (0, s\<lparr>us_bound := True\<rparr>))"


section \<open>Sending\<close>

text \<open>
  A destination is a port and an address; \<open>inet_aton\<close> is \<open>None\<close> when it cannot read the address, and then
  the destination keeps the zeros of \<open>memset\<close>, \<open>any_addr\<close>. The result is what \<open>sendto\<close> returns.
\<close>

definition senddata :: "(string \<Rightarrow> 'a option) \<Rightarrow> 'a \<Rightarrow> (u8 list \<Rightarrow> int \<times> 'a \<Rightarrow> int) \<Rightarrow> u8 list \<Rightarrow> (int \<times> 'a) option
    \<Rightarrow> udp_socket \<Rightarrow> int res" where
  "senddata inet_aton any_addr sendto data s_dest_addr s =
     bindE (case s_dest_addr of
              None \<Rightarrow> bindE (guardE (us_bound s) AssertFailed) (\<lambda>_.
                Inr (us_port s, case inet_aton (us_ipaddr s) of None \<Rightarrow> any_addr | Some a \<Rightarrow> a))
            | Some dest \<Rightarrow> Inr dest) (\<lambda>dest_addr.
     let r = sendto data dest_addr in Inr (if r = - 1 then - 1 else r))"

definition senddata_to :: "(string \<Rightarrow> 'a option) \<Rightarrow> 'a \<Rightarrow> (u8 list \<Rightarrow> int \<times> 'a \<Rightarrow> int) \<Rightarrow> u8 list \<Rightarrow> string \<Rightarrow> int
    \<Rightarrow> udp_socket \<Rightarrow> int res" where
  "senddata_to inet_aton any_addr sendto data dest_ip dest_port s =
     senddata inet_aton any_addr sendto data
       (Some (dest_port, case inet_aton dest_ip of None \<Rightarrow> any_addr | Some a \<Rightarrow> a)) s"


section \<open>Receiving\<close>

text \<open>
  A call of \<open>poll\<close>, and what \<open>recvfrom\<close> or \<open>recvmsg\<close> deliver when the socket is readable: \<open>None\<close> for an
  error, or a datagram, its sender and the time stamp of the kernel (\<open>None\<close> when it is missing).
\<close>

record 'a os_receive =
  os_poll_val :: int
  os_errno :: int
  os_pollin :: bool
  os_datagram :: "(u8 list \<times> (int \<times> 'a) \<times> (int \<times> int) option) option"

record 'a receive_state =
  rs_buffer :: "u8 list"
  rs_other_addr :: "int \<times> 'a"
  rs_timestamp :: u64

text \<open>The system truncates the datagram to \<open>bufsize\<close>; the number of bytes stored is the result.\<close>

definition store_datagram :: "nat \<Rightarrow> u8 list \<Rightarrow> int \<times> 'a \<Rightarrow> 'a receive_state \<Rightarrow> (int \<times> 'a receive_state) res" where
  "store_datagram bufsize d from s =
     (let stored = take bufsize d in
      bindE (guardE (length stored \<le> length (rs_buffer s)) OutOfBounds) (\<lambda>_.
      Inr (int (length stored), s\<lparr>rs_buffer := stored @ drop (length stored) (rs_buffer s), rs_other_addr := from\<rparr>)))"

definition terminate :: "int \<Rightarrow> 'a receive_state \<Rightarrow> (int \<times> 'a receive_state) res" where
  "terminate r s = bindE (aset (rs_buffer s) r 0) (\<lambda>b. Inr (r, s\<lparr>rs_buffer := b\<rparr>))"

definition readable :: "nat \<Rightarrow> 'a os_receive \<Rightarrow> 'a receive_state \<Rightarrow> (int \<times> 'a receive_state) res" where
  "readable bufsize p s =
     bindE (case os_datagram p of None \<Rightarrow> Inr (- 1, s) | Some (d, from, ts) \<Rightarrow> store_datagram bufsize d from s)
     (\<lambda>(r, s1). terminate r s1)"

fun receivedata :: "nat \<Rightarrow> udp_socket \<Rightarrow> 'a os_receive list \<Rightarrow> 'a receive_state \<Rightarrow> (int \<times> 'a receive_state) res option" where
  "receivedata bufsize s [] r = None"
| "receivedata bufsize s (p # ps) r =
     (if \<not> us_bound s then Some (Inl AssertFailed)
      else if os_poll_val p = 1 then if os_pollin p then Some (readable bufsize p r) else Some (Inr (- 1, r))
      else if os_poll_val p = 0 then Some (Inr (0, r))
      else if os_poll_val p = - 1
      then if os_errno p = 4 then receivedata bufsize s ps r else Some (Inr (- 1, r))
      else Some (Inl AssertFailed))"

abbreviation CONTROL_BUF_SIZE :: nat where "CONTROL_BUF_SIZE \<equiv> 2048"

definition recv_msg_from_sock :: "nat \<Rightarrow> 'a os_receive \<Rightarrow> 'a receive_state \<Rightarrow> (int \<times> 'a receive_state) res" where
  "recv_msg_from_sock bufsize p s =
     (case os_datagram p of
        None \<Rightarrow> Inr (- 1, s)
      | Some (d, from, ts) \<Rightarrow> bindE (store_datagram bufsize d from s) (\<lambda>(r, s1).
          if r > int CONTROL_BUF_SIZE then Inl ExitFailure
          else case ts of
            None \<Rightarrow> Inl AssertFailed
          | Some (sec, nsec) \<Rightarrow> Inr (r, s1\<lparr>rs_timestamp := of_int (sec * 1000000000 + nsec)\<rparr>)))"

text \<open>After an interrupted call the rest is done by \<open>receivedata\<close>.\<close>

fun receivedata_w_time :: "nat \<Rightarrow> udp_socket \<Rightarrow> 'a os_receive list \<Rightarrow> 'a receive_state
    \<Rightarrow> (int \<times> 'a receive_state) res option" where
  "receivedata_w_time bufsize s [] r = None"
| "receivedata_w_time bufsize s (p # ps) r =
     (if \<not> us_bound s then Some (Inl AssertFailed)
      else if os_poll_val p = 1
      then if os_pollin p then Some (bindE (recv_msg_from_sock bufsize p r) (\<lambda>(n, r1). terminate n r1))
           else Some (Inr (- 1, r))
      else if os_poll_val p = 0 then Some (Inr (0, r))
      else if os_poll_val p = - 1
      then if os_errno p = 4 then receivedata bufsize s ps r else Some (Inr (- 1, r))
      else Some (Inl AssertFailed))"


section \<open>What a receive does\<close>

definition interrupted :: "'a os_receive \<Rightarrow> bool" where
  "interrupted p \<longleftrightarrow> os_poll_val p = - 1 \<and> os_errno p = 4"

definition delivers_datagram :: "'a os_receive \<Rightarrow> u8 list \<Rightarrow> int \<times> 'a \<Rightarrow> int \<times> int \<Rightarrow> bool" where
  "delivers_datagram p d from ts \<longleftrightarrow> os_poll_val p = 1 \<and> os_pollin p \<and> os_datagram p = Some (d, from, Some ts)"

lemma store_short:
  "length (rs_buffer r) = bufsize \<Longrightarrow> length d < bufsize \<Longrightarrow> store_datagram bufsize d from r
    = Inr (int (length d), r\<lparr>rs_buffer := d @ drop (length d) (rs_buffer r), rs_other_addr := from\<rparr>)"
  by (simp add: store_datagram_def guardE_def Let_def)

lemma store_full:
  "length (rs_buffer r) = bufsize \<Longrightarrow> \<not> length d < bufsize \<Longrightarrow> store_datagram bufsize d from r
    = Inr (int bufsize, r\<lparr>rs_buffer := take bufsize d, rs_other_addr := from\<rparr>)"
  by (simp add: store_datagram_def guardE_def Let_def)

lemma terminate_short:
  "rs_buffer x = d @ y # ys \<Longrightarrow> terminate (int (length d)) x = Inr (int (length d), x\<lparr>rs_buffer := d @ 0 # ys\<rparr>)"
  by (simp add: terminate_def aset_def list_update_append)

lemma terminate_full: "length (rs_buffer x) = n \<Longrightarrow> terminate (int n) x = Inl OutOfBounds"
  by (simp add: terminate_def aset_def)

lemma drop_Cons_nth: "n < length xs \<Longrightarrow> drop n xs = xs ! n # drop (n + 1) xs"
  by (simp add: Cons_nth_drop_Suc)

lemma receivedata_interrupted:
  assumes "us_bound s" and "\<forall>p \<in> set ps. interrupted p" and "delivers_datagram q d from ts"
  shows "receivedata bufsize s (ps @ [q]) r = Some (bindE (store_datagram bufsize d from r) (\<lambda>(n, r1). terminate n r1))"
  using assms by (induction ps) (auto simp: interrupted_def delivers_datagram_def readable_def)

text \<open>
  C37. A datagram of at most 2048 bytes that arrives after any number of interrupted calls: if it is shorter
  than the buffer, it is stored with a terminating zero, and its length, its sender and its time
  stamp are returned, but the time stamp only if no call was interrupted. If it fills the buffer, the zero
  is written behind the buffer.
\<close>

theorem receivedata_w_time_outcome:
  assumes "us_bound s" and "\<forall>p \<in> set ps. interrupted p" and "delivers_datagram q d from (sec, nsec)"
    and "length (rs_buffer r) = bufsize" and "min (length d) bufsize \<le> 2048"
  shows "receivedata_w_time bufsize s (ps @ [q]) r =
    Some (if length d < bufsize
          then Inr (int (length d), r\<lparr>rs_buffer := d @ 0 # drop (length d + 1) (rs_buffer r), rs_other_addr := from,
                      rs_timestamp := (if ps = [] then of_int (sec * 1000000000 + nsec) else rs_timestamp r)\<rparr>)
          else Inl OutOfBounds)"
proof (cases "length d < bufsize")
  case True
  have dr: "drop (length d) (rs_buffer r) = rs_buffer r ! length d # drop (length d + 1) (rs_buffer r)"
    using True assms(4) by (intro drop_Cons_nth) simp
  have le: "length d \<le> 2048" using True assms(5) by simp
  have st: "store_datagram bufsize d from r
      = Inr (int (length d), r\<lparr>rs_buffer := d @ rs_buffer r ! length d # drop (length d + 1) (rs_buffer r), rs_other_addr := from\<rparr>)"
    using store_short [OF assms(4) True] dr by simp
  show ?thesis
  proof (cases ps)
    case Nil
    then show ?thesis using True le st assms(1,3)
      by (simp add: delivers_datagram_def recv_msg_from_sock_def terminate_short)
  next
    case (Cons p ps')
    then show ?thesis using True st assms(1,2) receivedata_interrupted [OF assms(1) _ assms(3), of ps' bufsize r]
      by (simp add: interrupted_def terminate_short)
  qed
next
  case False
  have le: "bufsize \<le> 2048" using False assms(5) by simp
  note st = store_full [OF assms(4) False, of "from"]
  show ?thesis
  proof (cases ps)
    case Nil
    then show ?thesis using False le st assms(1,3)
      by (simp add: delivers_datagram_def recv_msg_from_sock_def terminate_full)
  next
    case (Cons p ps')
    then show ?thesis using False st assms(1,2) receivedata_interrupted [OF assms(1) _ assms(3), of ps' bufsize r]
      by (simp add: interrupted_def terminate_full)
  qed
qed

definition sample_receive :: "int \<Rightarrow> int os_receive" where
  "sample_receive v = \<lparr>os_poll_val = v, os_errno = 4, os_pollin = True, os_datagram = Some ([7, 8], (9004, 1), Some (2, 5))\<rparr>"

definition bound_socket :: udp_socket where
  "bound_socket = snd (bindsocket_port 9004 0 \<lparr>us_ipaddr = [], us_port = 0, us_srcport = 0, us_bound = False\<rparr>)"

theorem receivedata_w_time_outcome_witness:
  "receivedata_w_time 4 bound_socket ([sample_receive (- 1)] @ [sample_receive 1])
      \<lparr>rs_buffer = [1, 1, 1, 1], rs_other_addr = (0, 0), rs_timestamp = 77\<rparr>
    = Some (Inr (2, \<lparr>rs_buffer = [7, 8, 0, 1], rs_other_addr = (9004, 1), rs_timestamp = 77\<rparr>))"
  using receivedata_w_time_outcome [of bound_socket "[sample_receive (- 1)]" "sample_receive 1" "[7, 8]" "(9004, 1)" 2 5
      "\<lparr>rs_buffer = [1, 1, 1, 1], rs_other_addr = (0, 0), rs_timestamp = 77\<rparr>" 4]
  by (simp add: bound_socket_def bindsocket_port_def interrupted_def delivers_datagram_def sample_receive_def)

text \<open>Sending to the default destination is refused by an assertion until the socket is bound; setting the address does not bind it.\<close>

theorem senddata_needs_binding:
  "senddata aton any_addr sendto data None (set_remote_ip ip p s) =
    (if us_bound s then Inr (sendto data (p, case aton ip of None \<Rightarrow> any_addr | Some a \<Rightarrow> a)) else Inl AssertFailed)"
  by (simp add: senddata_def set_remote_ip_def guardE_def Let_def)

end
