(* ===== verification/Backup_Sync.thy ===== *)
theory Backup_Sync
  imports Ngscope_Util
begin

text \<open>
  Model of \<open>src/backup/ngscope_sync.cc\<close>, the earlier synchronisation of control messages and packets:
  the search for the clock offset over a grid, the scans of the ring of control messages, and the
  correction of the packet delays by the sizes of the retransmitted blocks. The header that declares
  its packet list is not in the repository: a node is the record of the fields that the code reads,
  with the types of the variables they are copied to.
\<close>

abbreviation RING_LOG :: int where "RING_LOG \<equiv> 500"

abbreviation SYNC_DELAY_THD :: int where "SYNC_DELAY_THD \<equiv> 7"

abbreviation DELAY_DIFF_THD :: int where "DELAY_DIFF_THD \<equiv> 1400"


section \<open>The ring of control messages\<close>

record sync_dci_t =
  sd_time_stamp :: u64
  sd_tbs :: u32
  sd_reTx :: u8
  sd_tti :: u16

definition scan_end :: "int \<Rightarrow> int \<Rightarrow> int" where
  "scan_end start_idx header = (if header < start_idx then header + RING_LOG else header)"

fun not_handled_loop :: "sync_dci_t list \<Rightarrow> int list \<Rightarrow> bool res" where
  "not_handled_loop dci_vec [] = Inr False"
| "not_handled_loop dci_vec (i # is) =
     bindE (aget dci_vec (i smod RING_LOG)) (\<lambda>d. if sd_reTx d > 0 then Inr True else not_handled_loop dci_vec is)"

definition ngscope_sync_reTx_not_handled :: "sync_dci_t list \<Rightarrow> int \<Rightarrow> int \<Rightarrow> bool res" where
  "ngscope_sync_reTx_not_handled dci_vec last_reTx_idx header =
     (let start_idx = last_reTx_idx + 1
      in not_handled_loop dci_vec (range_int start_idx (scan_end start_idx header)))"

text \<open>The result and the index written to \<open>*curr_reTx_idx\<close>.\<close>

fun ring_reTx_loop :: "sync_dci_t list \<Rightarrow> int list \<Rightarrow> int \<Rightarrow> (bool \<times> int) res" where
  "ring_reTx_loop dci_vec [] cur = Inr (False, cur)"
| "ring_reTx_loop dci_vec (i # is) cur =
     (let idx = i smod RING_LOG
      in bindE (aget dci_vec idx) (\<lambda>d. if sd_reTx d > 0 then Inr (True, idx) else ring_reTx_loop dci_vec is idx))"

definition ngscope_sync_new_reTx :: "sync_dci_t list \<Rightarrow> int \<Rightarrow> int \<Rightarrow> int \<Rightarrow> int \<Rightarrow> (bool \<times> int) res" where
  "ngscope_sync_new_reTx dci_vec last_reTx_idx curr_reTx_idx header nof_dci =
     (if last_reTx_idx = header \<or> last_reTx_idx + 1 = header \<or> nof_dci < RING_LOG
      then Inr (False, last_reTx_idx)
      else let start_idx = last_reTx_idx + 1
           in ring_reTx_loop dci_vec (range_int start_idx (scan_end start_idx header)) curr_reTx_idx)"

definition ngscope_sync_extract_data_from_dci :: "sync_dci_t list \<Rightarrow> int \<Rightarrow> int \<Rightarrow>
    (u64 list \<times> u8 list \<times> u32 list \<times> u16 list) res" where
  "ngscope_sync_extract_data_from_dci dci_vec header nof_dci =
     for_each (\<lambda>i (recv_t_us, reTx, tbs, tti).
         bindE (aget dci_vec ((header + i) smod RING_LOG)) (\<lambda>d.
         Inr (recv_t_us @ [sd_time_stamp d], reTx @ [sd_reTx d], tbs @ [sd_tbs d], tti @ [sd_tti d])))
       (range_int 0 nof_dci) ([], [], [], [])"


section \<open>Blocks and their retransmissions\<close>

definition idx_in_circle :: "int \<Rightarrow> int" where
  "idx_in_circle idx = (idx + RING_LOG) smod RING_LOG"

text \<open>Three rounds of eight subframes back; the block size of the retransmission is filled in.\<close>

fun ori_loop :: "u8 list \<Rightarrow> u32 list \<Rightarrow> int \<Rightarrow> nat \<Rightarrow> int \<Rightarrow> (int \<times> u32 list) res" where
  "ori_loop reTx tbs idx 0 tmp_idx = Inr (tmp_idx, tbs)"
| "ori_loop reTx tbs idx (Suc k) tmp_idx =
     bindE (aget reTx tmp_idx) (\<lambda>r.
     if r = 0 then
       bindE (aget tbs idx) (\<lambda>b.
       if b = 0 then bindE (aget tbs tmp_idx) (\<lambda>v. bindE (aset tbs idx v) (\<lambda>tbs'. Inr (tmp_idx, tbs')))
       else Inr (tmp_idx, tbs))
     else ori_loop reTx tbs idx k (idx_in_circle (tmp_idx - 8)))"

definition find_ori_tx_subf :: "u8 list \<Rightarrow> u32 list \<Rightarrow> int \<Rightarrow> (int \<times> u32 list) res" where
  "find_ori_tx_subf reTx tbs idx = ori_loop reTx tbs idx 3 (idx_in_circle (idx - 8))"

definition unrolled_end :: "int \<Rightarrow> int \<Rightarrow> int" where
  "unrolled_end s_idx e_idx = (if e_idx < s_idx then e_idx + RING_LOG else e_idx)"

definition update_ori :: "u8 list \<Rightarrow> int \<Rightarrow> int \<Rightarrow> int res" where
  "update_ori reTx s_idx e_idx =
     for_each (\<lambda>i updated_ori. let idx = idx_in_circle i
         in bindE (aget reTx idx) (\<lambda>r. Inr (if r > 0 then idx else updated_ori)))
       (range_int (s_idx + 1) (unrolled_end s_idx e_idx)) s_idx"

definition circular_sum_tbs :: "u32 list \<Rightarrow> int \<Rightarrow> int \<Rightarrow> u32 res" where
  "circular_sum_tbs tbs s_idx e_idx =
     for_each (\<lambda>i tbs_sum. bindE (aget tbs (idx_in_circle i)) (\<lambda>b. Inr (tbs_sum + b)))
       (range_int (s_idx + 1) (unrolled_end s_idx e_idx + 1)) 0"

definition circular_a_larger_b :: "u16 \<Rightarrow> u16 \<Rightarrow> bool" where
  "circular_a_larger_b a b =
     (let diff = \<bar>uint a - uint b\<bar>
      in if diff \<ge> 4 * RING_LOG then (if a > b then False else True) else (if a > b then True else False))"

fun ith_reTx_loop :: "u8 list \<Rightarrow> u16 list \<Rightarrow> u16 \<Rightarrow> int \<Rightarrow> int list \<Rightarrow> int \<Rightarrow> int res" where
  "ith_reTx_loop reTx tti last_tti index [] cnt = Inr (- 1)"
| "ith_reTx_loop reTx tti last_tti index (i # is) cnt =
     bindE (aget reTx i) (\<lambda>r.
     bindE (if r > 0 then bindE (aget tti i) (\<lambda>t. Inr (circular_a_larger_b t last_tti)) else Inr False) (\<lambda>later.
     if later then (if cnt + 1 = index then Inr i else ith_reTx_loop reTx tti last_tti index is (cnt + 1))
     else ith_reTx_loop reTx tti last_tti index is cnt))"

definition find_i_th_reTx :: "u8 list \<Rightarrow> u16 list \<Rightarrow> int \<Rightarrow> int \<Rightarrow> int \<Rightarrow> int res" where
  "find_i_th_reTx reTx tti last_reTx_tti nof_dci index =
     ith_reTx_loop reTx tti (of_int last_reTx_tti) index (range_int 0 nof_dci) 0"


section \<open>The clock offset\<close>

definition sync_get_nof_reTx_pkt :: "int list \<Rightarrow> int \<Rightarrow> int res" where
  "sync_get_nof_reTx_pkt delay_diff_ms list_len =
     for_each (\<lambda>i cnt. bindE (aget delay_diff_ms i) (\<lambda>d. Inr (if d \<ge> SYNC_DELAY_THD then cnt + 1 else cnt)))
       (range_int 0 list_len) 0"

definition get_nof_reTx_dci :: "u8 list \<Rightarrow> int res" where
  "get_nof_reTx_dci dci_reTx =
     for_each (\<lambda>i cnt. bindE (aget dci_reTx i) (\<lambda>r. Inr (if r > 0 then cnt + 1 else cnt)))
       (range_int 0 RING_LOG) 0"

text \<open>
  The allocated array is as long as the number of matches; the second pass writes as many, so the
  result is the list of the written elements, whose length is \<open>*nof_pkt\<close> and \<open>*nof_dci\<close>.
\<close>

definition sync_extract_reTx_from_pkt :: "int list \<Rightarrow> u64 list \<Rightarrow> int \<Rightarrow> u64 list res" where
  "sync_extract_reTx_from_pkt delay_diff_ms recv_t_us list_len =
     for_each (\<lambda>i out. bindE (aget delay_diff_ms i) (\<lambda>d.
         if d \<ge> SYNC_DELAY_THD then bindE (aget recv_t_us i) (\<lambda>t. Inr (out @ [t])) else Inr out))
       (range_int 0 list_len) []"

definition extract_reTx_from_dci :: "u8 list \<Rightarrow> u64 list \<Rightarrow> int \<Rightarrow> u64 list res" where
  "extract_reTx_from_dci dci_reTx dci_recv_t_us nof_log_dci =
     for_each (\<lambda>i out. bindE (aget dci_reTx i) (\<lambda>r.
         if r > 0 then bindE (aget dci_recv_t_us i) (\<lambda>t. Inr (out @ [t])) else Inr out))
       (range_int 0 nof_log_dci) []"

text \<open>The common span of two vectors and how many elements of each it holds; \<open>None\<close> is \<open>- 1\<close>.\<close>

definition in_span :: "u64 \<Rightarrow> u64 \<Rightarrow> u64 \<Rightarrow> bool" where
  "in_span start_t end_t t \<longleftrightarrow> t \<ge> start_t \<and> t \<le> end_t"

definition find_vec_interset_time :: "u64 list \<Rightarrow> u64 list \<Rightarrow> (u64 \<times> u64 \<times> int \<times> int) option" where
  "find_vec_interset_time t1_in t2_in =
     (if t1_in = [] \<or> t2_in = [] then None
      else let t1_start = hd t1_in; t1_end = last t1_in; t2_start = hd t2_in; t2_end = last t2_in
        in if t1_start > t2_end \<or> t2_start > t1_end then None
           else let end_t = (if t2_end \<le> t1_end then t2_end else t1_end);
                    start_t = (if t2_start > t1_start then t2_start else t1_start)
             in Some (start_t, end_t, int (length (filter (in_span start_t end_t) t1_in)),
                      int (length (filter (in_span start_t end_t) t2_in))))"

text \<open>The array that \<open>cut_vec_with_time_edge\<close> allocates is held as the part it has written.\<close>

definition cut_vec_with_time_edge :: "u64 list \<Rightarrow> u64 \<Rightarrow> u64 \<Rightarrow> int \<Rightarrow> u64 list res" where
  "cut_vec_with_time_edge t_in start_t end_t nof_out =
     for_each (\<lambda>t t_out. if in_span start_t end_t t
         then bindE (guardE (int (length t_out) < nof_out) OutOfBounds) (\<lambda>_. Inr (t_out @ [t]))
         else Inr t_out)
       t_in []"

text \<open>The inner loop of the distance: a packet before the first message counts nothing.\<close>

fun min_offset_loop :: "u64 \<Rightarrow> int \<Rightarrow> u64 list \<Rightarrow> int \<Rightarrow> int \<Rightarrow> int" where
  "min_offset_loop pkt_t offset_us [] j min_offset = min_offset"
| "min_offset_loop pkt_t offset_us (dci_t # ds) j min_offset =
     (if j = 0 \<and> pkt_t < dci_t then min_offset
      else let delay_diff = int_of_long \<bar>long_of pkt_t - long_of (dci_t + of_int offset_us)\<bar>;
               m = (if j = 0 then delay_diff else min_offset)
        in min_offset_loop pkt_t offset_us ds (j + 1) (if delay_diff < m then delay_diff else m))"

definition match_dci_pkt_delay_w_offset :: "u64 list \<Rightarrow> u64 list \<Rightarrow> int \<Rightarrow> int" where
  "match_dci_pkt_delay_w_offset dci_t_us pkt_t_us offset_us =
     foldl (\<lambda>delay_sum p. delay_sum + min_offset_loop p offset_us dci_t_us 0 0) 0 pkt_t_us"

fun min_vec_loop :: "int list \<Rightarrow> int \<Rightarrow> int \<Rightarrow> int \<Rightarrow> int" where
  "min_vec_loop [] i min_v min_i = min_i"
| "min_vec_loop (v # vs) i min_v min_i =
     (if v < min_v then min_vec_loop vs (i + 1) v i else min_vec_loop vs (i + 1) min_v min_i)"

definition min_in_vec :: "int list \<Rightarrow> int res" where
  "min_in_vec vec = bindE (aget vec 0) (\<lambda>v0. Inr (min_vec_loop vec 0 v0 0))"

definition offset_grid :: "int list" where
  "offset_grid = map (\<lambda>i. (i - 100) * 100) (range_int 0 201)"

definition ngscope_sync_dci_delay :: "int list \<Rightarrow> u64 list \<Rightarrow> int \<Rightarrow> u8 list \<Rightarrow> u64 list \<Rightarrow> int \<Rightarrow> int res" where
  "ngscope_sync_dci_delay delay_diff_ms recv_t_us list_len dci_reTx dci_recv_t_us nof_log_dci =
     bindE (sync_extract_reTx_from_pkt delay_diff_ms recv_t_us list_len) (\<lambda>pkt_reTx_recv_t_us.
     bindE (extract_reTx_from_dci dci_reTx dci_recv_t_us nof_log_dci) (\<lambda>dci_reTx_recv_t_us.
     if pkt_reTx_recv_t_us = [] \<or> dci_reTx_recv_t_us = [] then Inr (- 1)
     else case find_vec_interset_time dci_reTx_recv_t_us pkt_reTx_recv_t_us of
       None \<Rightarrow> Inr 0
     | Some (start_t, end_t, nof_dci, nof_pkt) \<Rightarrow>
         bindE (cut_vec_with_time_edge dci_reTx_recv_t_us start_t end_t nof_dci) (\<lambda>dci_t_us.
         bindE (cut_vec_with_time_edge pkt_reTx_recv_t_us start_t end_t nof_pkt) (\<lambda>pkt_t_us.
         bindE (min_in_vec (map (match_dci_pkt_delay_w_offset dci_t_us pkt_t_us) offset_grid)) (\<lambda>min_idx.
         aget offset_grid min_idx)))))"

text \<open>A debugging aid that shifts both vectors to start at zero.\<close>

definition sync_2_recv_t :: "u64 list \<Rightarrow> u64 list \<Rightarrow> (u64 list \<times> u64 list) res" where
  "sync_2_recv_t dci_recv_t_us pkt_recv_t_us =
     bindE (aget dci_recv_t_us 0) (\<lambda>d0. bindE (aget pkt_recv_t_us 0) (\<lambda>p0.
     let delay_anchor = (if d0 > p0 then p0 else d0)
     in Inr (map (\<lambda>t. t - delay_anchor) dci_recv_t_us, map (\<lambda>t. t - delay_anchor) pkt_recv_t_us)))"


section \<open>The packets\<close>

record sync_node =
  sn_sequence_number :: u32
  sn_recv_len :: int
  sn_oneway_us :: u64
  sn_recv_t_us :: u64
  sn_oneway_us_new :: u64
  sn_revert_flag :: bool

text \<open>Both loops over the nodes keep the least delay; the first element starts it.\<close>

definition min_delay_of :: "sync_node list \<Rightarrow> u64 \<Rightarrow> u64" where
  "min_delay_of ps min_delay =
     foldl (\<lambda>m p. if sn_oneway_us p < m then sn_oneway_us p else m) min_delay ps"

definition revert_last_pkt_reTx :: "sync_node list \<Rightarrow> int \<Rightarrow> (int \<times> sync_node list) res" where
  "revert_last_pkt_reTx ps tbs =
     (if ps = [] then Inl NullDeref
      else let min_delay = min_delay_of ps (sn_oneway_us (hd ps));
               (tbs_sum, ps') =
                 (if tbs > 0 then (tbs - sn_recv_len (last ps) * 8,
                     butlast ps @ [(last ps)\<lparr>sn_oneway_us_new := min_delay\<rparr>])
                  else (tbs, ps))
        in Inr (if tbs_sum < 0 then 0 else tbs_sum, ps'))"

text \<open>The gaps before the matched packet decide where its burst starts.\<close>

fun burst_loop :: "int \<Rightarrow> u32 list \<Rightarrow> u64 list \<Rightarrow> int list \<Rightarrow> u32 res" where
  "burst_loop index pkt_seq_vec recv_t_diff [] = aget pkt_seq_vec (index - 3)"
| "burst_loop index pkt_seq_vec recv_t_diff (i # is) =
     bindE (aget recv_t_diff (index - i)) (\<lambda>g.
     if g < 1000 then burst_loop index pkt_seq_vec recv_t_diff is
     else if g > 6000 then aget pkt_seq_vec (index - i)
     else aget pkt_seq_vec index)"

definition confirm_start_of_pkt_burst :: "int \<Rightarrow> u32 list \<Rightarrow> u64 list \<Rightarrow> u32 res" where
  "confirm_start_of_pkt_burst index pkt_seq_vec recv_t_diff =
     (if index < 4 then aget pkt_seq_vec index
      else burst_loop index pkt_seq_vec recv_t_diff (range_int 0 4))"

text \<open>The state of the first loop of \<open>match_reTx_pkt_in_time\<close>.\<close>

record match_scan =
  ms_min_delay :: u64
  ms_min_delay_diff :: u64
  ms_delay_of_matched :: u64
  ms_matched_idx :: int
  ms_recent :: u64
  ms_recv_anchor :: u64
  ms_seq_vec :: "u32 list"
  ms_recv_diff :: "u64 list"

definition match_scan_step :: "int \<Rightarrow> u64 \<Rightarrow> sync_node \<Rightarrow> match_scan \<Rightarrow> match_scan res" where
  "match_scan_step nof_pkt timestamp p m =
     (let cnt = int (length (ms_seq_vec m));
          delay_diff = int_of_long \<bar>long_of (sn_recv_t_us p - timestamp)\<bar>;
          m1 = (if delay_diff < long_of (ms_min_delay_diff m)
                then m\<lparr>ms_min_delay_diff := of_int delay_diff, ms_delay_of_matched := sn_oneway_us p,
                       ms_matched_idx := cnt\<rparr> else m);
          m2 = (if sn_oneway_us p < ms_min_delay m1 then m1\<lparr>ms_min_delay := sn_oneway_us p\<rparr> else m1)
      in bindE (guardE (cnt < nof_pkt + 5) OutOfBounds) (\<lambda>_.
         Inr (m2\<lparr>ms_recent := sn_recv_t_us p,
                 ms_seq_vec := ms_seq_vec m2 @ [sn_sequence_number p],
                 ms_recv_diff := ms_recv_diff m2 @ [of_int \<bar>long_of (sn_recv_t_us p - ms_recv_anchor m2)\<bar>],
                 ms_recv_anchor := sn_recv_t_us p\<rparr>)))"

text \<open>The result, \<open>*seq\<close>, \<open>*delay\<close> and \<open>*delay_to_recent\<close>.\<close>

definition match_reTx_pkt_in_time ::
  "sync_node list \<Rightarrow> int \<Rightarrow> u64 \<Rightarrow> (bool \<times> u32 \<times> u64 \<times> int) res" where
  "match_reTx_pkt_in_time ps nof_pkt timestamp =
     (if ps = [] then Inl NullDeref
      else let p = hd ps in
        bindE (for_each (match_scan_step nof_pkt timestamp) ps
                 \<lparr>ms_min_delay = sn_oneway_us p,
                  ms_min_delay_diff = of_int \<bar>int_of_u64 (sn_recv_t_us p - timestamp)\<bar>,
                  ms_delay_of_matched = 0, ms_matched_idx = - 1, ms_recent = 0,
                  ms_recv_anchor = sn_recv_t_us p, ms_seq_vec = [], ms_recv_diff = []\<rparr>) (\<lambda>m.
        let delay_to_recent = long_of (ms_recent m - timestamp)
        in if ms_min_delay_diff m < of_int DELAY_DIFF_THD
           then bindE (confirm_start_of_pkt_burst (ms_matched_idx m) (ms_seq_vec m) (ms_recv_diff m)) (\<lambda>seq.
                Inr (True, seq, ms_delay_of_matched m - 8000, delay_to_recent))
           else Inr (False, 0, ms_min_delay m, delay_to_recent)))"

text \<open>The second loop: from the matched packet on, until the block is used up.\<close>

definition revert_node :: "u64 \<Rightarrow> int \<Rightarrow> sync_node \<Rightarrow> int \<times> sync_node" where
  "revert_node min_delay tbs_sum p =
     (if \<not> sn_revert_flag p
      then (tbs_sum - sn_recv_len p * 8, p\<lparr>sn_oneway_us_new := min_delay, sn_revert_flag := True\<rparr>)
      else (tbs_sum, p))"

fun revert_nodes :: "u32 \<Rightarrow> u64 \<Rightarrow> bool \<Rightarrow> int \<Rightarrow> sync_node list \<Rightarrow> int \<times> sync_node list" where
  "revert_nodes pkt_seq min_delay revert_flag tbs_sum [] = (tbs_sum, [])"
| "revert_nodes pkt_seq min_delay revert_flag tbs_sum (p # ps) =
     (let started = (if sn_sequence_number p = pkt_seq \<and> \<not> revert_flag then True else revert_flag);
          (tbs', p') = (if started then revert_node min_delay tbs_sum p else (tbs_sum, p))
      in if tbs' \<le> 0 then (tbs', p' # ps)
         else let (tbs'', ps') = revert_nodes pkt_seq min_delay started tbs' ps in (tbs'', p' # ps'))"

definition revert_pkt_delay_vec :: "sync_node list \<Rightarrow> u32 \<Rightarrow> u64 \<Rightarrow> int \<Rightarrow> int \<times> sync_node list" where
  "revert_pkt_delay_vec ps pkt_seq min_delay tbs =
     (let (tbs_sum, ps') = revert_nodes pkt_seq min_delay False tbs ps
      in (if tbs_sum < 0 then 0 else tbs_sum, ps'))"

definition nearest_seq_step :: "u64 \<Rightarrow> u64 \<times> u32 \<Rightarrow> sync_node \<Rightarrow> u64 \<times> u32" where
  "nearest_seq_step timestamp acc p =
     (let delay_diff = \<bar>int_of_u64 (sn_recv_t_us p - timestamp)\<bar>
      in if delay_diff < long_of (fst acc) then (of_int delay_diff, sn_sequence_number p) else acc)"

definition match_and_revert_pkt_reTx :: "sync_node list \<Rightarrow> u64 \<Rightarrow> int \<Rightarrow> (int \<times> sync_node list) res" where
  "match_and_revert_pkt_reTx ps timestamp tbs =
     (if ps = [] then Inl NullDeref
      else let p = hd ps;
               (min_delay_diff, pkt_seq) =
                 foldl (nearest_seq_step timestamp) (of_int \<bar>int_of_u64 (sn_recv_t_us p - timestamp)\<bar>, 0) ps;
               min_delay = min_delay_of ps (sn_oneway_us p);
               (tbs_sum, ps') =
                 (if min_delay_diff < of_int DELAY_DIFF_THD
                  then revert_nodes pkt_seq min_delay False tbs ps else (tbs, ps))
        in Inr (if tbs_sum < 0 then 0 else tbs_sum, ps'))"


section \<open>Correcting the delays\<close>

record oneway_state =
  os_nodes :: "sync_node list"
  os_tbs :: "u32 list"
  os_tbs_out :: int
  os_delay_out :: int
  os_curr_reTx_idx :: int
  os_tbs_left :: int

text \<open>After the search for the packet: whether the loop returns, and its state.\<close>

definition oneway_matched :: "int \<Rightarrow> u32 \<Rightarrow> u64 \<Rightarrow> int \<Rightarrow> oneway_state \<Rightarrow> bool \<times> oneway_state" where
  "oneway_matched i matched_seq min_delay tbs_sum s =
     (let (tbs_left, ps') = revert_pkt_delay_vec (os_nodes s) matched_seq min_delay tbs_sum;
          s' = s\<lparr>os_nodes := ps', os_tbs_left := tbs_left, os_curr_reTx_idx := i\<rparr>
      in if tbs_left = 0 then (False, s')
         else if tbs_left < tbs_sum then (True, s'\<lparr>os_tbs_out := tbs_left\<rparr>)
         else if tbs_left = tbs_sum then (True, s'\<lparr>os_tbs_out := tbs_left\<rparr>)
         else (False, s'))"

definition oneway_unmatched :: "int \<Rightarrow> int \<Rightarrow> oneway_state \<Rightarrow> bool \<times> oneway_state" where
  "oneway_unmatched i delay_to_recent_pkt s =
     (if delay_to_recent_pkt < 0 then (True, s)
      else if delay_to_recent_pkt > 40000 then (False, s\<lparr>os_curr_reTx_idx := i\<rparr>)
      else (False, s))"

text \<open>The body of the loop for a retransmission that was not handled before.\<close>

definition oneway_reTx ::
  "int \<Rightarrow> u64 list \<Rightarrow> u8 list \<Rightarrow> u16 list \<Rightarrow> int \<Rightarrow> int \<Rightarrow> int \<Rightarrow> oneway_state \<Rightarrow> (bool \<times> oneway_state) res" where
  "oneway_reTx nof_pkt recv_t_us reTx tti delay_in offset_us i s =
     bindE (find_ori_tx_subf reTx (os_tbs s) i) (\<lambda>(ori_idx, tbs').
     let s1 = s\<lparr>os_tbs := tbs'\<rparr> in
     bindE (update_ori reTx ori_idx i) (\<lambda>ori_idx_new.
     bindE (circular_sum_tbs tbs' ori_idx_new i) (\<lambda>sum32.
     bindE (aget recv_t_us i) (\<lambda>t.
     bindE (aget tti ori_idx) (\<lambda>_. bindE (aget tti ori_idx_new) (\<lambda>_.
     let tbs_sum = uint sum32; timestamp = t + of_int offset_us in
     bindE (match_reTx_pkt_in_time (os_nodes s1) nof_pkt timestamp) (\<lambda>(matched, matched_seq, delay, to_recent).
     let min_delay = (if ori_idx_new \<noteq> ori_idx \<and> delay_in > 0 then of_int delay_in else delay);
         s2 = s1\<lparr>os_delay_out := int_of_u64 min_delay\<rparr>
     in Inr (if matched then oneway_matched i matched_seq min_delay tbs_sum s2
             else oneway_unmatched i to_recent s2))))))))"

fun oneway_loop ::
  "int \<Rightarrow> u64 list \<Rightarrow> u8 list \<Rightarrow> u16 list \<Rightarrow> int \<Rightarrow> int \<Rightarrow> int \<Rightarrow> int list \<Rightarrow> oneway_state \<Rightarrow> oneway_state res" where
  "oneway_loop nof_pkt recv_t_us reTx tti delay_in last_tti offset_us [] s =
     (let tbs_left = (if os_tbs_left s < 0 then 0 else os_tbs_left s)
      in Inr (s\<lparr>os_tbs_left := tbs_left, os_tbs_out := tbs_left\<rparr>))"
| "oneway_loop nof_pkt recv_t_us reTx tti delay_in last_tti offset_us (i # is) s =
     bindE (aget reTx i) (\<lambda>r.
     bindE (if r > 0 then bindE (aget tti i) (\<lambda>t. Inr (circular_a_larger_b t (of_int last_tti))) else Inr False) (\<lambda>later.
     if later
     then bindE (oneway_reTx nof_pkt recv_t_us reTx tti delay_in offset_us i s) (\<lambda>(stop, s').
          if stop then Inr s' else oneway_loop nof_pkt recv_t_us reTx tti delay_in last_tti offset_us is s')
     else oneway_loop nof_pkt recv_t_us reTx tti delay_in last_tti offset_us is s))"

text \<open>
  The result with the nodes, the block sizes, \<open>*tbs_out\<close> and \<open>*delay_out\<close>. The message printed first
  reads the last element of \<open>tti\<close>.
\<close>

definition ngscope_sync_oneway_revert ::
  "sync_node list \<Rightarrow> int \<Rightarrow> u64 list \<Rightarrow> u32 list \<Rightarrow> u8 list \<Rightarrow> u16 list \<Rightarrow> int \<Rightarrow> int \<Rightarrow> int \<Rightarrow> int \<Rightarrow> int \<Rightarrow> int \<Rightarrow>
   int \<Rightarrow> (int \<times> oneway_state) res" where
  "ngscope_sync_oneway_revert ps nof_pkt recv_t_us tbs reTx tti tbs_in tbs_out delay_in delay_out
     last_reTx_tti offset_us nof_dci =
     (let s = \<lparr>os_nodes = ps, os_tbs = tbs, os_tbs_out = tbs_out, os_delay_out = delay_out,
               os_curr_reTx_idx = - 1, os_tbs_left = 0\<rparr>
      in if tbs_in \<noteq> 0 then Inr (int_of_long tbs_in, s)
         else bindE (aget tti (nof_dci - 1)) (\<lambda>_.
              bindE (oneway_loop nof_pkt recv_t_us reTx tti delay_in last_reTx_tti offset_us
                       (range_int 0 nof_dci) s) (\<lambda>s'.
              Inr (os_curr_reTx_idx s', s'))))"


section \<open>The offset is the best of the grid\<close>

text \<open>The times at which the vector of flags marks a retransmission.\<close>

definition marked :: "('a \<Rightarrow> bool) \<Rightarrow> nat \<Rightarrow> 'a list \<Rightarrow> u64 list \<Rightarrow> u64 list" where
  "marked f n flags ts = map snd (filter (f \<circ> fst) (zip (take n flags) (take n ts)))"

lemma marked_Suc:
  assumes "n < length flags" and "n < length ts"
  shows "marked f (Suc n) flags ts = marked f n flags ts @ (if f (flags ! n) then [ts ! n] else [])"
  using assms by (simp add: marked_def take_Suc_conv_app_nth)

lemma extract_loop_marked:
  assumes "n \<le> length flags" and "n \<le> length ts"
  shows "for_each (\<lambda>i out. bindE (aget flags i) (\<lambda>d.
      if f d then bindE (aget ts i) (\<lambda>t. Inr (out @ [t])) else Inr out)) (range_int 0 (int n)) []
    = Inr (marked f n flags ts)"
  using assms
proof (induction n)
  case 0
  then show ?case by (simp add: marked_def)
next
  case (Suc n)
  then show ?case by (simp only: range_int_nat) (simp add: for_each_append marked_Suc)
qed

lemma sync_extract_reTx_from_pkt_marked:
  "n \<le> length delays \<Longrightarrow> n \<le> length ts \<Longrightarrow>
   sync_extract_reTx_from_pkt delays ts (int n) = Inr (marked (\<lambda>d. d \<ge> SYNC_DELAY_THD) n delays ts)"
  by (simp only: sync_extract_reTx_from_pkt_def extract_loop_marked)

lemma extract_reTx_from_dci_marked:
  "n \<le> length reTx \<Longrightarrow> n \<le> length ts \<Longrightarrow>
   extract_reTx_from_dci reTx ts (int n) = Inr (marked (\<lambda>r. r > 0) n reTx ts)"
  by (simp only: extract_reTx_from_dci_def extract_loop_marked)

text \<open>The array allocated for the cut is as long as the cut, which therefore never leaves it.\<close>

lemma cut_loop:
  assumes "int (length out + length (filter (in_span s e) ts)) \<le> n"
  shows "for_each (\<lambda>t t_out. if in_span s e t
         then bindE (guardE (int (length t_out) < n) OutOfBounds) (\<lambda>_. Inr (t_out @ [t]))
         else Inr t_out) ts out = Inr (out @ filter (in_span s e) ts)"
  using assms by (induction ts arbitrary: out) auto

lemma cut_vec_filter:
  "cut_vec_with_time_edge ts s e (int (length (filter (in_span s e) ts))) = Inr (filter (in_span s e) ts)"
  using cut_loop [of "[]"] by (simp add: cut_vec_with_time_edge_def)

lemma min_vec_loop_argmin:
  assumes "first_argmin (\<lambda>v. v) xs k" and "min_v = xs ! k"
  shows "\<exists>k'. min_vec_loop ys (int (length xs)) min_v (int k) = int k' \<and> first_argmin (\<lambda>v. v) (xs @ ys) k'"
  using assms
proof (induction ys arbitrary: xs k min_v)
  case Nil
  then show ?case by auto
next
  case (Cons y ys)
  show ?case
  proof (cases "y < min_v")
    case True
    with Cons.prems have "first_argmin (\<lambda>v. v) (xs @ [y]) (length xs)"
      by (force simp: first_argmin_def nth_append less_Suc_eq)
    from Cons.IH [OF this, of y] show ?thesis using True by (simp add: add.commute)
  next
    case False
    with Cons.prems have "first_argmin (\<lambda>v. v) (xs @ [y]) k" "min_v = (xs @ [y]) ! k"
      by (auto simp: first_argmin_def nth_append less_Suc_eq)
    from Cons.IH [OF this] show ?thesis using False by (simp add: add.commute)
  qed
qed

lemma min_in_vec_argmin:
  assumes "xs \<noteq> []"
  shows "\<exists>k. min_in_vec (map d xs) = Inr (int k) \<and> first_argmin d xs k"
proof -
  obtain x ys where xs: "xs = x # ys" using assms by (cases xs) auto
  have "first_argmin (\<lambda>v. v) [d x] 0" by (simp add: first_argmin_def)
  from min_vec_loop_argmin [OF this, of "d x" "map d ys"] obtain k
    where k: "min_vec_loop (map d ys) 1 (d x) 0 = int k" "first_argmin (\<lambda>v. v) (map d xs) k"
    by (auto simp: xs)
  then have "first_argmin d xs k" by (auto simp: first_argmin_def)
  moreover have "min_in_vec (map d xs) = Inr (int k)"
    using k(1) by (simp add: min_in_vec_def xs aget_def)
  ultimately show ?thesis by blast
qed

lemma length_offset_grid: "length offset_grid = 201"
  by (simp add: offset_grid_def range_int_def)

lemma nth_offset_grid: "k \<le> 200 \<Longrightarrow> offset_grid ! k = (int k - 100) * 100"
  by (simp add: offset_grid_def range_int_def)

text \<open>
  C40. The search for the clock offset never leaves an array. It answers -1 when one of the vectors
  marks no retransmission, 0 when their time spans are disjoint, and otherwise the first of the 201
  candidates from -10 to 10 milliseconds whose distance, over the retransmissions in the common
  span, is least.
\<close>

theorem sync_dci_delay_best_offset:
  fixes delays :: "int list" and reTx :: "u8 list" and pkt_t dci_t :: "u64 list"
  assumes "n \<le> length delays" "n \<le> length pkt_t" "m \<le> length reTx" "m \<le> length dci_t"
  defines "P \<equiv> marked (\<lambda>d. d \<ge> 7) n delays pkt_t" and "D \<equiv> marked (\<lambda>r. r > 0) m reTx dci_t"
  defines "common \<equiv> in_span (max (hd P) (hd D)) (min (last P) (last D))"
  defines "cost \<equiv> match_dci_pkt_delay_w_offset (filter common D) (filter common P)"
  shows "if P = [] \<or> D = [] then ngscope_sync_dci_delay delays pkt_t (int n) reTx dci_t (int m) = Inr (- 1)
    else if hd D > last P \<or> hd P > last D
    then ngscope_sync_dci_delay delays pkt_t (int n) reTx dci_t (int m) = Inr 0
    else \<exists>k \<le> 200. ngscope_sync_dci_delay delays pkt_t (int n) reTx dci_t (int m) = Inr ((int k - 100) * 100)
      \<and> (\<forall>j \<le> 200. cost ((int k - 100) * 100) \<le> cost ((int j - 100) * 100))
      \<and> (\<forall>j < k. cost ((int k - 100) * 100) < cost ((int j - 100) * 100))"
proof -
  note ex = sync_extract_reTx_from_pkt_marked [OF assms(1,2)] extract_reTx_from_dci_marked [OF assms(3,4)]
  note run = ngscope_sync_dci_delay_def ex P_def [symmetric] D_def [symmetric]
  consider "P = [] \<or> D = []" | "P \<noteq> []" "D \<noteq> []" "hd D > last P \<or> hd P > last D"
    | "P \<noteq> []" "D \<noteq> []" "\<not> (hd D > last P \<or> hd P > last D)" by blast
  then show ?thesis
  proof cases
    case 3
    have "find_vec_interset_time D P = Some (max (hd P) (hd D), min (last P) (last D),
        int (length (filter common D)), int (length (filter common P)))"
      using 3 by (auto simp: find_vec_interset_time_def common_def Let_def max_def min_def not_less not_le
          dest: order.antisym)
    then have eq: "ngscope_sync_dci_delay delays pkt_t (int n) reTx dci_t (int m) =
        bindE (min_in_vec (map cost offset_grid)) (aget offset_grid)"
      using 3 by (simp add: run cost_def common_def cut_vec_filter)
    have "offset_grid \<noteq> []" using length_offset_grid by auto
    then obtain k where k: "min_in_vec (map cost offset_grid) = Inr (int k)" "first_argmin cost offset_grid k"
      using min_in_vec_argmin by blast
    then have "k \<le> 200" by (simp add: first_argmin_def length_offset_grid)
    moreover have "\<forall>j \<le> 200. cost (offset_grid ! k) \<le> cost (offset_grid ! j)"
      "\<forall>j < k. cost (offset_grid ! k) < cost (offset_grid ! j)"
      using k(2) by (auto simp: first_argmin_def length_offset_grid)
    ultimately have "\<exists>k \<le> 200. ngscope_sync_dci_delay delays pkt_t (int n) reTx dci_t (int m) = Inr ((int k - 100) * 100)
      \<and> (\<forall>j \<le> 200. cost ((int k - 100) * 100) \<le> cost ((int j - 100) * 100))
      \<and> (\<forall>j < k. cost ((int k - 100) * 100) < cost ((int j - 100) * 100))"
      using eq k(1) by (intro exI [of _ k]) (simp add: nth_offset_grid length_offset_grid)
    with 3 show ?thesis by simp
  next
    case 2
    then show ?thesis by (auto simp: run find_vec_interset_time_def)
  qed (auto simp: run)
qed

theorem sync_dci_delay_best_offset_witness:
  "\<exists>k \<le> 200. ngscope_sync_dci_delay [9, 3, 8] [5000, 6000, 9000] 3 [1, 2] [4000, 8000] 2 = Inr ((int k - 100) * 100)"
  using sync_dci_delay_best_offset [of 3 "[9, 3, 8]" "[5000, 6000, 9000]" 2 "[1, 2]" "[4000, 8000]"]
  by (auto simp: marked_def)


section \<open>What a block corrects\<close>

definition corrected :: "u64 \<Rightarrow> sync_node \<Rightarrow> sync_node" where
  "corrected min_delay p =
     (if sn_revert_flag p then p else p\<lparr>sn_oneway_us_new := min_delay, sn_revert_flag := True\<rparr>)"

definition bits_of :: "sync_node list \<Rightarrow> int" where
  "bits_of ps = sum_list (map (\<lambda>p. if sn_revert_flag p then 0 else sn_recv_len p * 8) ps)"

lemma bits_of_Cons [simp]:
  "bits_of (p # ps) = (if sn_revert_flag p then 0 else sn_recv_len p * 8) + bits_of ps"
  by (simp add: bits_of_def)

lemma bits_of_Nil [simp]: "bits_of [] = 0"
  by (simp add: bits_of_def)

lemma revert_node_eq:
  "revert_node d tbs p = (tbs - bits_of [p], corrected d p)"
  by (simp add: revert_node_def corrected_def)

lemma revert_nodes_started:
  assumes "tbs > 0"
  shows "\<exists>run post. ps = run @ post \<and>
    revert_nodes seq d True tbs ps = (tbs - bits_of run, map (corrected d) run @ post) \<and>
    (\<forall>j < length run. bits_of (take j run) < tbs) \<and> (post = [] \<or> tbs \<le> bits_of run)"
  using assms
proof (induction ps arbitrary: tbs)
  case (Cons p ps)
  let ?b = "bits_of [p]"
  show ?case
  proof (cases "tbs \<le> ?b")
    case True
    have "revert_nodes seq d True tbs (p # ps) = (tbs - bits_of [p], map (corrected d) [p] @ ps)"
      using True by (simp add: revert_node_eq)
    moreover have "\<forall>j < length [p]. bits_of (take j [p]) < tbs" using Cons.prems by simp
    moreover have "p # ps = [p] @ ps" by simp
    ultimately show ?thesis using True by blast
  next
    case False
    then have "tbs - ?b > 0" by simp
    from Cons.IH [OF this] obtain run post where r: "ps = run @ post"
      "revert_nodes seq d True (tbs - ?b) ps = (tbs - ?b - bits_of run, map (corrected d) run @ post)"
      "\<forall>j < length run. bits_of (take j run) < tbs - ?b" "post = [] \<or> tbs - ?b \<le> bits_of run"
      by blast
    have "revert_nodes seq d True tbs (p # ps)
        = (tbs - bits_of (p # run), map (corrected d) (p # run) @ post)"
      using False r(2) by (simp add: revert_node_eq)
    moreover have "bits_of (take j (p # run)) < tbs" if "j < length (p # run)" for j
      using that r(3) Cons.prems by (cases j) force+
    moreover have "p # ps = (p # run) @ post" using r(1) by simp
    moreover have "post = [] \<or> tbs \<le> bits_of (p # run)" using r(4) by auto
    ultimately show ?thesis by blast
  qed
qed simp

lemma revert_nodes_skip:
  assumes "tbs > 0"
  shows "revert_nodes seq d False tbs ps =
    (let pre = takeWhile (\<lambda>p. sn_sequence_number p \<noteq> seq) ps;
         (tbs', ps') = revert_nodes seq d True tbs (dropWhile (\<lambda>p. sn_sequence_number p \<noteq> seq) ps)
     in (tbs', pre @ ps'))"
  using assms by (induction ps) (auto simp: Let_def split: prod.splits)

text \<open>
  A block of \<open>tbs\<close> bits corrects the packets from the first with the given sequence number on: the
  packets before it and behind the run stay as they are, each packet of the run that was not corrected
  gets the new delay, and the run stops exactly when its newly corrected packets use the block up or
  when the list ends. The result is what is left of the block.
\<close>

theorem revert_pkt_delay_vec_accounts:
  assumes "tbs > 0"
  shows "\<exists>pre run post. ps = pre @ run @ post
    \<and> pre = takeWhile (\<lambda>p. sn_sequence_number p \<noteq> seq) ps
    \<and> revert_pkt_delay_vec ps seq d tbs =
        (max 0 (tbs - bits_of run),
         pre @ map (\<lambda>p. if sn_revert_flag p then p
                         else p\<lparr>sn_oneway_us_new := d, sn_revert_flag := True\<rparr>) run @ post)
    \<and> (\<forall>j < length run. bits_of (take j run) < tbs) \<and> (post = [] \<or> tbs \<le> bits_of run)"
proof -
  let ?f = "\<lambda>p. sn_sequence_number p \<noteq> seq"
  obtain run post where r: "dropWhile ?f ps = run @ post"
    "revert_nodes seq d True tbs (dropWhile ?f ps) = (tbs - bits_of run, map (corrected d) run @ post)"
    "\<forall>j < length run. bits_of (take j run) < tbs" "post = [] \<or> tbs \<le> bits_of run"
    using revert_nodes_started [OF assms] by blast
  have "ps = takeWhile ?f ps @ run @ post" using takeWhile_dropWhile_id [of ?f ps] r(1) by simp
  moreover have "corrected d = (\<lambda>p. if sn_revert_flag p then p
      else p\<lparr>sn_oneway_us_new := d, sn_revert_flag := True\<rparr>)" by (simp add: corrected_def fun_eq_iff)
  then have "revert_pkt_delay_vec ps seq d tbs =
      (max 0 (tbs - bits_of run), takeWhile ?f ps @ map (\<lambda>p. if sn_revert_flag p then p
         else p\<lparr>sn_oneway_us_new := d, sn_revert_flag := True\<rparr>) run @ post)"
    using r(2) by (simp add: revert_pkt_delay_vec_def revert_nodes_skip [OF assms] max_def)
  ultimately show ?thesis using r(3,4) by blast
qed

theorem revert_pkt_delay_vec_accounts_witness:
  "\<exists>run. fst (revert_pkt_delay_vec [\<lparr>sn_sequence_number = 7, sn_recv_len = 100, sn_oneway_us = 9,
     sn_recv_t_us = 5, sn_oneway_us_new = 9, sn_revert_flag = False\<rparr>] 7 4 800) = max 0 (800 - bits_of run)"
proof -
  have "(0::int) < 800" by simp
  note w = revert_pkt_delay_vec_accounts [OF this, of "[\<lparr>sn_sequence_number = 7, sn_recv_len = 100,
    sn_oneway_us = 9, sn_recv_t_us = 5, sn_oneway_us_new = 9, sn_revert_flag = False\<rparr>]" 7 4]
  then show ?thesis by (elim exE conjE) (rule exI, simp only: fst_conv)
qed


section \<open>The search for the packet of a block\<close>

lemma int_of_u64_long:
  assumes "\<bar>long_of x\<bar> < 2 ^ 31" shows "int_of_u64 x = long_of x"
proof -
  have "uint (ucast x :: u32) = take_bit 32 (sint x)"
    by (simp add: unsigned_ucast_eq sint_uint take_bit_signed_take_bit)
  then have "int_of_u64 x = signed_take_bit 31 (sint x)"
    by (simp add: int_of_u64_def sint_uint signed_take_bit_take_bit)
  then show ?thesis using assms by (simp add: long_of_def signed_take_bit_int_eq_self)
qed

lemma match_scan_no_match:
  assumes "\<forall>q \<in> set ps. long_of (ms_min_delay_diff m) \<le> \<bar>long_of (sn_recv_t_us q - ts)\<bar>"
    and "\<forall>q \<in> set ps. \<bar>long_of (sn_recv_t_us q - ts)\<bar> < 2 ^ 31"
    and "int (length (ms_seq_vec m) + length ps) \<le> nof_pkt + 5" and "ms_matched_idx m = - 1"
  shows "\<exists>m'. for_each (match_scan_step nof_pkt ts) ps m = Inr m' \<and> ms_matched_idx m' = - 1
    \<and> ms_min_delay_diff m' = ms_min_delay_diff m"
  using assms
proof (induction ps arbitrary: m)
  case (Cons p ps)
  have small: "int_of_long \<bar>long_of (sn_recv_t_us p - ts)\<bar> = \<bar>long_of (sn_recv_t_us p - ts)\<bar>"
    using Cons.prems(2) by (intro int_of_long_small) auto
  obtain m1 where m1: "match_scan_step nof_pkt ts p m = Inr m1" "ms_matched_idx m1 = - 1"
    "ms_min_delay_diff m1 = ms_min_delay_diff m" "length (ms_seq_vec m1) = Suc (length (ms_seq_vec m))"
    using Cons.prems by (simp add: match_scan_step_def small Let_def)
  have "\<exists>m'. for_each (match_scan_step nof_pkt ts) ps m1 = Inr m' \<and> ms_matched_idx m' = - 1
    \<and> ms_min_delay_diff m' = ms_min_delay_diff m1"
    using Cons.prems m1 by (intro Cons.IH) auto
  with m1 show ?case by simp
qed simp

text \<open>
  When the first packet of the list is the nearest to the time of the retransmission, and near
  enough, the index of the match keeps its initial value -1 and the search reads outside the array.
\<close>

theorem match_first_packet_out_of_bounds:
  assumes "\<forall>q \<in> set ps. \<bar>long_of (sn_recv_t_us p - ts)\<bar> \<le> \<bar>long_of (sn_recv_t_us q - ts)\<bar>"
    and "\<forall>q \<in> set ps. \<bar>long_of (sn_recv_t_us q - ts)\<bar> < 2 ^ 31"
    and "\<bar>long_of (sn_recv_t_us p - ts)\<bar> < 1400" and "int (length ps) + 1 \<le> nof_pkt + 5"
  shows "match_reTx_pkt_in_time (p # ps) nof_pkt ts = Inl OutOfBounds"
proof -
  let ?d = "\<bar>long_of (sn_recv_t_us p - ts)\<bar>"
  have "int_of_u64 (sn_recv_t_us p - ts) = long_of (sn_recv_t_us p - ts)"
    using assms(3) by (intro int_of_u64_long) simp
  then have init: "\<bar>int_of_u64 (sn_recv_t_us p - ts)\<bar> = ?d" by simp
  have u: "uint (of_int ?d :: u64) = ?d" using assms(3) by (simp add: uint_word_of_int)
  then have l: "long_of (of_int ?d) = ?d" using assms(3) by (simp add: long_of_small)
  have "(of_int ?d :: u64) < of_int DELAY_DIFF_THD" using u assms(3) by (simp add: word_less_def)
  let ?m = "\<lparr>ms_min_delay = sn_oneway_us p, ms_min_delay_diff = of_int ?d,
      ms_delay_of_matched = 0, ms_matched_idx = - 1, ms_recent = 0,
      ms_recv_anchor = sn_recv_t_us p, ms_seq_vec = [], ms_recv_diff = []\<rparr>"
  obtain m' where m': "for_each (match_scan_step nof_pkt ts) (p # ps) ?m = Inr m'"
    "ms_matched_idx m' = - 1" "ms_min_delay_diff m' = of_int ?d"
    using match_scan_no_match [of "p # ps" ?m ts nof_pkt] assms l by auto
  then show ?thesis
    using \<open>(of_int ?d :: u64) < of_int DELAY_DIFF_THD\<close>
    by (simp add: match_reTx_pkt_in_time_def Let_def init confirm_start_of_pkt_burst_def aget_def del: for_each.simps)
qed

theorem match_first_packet_out_of_bounds_witness:
  "match_reTx_pkt_in_time [\<lparr>sn_sequence_number = 7, sn_recv_len = 100, sn_oneway_us = 9,
     sn_recv_t_us = 5000, sn_oneway_us_new = 9, sn_revert_flag = False\<rparr>] 1 4500 = Inl OutOfBounds"
  by (rule match_first_packet_out_of_bounds) (simp_all add: long_of_def)


section \<open>The scan of the ring\<close>

lemma smod_ring: "0 \<le> (i::int) \<Longrightarrow> i smod 500 = i mod 500"
  by (rule smod_nonneg) simp_all

lemma ring_reTx_loop_find:
  assumes "length dci_vec = 500" and "\<forall>i \<in> set is. 0 \<le> i"
  shows "ring_reTx_loop dci_vec is cur =
    Inr (case find (\<lambda>i. sd_reTx (dci_vec ! nat (i mod 500)) > 0) is of
           Some i \<Rightarrow> (True, i mod 500)
         | None \<Rightarrow> (False, if is = [] then cur else last is mod 500))"
  using assms(2)
proof (induction "is" arbitrary: cur)
  case (Cons i "is")
  then have "aget dci_vec (i mod 500) = Inr (dci_vec ! nat (i mod 500))"
    using assms(1) by (simp add: aget_def nat_less_iff)
  with Cons show ?case by (auto simp: smod_ring Let_def split: option.splits)
qed simp

lemma not_handled_loop_find:
  assumes "length dci_vec = 500" and "\<forall>i \<in> set is. 0 \<le> i"
  shows "not_handled_loop dci_vec is =
    Inr (\<exists>i \<in> set is. sd_reTx (dci_vec ! nat (i mod 500)) > 0)"
  using assms(2)
proof (induction "is")
  case (Cons i "is")
  then have "aget dci_vec (i mod 500) = Inr (dci_vec ! nat (i mod 500))"
    using assms(1) by (simp add: aget_def nat_less_iff)
  with Cons show ?case by (auto simp: smod_ring)
qed simp

text \<open>
  The two scans agree on a full ring: there is a new retransmission between the last one handled and
  the write position exactly when one is not handled, unless the ring is not full.
\<close>

theorem new_reTx_iff_not_handled:
  assumes "length dci_vec = 500" and "0 \<le> l"
    and "l \<noteq> header" and "l + 1 \<noteq> header" and "nof_dci \<ge> 500"
  shows "\<exists>b idx. ngscope_sync_new_reTx dci_vec l cur header nof_dci = Inr (b, idx)
    \<and> ngscope_sync_reTx_not_handled dci_vec l header = Inr b
    \<and> (b \<longrightarrow> 0 \<le> idx \<and> idx < 500 \<and> sd_reTx (dci_vec ! nat idx) > 0)"
proof -
  let ?is = "range_int (l + 1) (scan_end (l + 1) header)"
  have pos: "\<forall>i \<in> set ?is. 0 \<le> i" using assms(2) by auto
  note find = ring_reTx_loop_find [OF assms(1) pos, of cur] and none = not_handled_loop_find [OF assms(1) pos]
  show ?thesis
  proof (cases "find (\<lambda>i. sd_reTx (dci_vec ! nat (i mod 500)) > 0) ?is")
    case None
    with find none assms show ?thesis
      by (auto simp: ngscope_sync_new_reTx_def ngscope_sync_reTx_not_handled_def find_None_iff Let_def)
  next
    case (Some i)
    then have "i \<in> set ?is" "sd_reTx (dci_vec ! nat (i mod 500)) > 0"
      unfolding find_Some_iff by (metis nth_mem)+
    with Some find none assms show ?thesis
      by (auto simp: ngscope_sync_new_reTx_def ngscope_sync_reTx_not_handled_def Let_def)
  qed
qed

theorem new_reTx_iff_not_handled_witness:
  "\<exists>b. ngscope_sync_reTx_not_handled (replicate 500 \<lparr>sd_time_stamp = 0, sd_tbs = 0, sd_reTx = 1, sd_tti = 0\<rparr>) 3 1 = Inr b"
  using new_reTx_iff_not_handled [of "replicate 500 \<lparr>sd_time_stamp = 0, sd_tbs = 0, sd_reTx = 1, sd_tti = 0\<rparr>" 3 1 500 0]
  by auto

end
