(* ===== verification/Feedback.thy ===== *)
theory Feedback
  imports Receivers Ctcp
begin

text \<open>
  The path of a correction: the receiver \<open>src/ngscope_client.cc\<close> writes the difference between the
  measured and the corrected delay of a packet into the header that it sends back, the receiver
  \<open>src/copa_recv.cc\<close> sends the header back with the field as it came, and the sender (\<open>src/ctcp.hh\<close>,
  \<open>src/markoviancc.cc\<close>) subtracts the field from the round-trip time. The lemmas follow one packet from
  the receiver to the sample in the window of Copa.
\<close>


section \<open>What the sender makes of an acknowledgement\<close>

lemma new_rtt_sample_latest [simp]: "get_latest_rtt (new_rtt_sample rtt now w) = rtt"
  by (simp add: get_latest_rtt_def new_rtt_sample_def Let_def)

lemma onACK_latest:
  assumes "copa_ok s" and "do_slow_start s" and "sent < cur_tick s"
    and "cur_tick s - sent - of_int adj / 1000 \<le> DBL_MAX"
  shows "\<exists>s'. onACK True a r sent adj s = Inr s'
    \<and> get_latest_rtt (rtt_window s') = cur_tick s - sent - of_int adj / 1000"
proof -
  let ?rtt = "cur_tick s - sent - of_int adj / 1000"
  obtain s1 where s1: "ack_sample True ?rtt s = Inr s1" "copa_ok s1"
    "rtt_window s1 = new_rtt_sample ?rtt (cur_tick s) (rtt_window s)"
    using ack_sample_spec [OF assms(1) _ assms(4)] assms(2) by blast
  obtain s2 where "ack_packets (a - 1) s1 = Inr s2" "rtt_window s2 = rtt_window s1"
    using ack_packets_spec [OF s1(2), of "a - 1"] by blast
  with s1(1,3) assms(3) show ?thesis by (simp add: onACK_def Let_def)
qed

lemma handle_ack_sample:
  assumes "sender_ok copa_good s" and "h_seq_num h smod train_length s = 0"
    and "h_sender_timestamp h < cur_time s"
    and "cur_time s - h_sender_timestamp h - of_int (h_adjust_us h) / 1000 \<le> DBL_MAX"
  shows "\<exists>s'. handle_ack copa_ccc h s = Inr s' \<and> get_latest_rtt (rtt_window (congctrl s'))
    = cur_time s - h_sender_timestamp h - of_int (h_adjust_us h) / 1000"
proof -
  define s1 where "s1 = update_link_rate copa_ccc (h_seq_num h + 1) (s\<lparr>last_ack_time := cur_time s\<rparr>)"
  have s1: "cur_time s1 = cur_time s" "train_length s1 = train_length s" "congctrl s1 = congctrl s"
    by (simp_all add: s1_def update_link_rate_def Let_def copa_ccc_def)
  let ?cc = "set_timestamp (cur_time s) (congctrl s)"
  have "copa_good (cur_time s) (congctrl s)" using assms(1) by (simp add: sender_ok_def)
  then have "copa_good (cur_time s) ?cc" using copa_good_callbacks(2) by blast
  then have cc: "copa_ok ?cc" "do_slow_start ?cc" "cur_tick ?cc = cur_time s"
    by (simp_all add: copa_good_def set_timestamp_def)
  obtain c where "onACK True ((h_seq_num h + 1) sdiv train_length s) (h_receiver_timestamp h) (h_sender_timestamp h)
      (h_adjust_us h) ?cc = Inr c"
    "get_latest_rtt (rtt_window c) = cur_time s - h_sender_timestamp h - of_int (h_adjust_us h) / 1000"
    using onACK_latest [OF cc(1,2), of "h_sender_timestamp h" "h_adjust_us h"] assms(3,4) cc(3) by auto
  then show ?thesis
    using assms(2) s1 by (simp add: handle_ack_def Let_def s1_def [symmetric]) (simp add: copa_ccc_def s1)
qed


section \<open>What the receiver writes\<close>

lemma int_of_u64_diff:
  assumes "uint b \<le> uint a" and "uint a - uint b < 2 ^ 31"
  shows "int_of_u64 (a - b) = uint a - uint b" and "int_of_u64 (b - a) = uint b - uint a"
proof -
  have d: "uint (a - b) = uint a - uint b"
    using assms(1) by (simp add: uint_sub_lem [THEN iffD1])
  then show "int_of_u64 (a - b) = uint a - uint b"
    using assms(2) by (simp add: int_of_u64_small)
  define k where "k = uint a - uint b"
  have k: "0 \<le> k" "k < 2 ^ 31" using assms by (simp_all add: k_def)
  have "uint (ucast (b - a) :: u32) = take_bit 32 (- k)"
    by (simp add: k_def unsigned_ucast_eq uint_word_ariths take_bit_eq_mod mod_mod_cancel)
  then have "int_of_u64 (b - a) = signed_take_bit 31 (- k)"
    by (simp add: int_of_u64_def sint_uint signed_take_bit_take_bit)
  also have "\<dots> = - k" using k by (intro signed_take_bit_int_eq_self) auto
  finally show "int_of_u64 (b - a) = uint b - uint a" by (simp add: k_def)
qed


text \<open>The receiver that does not correct.\<close>

lemma copa_recv_one:
  assumes "delivers tn h" and "t_exit u" and "h_seq_num h \<noteq> - 1111"
  shows "copa_recv_loop [tn, u] buff
    = Some (Inr ([stamp (t_ms tn) (t_ack_t tn) h], stamp (t_ms tn) (t_ack_t tn) h))"
  using copa_recv_loop_delivers [of "[tn]" "[h]" "[u]" buff] assms
  by (simp add: echoed_def echo_one_def) (simp add: stamp_def)


section \<open>The whole path\<close>

text \<open>
  C2. What becomes of a correction in the sample that Copa takes for the packet. Let \<open>raw\<close> be the
  round-trip time measured by the sender, \<open>c\<close> the correction that the receiver found, and \<open>held\<close> the time
  for which it kept the packet. The acknowledgement of \<open>ngscope_client.cc\<close> gives the sample
  \<open>raw + c + held\<close>: both terms enter with the wrong sign, so a correction lengthens the sample beyond
  the \<open>raw\<close> that the echo of \<open>copa_recv.cc\<close> gives for the same packet.
\<close>

theorem correction_reaches_sample:
  assumes "sender_ok copa_good s" and "h_seq_num (pkt_tcp_header p) smod train_length s = 0"
    and "h_sender_timestamp (pkt_tcp_header p) < cur_time s" and "h_adjust_us (pkt_tcp_header p) = 0"
    and "h_seq_num (pkt_tcp_header p) \<noteq> - 1111"
    and "oneway_us_new p \<le> oneway_us p" and "uint (oneway_us p) < 2 ^ 31"
    and "recv_t_us p \<le> t" and "uint t - uint (recv_t_us p) < 2 ^ 31"
  defines "raw \<equiv> cur_time s - h_sender_timestamp (pkt_tcp_header p)"
    and "c \<equiv> real_of_int (uint (oneway_us p) - uint (oneway_us_new p)) / 1000"
    and "held \<equiv> real_of_int (uint t - uint (recv_t_us p)) / 1000"
  assumes "raw + c + held \<le> DBL_MAX"
  shows "(\<exists>s'. handle_ack copa_ccc (ack_header t p) s = Inr s'
      \<and> get_latest_rtt (rtt_window (congctrl s')) = raw + c + held)
    \<and> (delivers tn (pkt_tcp_header p) \<and> t_exit u \<longrightarrow>
        (\<exists>h s'. copa_recv_loop [tn, u] buff = Some (Inr ([h], h)) \<and> handle_ack copa_ccc h s = Inr s'
          \<and> get_latest_rtt (rtt_window (congctrl s')) = raw))"
proof
  have le: "uint (oneway_us_new p) \<le> uint (oneway_us p)" "uint (recv_t_us p) \<le> uint t"
    using assms(6,8) by (simp_all add: word_le_def)
  have small: "uint (oneway_us p) - uint (oneway_us_new p) < 2 ^ 31"
    using assms(7) uint_ge_0 [of "oneway_us_new p"] by linarith
  have "h_adjust_us (ack_header t p)
      = uint (oneway_us_new p) - uint (oneway_us p) - (uint t - uint (recv_t_us p))"
    using int_of_u64_diff(2) [OF le(1) small] int_of_u64_diff(1) [OF le(2) assms(9)]
    by (simp add: ack_header_def)
  then have adjust: "of_int (h_adjust_us (ack_header t p)) / 1000 = - c - held"
    unfolding c_def held_def by (simp only: of_int_diff) (simp add: field_simps)
  have fields: "h_seq_num (ack_header t p) = h_seq_num (pkt_tcp_header p)"
    "h_sender_timestamp (ack_header t p) = h_sender_timestamp (pkt_tcp_header p)"
    by (simp_all add: ack_header_def)
  have "cur_time s - h_sender_timestamp (ack_header t p) - of_int (h_adjust_us (ack_header t p)) / 1000
      = raw + c + held"
    unfolding adjust fields raw_def by simp
  then show "\<exists>s'. handle_ack copa_ccc (ack_header t p) s = Inr s'
      \<and> get_latest_rtt (rtt_window (congctrl s')) = raw + c + held"
    using handle_ack_sample [of s "ack_header t p"] assms(1-3,13) fields by simp
  show "delivers tn (pkt_tcp_header p) \<and> t_exit u \<longrightarrow>
        (\<exists>h s'. copa_recv_loop [tn, u] buff = Some (Inr ([h], h)) \<and> handle_ack copa_ccc h s = Inr s'
          \<and> get_latest_rtt (rtt_window (congctrl s')) = raw)"
  proof
    let ?h = "stamp (t_ms tn) (t_ack_t tn) (pkt_tcp_header p)"
    assume "delivers tn (pkt_tcp_header p) \<and> t_exit u"
    then have echo: "copa_recv_loop [tn, u] buff = Some (Inr ([?h], ?h))"
      using copa_recv_one assms(5) by blast
    have "0 \<le> uint (oneway_us p) - uint (oneway_us_new p)" "0 \<le> uint t - uint (recv_t_us p)"
      using le by linarith+
    then have "0 \<le> c" "0 \<le> held"
      unfolding c_def held_def by (simp_all only: of_int_0_le_iff divide_nonneg_pos zero_less_numeral)
    then have "raw \<le> DBL_MAX" using assms(13) by linarith
    then have "\<exists>s'. handle_ack copa_ccc ?h s = Inr s' \<and> get_latest_rtt (rtt_window (congctrl s')) = raw"
      using handle_ack_sample [of s ?h] assms(1-4) by (simp add: raw_def stamp_def)
    with echo show "\<exists>h s'. copa_recv_loop [tn, u] buff = Some (Inr ([h], h)) \<and> handle_ack copa_ccc h s = Inr s'
          \<and> get_latest_rtt (rtt_window (congctrl s')) = raw" by blast
  qed
qed

text \<open>A packet with 8 ms of 30 ms corrected, acknowledged 2 ms after it came.\<close>

definition corrected_packet :: packet_node where
  "corrected_packet = (test_packet 5000 30000)\<lparr>oneway_us_new := 22000\<rparr>"

theorem correction_reaches_sample_witness:
  "\<exists>s' h s''. handle_ack copa_ccc (ack_header 7000 corrected_packet)
      ((CTCP ((MarkovianCC 1 1)\<lparr>do_slow_start := True\<rparr>) ''10.0.0.1'' 9004 1)\<lparr>cur_time := 50\<rparr>) = Inr s'
    \<and> get_latest_rtt (rtt_window (congctrl s')) = 60
    \<and> copa_recv_loop [test_turn False [test_poll 0 1, test_poll 40 2], test_turn True []] (pkt_tcp_header (test_packet 0 0)) = Some (Inr ([h], h))
    \<and> handle_ack copa_ccc h
      ((CTCP ((MarkovianCC 1 1)\<lparr>do_slow_start := True\<rparr>) ''10.0.0.1'' 9004 1)\<lparr>cur_time := 50\<rparr>) = Inr s''
    \<and> get_latest_rtt (rtt_window (congctrl s'')) = 50"
proof -
  let ?s = "(CTCP ((MarkovianCC 1 1)\<lparr>do_slow_start := True\<rparr>) ''10.0.0.1'' 9004 1)\<lparr>cur_time := 50\<rparr>"
  let ?h = "pkt_tcp_header (test_packet 0 0)"
  have "copa_good 50 ((MarkovianCC 1 1)\<lparr>do_slow_start := True\<rparr>)"
    using copa_good_start [of 1 1] by (auto simp: copa_good_def)
  then have ok: "sender_ok copa_good ?s" by (simp add: sender_ok_def CTCP_def)
  have "(60::real) \<le> DBL_MAX" by (simp add: DBL_MAX_def)
  moreover have "pkt_tcp_header corrected_packet = pkt_tcp_header (test_packet 0 0)"
    by (simp add: corrected_packet_def test_packet_def)
  moreover have "t_exit (test_turn True [])" by (simp add: test_turn_def)
  ultimately have "(\<exists>s'. handle_ack copa_ccc (ack_header 7000 corrected_packet) ?s = Inr s'
      \<and> get_latest_rtt (rtt_window (congctrl s')) = 60)
    \<and> (\<exists>h s''. copa_recv_loop [test_turn False [test_poll 0 1, test_poll 40 2], test_turn True []] ?h = Some (Inr ([h], h))
      \<and> handle_ack copa_ccc h ?s = Inr s'' \<and> get_latest_rtt (rtt_window (congctrl s'')) = 50)"
    using correction_reaches_sample [OF ok, of corrected_packet 7000 "test_turn False [test_poll 0 1, test_poll 40 2]"
        "test_turn True []" ?h] test_turn_delivers
    by (simp add: corrected_packet_def test_packet_def CTCP_def word_le_def)
  then show ?thesis by blast
qed

end
