(* ===== verification/Receiver_Threads.thy ===== *)
theory Receiver_Threads
  imports Ngscope_Client Ngscope_Dci_Udp
begin

text \<open>
  The two threads of the receiver (\<open>src/dci_copa_rx.cc\<close>): the monitor thread of
  \<open>src/ngscope_dci_recv.cc\<close> writes the control messages into \<open>dci_ca\<close>, the main thread copies them
  with \<open>copy_dci_data_from_struct\<close> of \<open>src/ngscope_client.cc\<close>; both lock \<open>dci_mutex\<close> around their
  accesses, except for the initialisation, which only the order of the start-up protects.

  The steps of the threads are an inductive relation on their program counters and the shared
  globals. A critical section is split into the accesses to \<open>dci_ca\<close> that the code performs one after
  the other. A failure (a read outside an array) ends the run.
\<close>


section \<open>The messages of the monitor\<close>

text \<open>
  What a datagram can do to \<open>dci_ca\<close>: the insertion of \<open>recv_one_dci\<close> and the assignments of
  \<open>recv_config\<close>, each in two accesses.
\<close>

datatype monitor_msg =
    Dci ue_dci_t u8
  | Config u8 "u16 list"

fun begin_msg :: "monitor_msg \<Rightarrow> ngscope_dci_CA_t \<Rightarrow> ngscope_dci_CA_t res" where
  "begin_msg (Dci ue cell_idx) q =
     bindE (aget (cell_dci q) (uint cell_idx)) (\<lambda>c.
     bindE (dci_cell_insert c ue) (\<lambda>c'.
     bindE (aset (cell_dci q) (uint cell_idx) c') (\<lambda>cells. Inr (q\<lparr>cell_dci := cells\<rparr>))))"
| "begin_msg (Config cells prbs) q = Inr (q\<lparr>nof_cell := uint cells\<rparr>)"

definition store_prbs :: "u16 list \<Rightarrow> int \<Rightarrow> ngscope_dci_cell_t list \<Rightarrow> ngscope_dci_cell_t list res" where
  "store_prbs prbs cells cs =
     for_each (\<lambda>i cs. bindE (aget cs i) (\<lambda>c. bindE (aget prbs i) (\<lambda>prb.
         aset cs i (c\<lparr>cell_prb := uint prb\<rparr>)))) (range_int 0 cells) cs"

fun finish_msg :: "monitor_msg \<Rightarrow> ngscope_dci_CA_t \<Rightarrow> ngscope_dci_CA_t res" where
  "finish_msg (Dci ue cell_idx) q = ca_update_header q"
| "finish_msg (Config cells prbs) q =
     bindE (store_prbs prbs (uint cells) (cell_dci q)) (\<lambda>cs. Inr (q\<lparr>cell_dci := cs\<rparr>))"

definition apply_msg :: "monitor_msg \<Rightarrow> ngscope_dci_CA_t \<Rightarrow> ngscope_dci_CA_t res" where
  "apply_msg m q = bindE (begin_msg m q) (finish_msg m)"

lemma apply_msg_Dci: "apply_msg (Dci ue c) q = ngscope_dci_CA_insert q ue c"
  by (simp add: apply_msg_def ngscope_dci_CA_insert_def bindE_assoc)

lemma deliver_dci_apply:
  "deliver_dci ue c st = Inr st' \<Longrightarrow> apply_msg (Dci ue c) (rs_dci_ca st) = Inr (rs_dci_ca st')"
  by (auto simp: deliver_dci_def apply_msg_Dci bindE_eq_Inr)

lemma recv_config_apply:
  assumes "recv_config buf i st = Inr (j, st')"
  shows "\<exists>m. apply_msg m (rs_dci_ca st) = Inr (rs_dci_ca st')"
proof -
  obtain x :: u8 and prbs cs where "store_prbs prbs (uint x) (cell_dci (rs_dci_ca st)) = Inr cs"
    "rs_dci_ca st' = (rs_dci_ca st)\<lparr>nof_cell := uint x, cell_dci := cs\<rparr>"
    using assms by (auto simp: recv_config_def bindE_eq_Inr store_prbs_def [symmetric])
  then have "apply_msg (Config x prbs) (rs_dci_ca st) = Inr (rs_dci_ca st')"
    by (simp add: apply_msg_def)
  then show ?thesis by blast
qed

lemma recv_one_dci_apply:
  assumes "recv_one_dci buf i n st = Inr (j, st')"
  shows "rs_dci_ca st' = rs_dci_ca st \<or> (\<exists>m. apply_msg m (rs_dci_ca st) = Inr (rs_dci_ca st'))"
  using assms by (auto simp: recv_one_dci_def bindE_eq_Inr Let_def dest!: deliver_dci_apply split: if_splits)

lemma recv_buffer_apply:
  assumes "recv_buffer buf i n st = Inr (j, st')"
  shows "\<exists>ms. for_each apply_msg ms (rs_dci_ca st) = Inr (rs_dci_ca st')"
proof -
  have "rs_dci_ca st' = rs_dci_ca st \<or> (\<exists>m. apply_msg m (rs_dci_ca st) = Inr (rs_dci_ca st'))"
    using assms by (auto simp: recv_buffer_def bindE_eq_Inr dest!: recv_one_dci_apply recv_config_apply split: if_splits)
  then show ?thesis
  proof
    assume "rs_dci_ca st' = rs_dci_ca st"
    then show ?thesis by (intro exI [of _ "[]"]) simp
  next
    assume "\<exists>m. apply_msg m (rs_dci_ca st) = Inr (rs_dci_ca st')"
    then obtain m where "apply_msg m (rs_dci_ca st) = Inr (rs_dci_ca st')" by blast
    then show ?thesis by (intro exI [of _ "[m]"]) simp
  qed
qed

text \<open>Whatever a datagram holds, its effect on \<open>dci_ca\<close> is that of a sequence of messages.\<close>

lemma recv_datagram_apply:
  "recv_datagram buf n i st = Inr st' \<Longrightarrow> \<exists>ms. for_each apply_msg ms (rs_dci_ca st) = Inr (rs_dci_ca st')"
proof (induction buf n i st rule: recv_datagram.induct)
  case (1 buf n i st)
  show ?case
  proof (cases "rs_go_exit st")
    case True
    with 1 have "st' = st" by (simp add: recv_datagram.simps)
    then show ?thesis by (intro exI [of _ "[]"]) simp
  next
    case False
    with 1 obtain r st1 where r: "recv_buffer buf i n st = Inr (r, st1)"
      "(if r < 0 then Inr st1 else if r = n then Inr st1 else recv_datagram buf n r st1) = Inr st'"
      by (auto simp: recv_datagram.simps [of buf n i st] bindE_eq_Inr)
    obtain ms where ms: "for_each apply_msg ms (rs_dci_ca st) = Inr (rs_dci_ca st1)"
      using recv_buffer_apply [OF r(1)] by blast
    show ?thesis
    proof (cases "r < 0 \<or> r = n")
      case True
      with r(2) ms show ?thesis by (auto split: if_splits)
    next
      case go: False
      then obtain ms' where "for_each apply_msg ms' (rs_dci_ca st1) = Inr (rs_dci_ca st')"
        using 1(1) [OF False r(1) refl] r(2) by auto
      with ms have "for_each apply_msg (ms @ ms') (rs_dci_ca st) = Inr (rs_dci_ca st')"
        by (simp add: for_each_append)
      then show ?thesis by blast
    qed
  qed
qed


section \<open>The copy of the main thread\<close>

text \<open>The locals of the copy, and its accesses to \<open>dci_ca\<close> in the order of the code.\<close>

record copy_state =
  l_new_dl :: bool
  l_new_ul :: bool
  l_dci_all :: "ngscope_dci_t list"
  l_recent_dl :: "u64 list"
  l_recent_ul :: "u64 list"
  l_nof_cell :: int

datatype stage = New_dl | New_ul | Extract | Copy_dl | Copy_ul | Read_cells | Leave

fun stage_op :: "stage \<Rightarrow> ngscope_dci_CA_t \<Rightarrow> copy_state \<Rightarrow> copy_state res" where
  "stage_op New_dl q l = bindE (ngscope_dci_new_dl_reTx q (l_recent_dl l)) (\<lambda>(b, us).
     Inr (l\<lparr>l_new_dl := b, l_recent_dl := us\<rparr>))"
| "stage_op New_ul q l = bindE (ngscope_dci_new_ul_reTx q (l_recent_ul l)) (\<lambda>(b, us).
     Inr (l\<lparr>l_new_ul := b, l_recent_ul := us\<rparr>))"
| "stage_op Extract q l =
     (if l_new_dl l \<or> l_new_ul l
      then bindE (ngscope_dci_extract_multi_cell q (l_dci_all l)) (\<lambda>qs. Inr (l\<lparr>l_dci_all := qs\<rparr>)) else Inr l)"
| "stage_op Copy_dl q l =
     (if l_new_dl l
      then bindE (ngscope_dci_copy_dl_reTx q (l_recent_dl l)) (\<lambda>us. Inr (l\<lparr>l_recent_dl := us\<rparr>)) else Inr l)"
| "stage_op Copy_ul q l =
     (if l_new_ul l
      then bindE (ngscope_dci_copy_ul_reTx q (l_recent_ul l)) (\<lambda>us. Inr (l\<lparr>l_recent_ul := us\<rparr>)) else Inr l)"
| "stage_op Read_cells q l = Inr (l\<lparr>l_nof_cell := nof_cell q\<rparr>)"
| "stage_op Leave q l = Inr l"

fun next_stage :: "stage \<Rightarrow> stage" where
  "next_stage New_dl = New_ul"
| "next_stage New_ul = Extract"
| "next_stage Extract = Copy_dl"
| "next_stage Copy_dl = Copy_ul"
| "next_stage Copy_ul = Read_cells"
| "next_stage Read_cells = Leave"
| "next_stage Leave = Leave"

text \<open>What is left of the copy from a stage on.\<close>

definition stages_from :: "stage \<Rightarrow> stage list" where
  "stages_from g = (case g of
     New_dl \<Rightarrow> [New_dl, New_ul, Extract, Copy_dl, Copy_ul, Read_cells]
   | New_ul \<Rightarrow> [New_ul, Extract, Copy_dl, Copy_ul, Read_cells]
   | Extract \<Rightarrow> [Extract, Copy_dl, Copy_ul, Read_cells]
   | Copy_dl \<Rightarrow> [Copy_dl, Copy_ul, Read_cells]
   | Copy_ul \<Rightarrow> [Copy_ul, Read_cells]
   | Read_cells \<Rightarrow> [Read_cells]
   | Leave \<Rightarrow> [])"

definition copy_from :: "stage \<Rightarrow> ngscope_dci_CA_t \<Rightarrow> copy_state \<Rightarrow> copy_state res" where
  "copy_from g q l = for_each (\<lambda>g. stage_op g q) (stages_from g) l"

lemma copy_from_step: "g \<noteq> Leave \<Longrightarrow> copy_from g q l = bindE (stage_op g q l) (copy_from (next_stage g) q)"
  by (cases g) (simp_all add: copy_from_def [abs_def] stages_from_def)

lemma copy_from_Leave [simp]: "copy_from Leave q l = Inr l"
  by (simp add: copy_from_def stages_from_def)

definition copied :: "copy_state \<Rightarrow> bool \<times> bool \<times> bool \<times> ngscope_dci_t list \<times> u64 list \<times> u64 list \<times> int" where
  "copied l = (l_new_dl l \<or> l_new_ul l, l_new_dl l, l_new_ul l, l_dci_all l, l_recent_dl l, l_recent_ul l, l_nof_cell l)"

text \<open>The stages one after the other are \<open>copy_dci_data_from_struct\<close>.\<close>

lemma copy_stages_eq:
  "copy_dci_data_from_struct q (l_dci_all l) (l_recent_dl l) (l_recent_ul l)
    = bindE (copy_from New_dl q l) (\<lambda>l'. Inr (copied l'))"
  unfolding copy_dci_data_from_struct_def copy_from_def stages_from_def
  by (cases "ngscope_dci_new_dl_reTx q (l_recent_dl l)")
    (auto simp: copied_def bindE_assoc split: prod.splits intro!: bindE_cong)



section \<open>The threads\<close>

datatype thread = Monitor | Main

text \<open>
  The monitor thread: initialisation, connection, the loop, blocked in \<open>recvfrom\<close>, a datagram whose
  messages are left, waiting for the lock with a message, and the critical section of a message.
\<close>

datatype monitor_pc =
    M_Start
  | M_Connect
  | M_Loop
  | M_Recv
  | M_Batch "monitor_msg list"
  | M_Lock monitor_msg "monitor_msg list"
  | M_Begin monitor_msg "monitor_msg list"
  | M_Finish monitor_msg "monitor_msg list"
  | M_Unlock "monitor_msg list"
  | M_End

text \<open>
  The main thread: waiting for \<open>sock_ready\<close>, the loop, polling the socket, the stages of the copy,
  handling and acknowledging packets, and waiting for the other thread to end.
\<close>

datatype main_pc =
    R_Start
  | R_Loop
  | R_Poll
  | R_Copy stage
  | R_Handle
  | R_Join
  | R_Done

text \<open>
  The shared globals and the program counters. The last four fields record the history: the messages
  applied so far; for the copy in progress, how many there were and what its locals were at the
  lock; and both with the result for every copy that was completed.
\<close>

record threads =
  th_ca :: ngscope_dci_CA_t
  th_mutex :: "thread option"
  th_sock_ready :: bool
  th_go_exit :: bool
  th_monitor :: monitor_pc
  th_main :: main_pc
  th_copy :: copy_state
  th_failed :: "c_error option"
  th_delivered :: "monitor_msg list"
  th_since :: nat
  th_entry :: copy_state
  th_log :: "(nat \<times> copy_state \<times> copy_state) list"

inductive thread_step :: "threads \<Rightarrow> threads \<Rightarrow> bool" where
  m_init: "th_failed s = None \<Longrightarrow> th_monitor s = M_Start \<Longrightarrow>
    thread_step s (s\<lparr>th_ca := ngscope_dci_CA_init, th_monitor := M_Connect\<rparr>)"
| m_connect: "th_failed s = None \<Longrightarrow> th_monitor s = M_Connect \<Longrightarrow>
    thread_step s (s\<lparr>th_sock_ready := True, th_monitor := M_Loop\<rparr>)"
| m_loop: "th_failed s = None \<Longrightarrow> th_monitor s = M_Loop \<Longrightarrow>
    thread_step s (s\<lparr>th_monitor := (if th_go_exit s then M_End else M_Recv)\<rparr>)"
| m_recv: "th_failed s = None \<Longrightarrow> th_monitor s = M_Recv \<Longrightarrow>
    thread_step s (s\<lparr>th_monitor := M_Batch ms\<rparr>)"
| m_batch: "th_failed s = None \<Longrightarrow> th_monitor s = M_Batch ms \<Longrightarrow>
    thread_step s (s\<lparr>th_monitor :=
      (if th_go_exit s \<or> ms = [] then M_Loop else M_Lock (hd ms) (tl ms))\<rparr>)"
| m_lock: "th_failed s = None \<Longrightarrow> th_monitor s = M_Lock m ms \<Longrightarrow> th_mutex s = None \<Longrightarrow>
    thread_step s (s\<lparr>th_mutex := Some Monitor, th_monitor := M_Begin m ms\<rparr>)"
| m_begin: "th_failed s = None \<Longrightarrow> th_monitor s = M_Begin m ms \<Longrightarrow> begin_msg m (th_ca s) = Inr q \<Longrightarrow>
    thread_step s (s\<lparr>th_ca := q, th_monitor := M_Finish m ms\<rparr>)"
| m_begin_fails: "th_failed s = None \<Longrightarrow> th_monitor s = M_Begin m ms \<Longrightarrow> begin_msg m (th_ca s) = Inl e \<Longrightarrow>
    thread_step s (s\<lparr>th_failed := Some e\<rparr>)"
| m_finish: "th_failed s = None \<Longrightarrow> th_monitor s = M_Finish m ms \<Longrightarrow> finish_msg m (th_ca s) = Inr q \<Longrightarrow>
    thread_step s (s\<lparr>th_ca := q, th_delivered := th_delivered s @ [m], th_monitor := M_Unlock ms\<rparr>)"
| m_finish_fails: "th_failed s = None \<Longrightarrow> th_monitor s = M_Finish m ms \<Longrightarrow> finish_msg m (th_ca s) = Inl e \<Longrightarrow>
    thread_step s (s\<lparr>th_failed := Some e\<rparr>)"
| m_unlock: "th_failed s = None \<Longrightarrow> th_monitor s = M_Unlock ms \<Longrightarrow>
    thread_step s (s\<lparr>th_mutex := None, th_monitor := M_Batch ms\<rparr>)"
| r_start: "th_failed s = None \<Longrightarrow> th_main s = R_Start \<Longrightarrow> th_go_exit s \<or> th_sock_ready s \<Longrightarrow>
    thread_step s (s\<lparr>th_main := R_Loop\<rparr>)"
| r_loop: "th_failed s = None \<Longrightarrow> th_main s = R_Loop \<Longrightarrow>
    thread_step s (s\<lparr>th_main := (if th_go_exit s then R_Join else R_Poll)\<rparr>)"
| r_no_packet: "th_failed s = None \<Longrightarrow> th_main s = R_Poll \<Longrightarrow>
    thread_step s (s\<lparr>th_main := R_Handle\<rparr>)"
| r_lock: "th_failed s = None \<Longrightarrow> th_main s = R_Poll \<Longrightarrow> th_mutex s = None \<Longrightarrow>
    thread_step s (s\<lparr>th_mutex := Some Main, th_main := R_Copy New_dl,
      th_since := length (th_delivered s), th_entry := th_copy s\<rparr>)"
| r_stage: "th_failed s = None \<Longrightarrow> th_main s = R_Copy g \<Longrightarrow> g \<noteq> Leave \<Longrightarrow>
    stage_op g (th_ca s) (th_copy s) = Inr l \<Longrightarrow>
    thread_step s (s\<lparr>th_copy := l, th_main := R_Copy (next_stage g)\<rparr>)"
| r_stage_fails: "th_failed s = None \<Longrightarrow> th_main s = R_Copy g \<Longrightarrow> g \<noteq> Leave \<Longrightarrow>
    stage_op g (th_ca s) (th_copy s) = Inl e \<Longrightarrow>
    thread_step s (s\<lparr>th_failed := Some e\<rparr>)"
| r_unlock: "th_failed s = None \<Longrightarrow> th_main s = R_Copy Leave \<Longrightarrow>
    thread_step s (s\<lparr>th_mutex := None, th_main := R_Handle,
      th_log := th_log s @ [(th_since s, th_entry s, th_copy s)]\<rparr>)"
| r_handle: "th_failed s = None \<Longrightarrow> th_main s = R_Handle \<Longrightarrow>
    thread_step s (s\<lparr>th_copy := (th_copy s)\<lparr>l_dci_all := qs\<rparr>, th_main := R_Loop\<rparr>)"
| r_join: "th_failed s = None \<Longrightarrow> th_main s = R_Join \<Longrightarrow> th_monitor s = M_End \<Longrightarrow>
    thread_step s (s\<lparr>th_main := R_Done\<rparr>)"
| signal: "th_failed s = None \<Longrightarrow> thread_step s (s\<lparr>th_go_exit := True\<rparr>)"

text \<open>The start: \<open>dci_ca\<close> is arbitrary, the trackers of the main thread hold zeros.\<close>

definition threads_init :: "ngscope_dci_CA_t \<Rightarrow> ngscope_dci_t list \<Rightarrow> threads" where
  "threads_init ca0 qs =
     (let l = \<lparr>l_new_dl = False, l_new_ul = False, l_dci_all = qs, l_recent_dl = replicate MAX_NOF_RF_DEV 0,
               l_recent_ul = replicate MAX_NOF_RF_DEV 0, l_nof_cell = 0\<rparr>
      in \<lparr>th_ca = ca0, th_mutex = None, th_sock_ready = False, th_go_exit = False, th_monitor = M_Start,
          th_main = R_Start, th_copy = l, th_failed = None, th_delivered = [], th_since = 0, th_entry = l,
          th_log = []\<rparr>)"

inductive threads_reach :: "threads \<Rightarrow> threads \<Rightarrow> bool" where
  start: "threads_reach s s"
| step: "threads_reach s t \<Longrightarrow> thread_step t u \<Longrightarrow> threads_reach s u"


section \<open>The invariant\<close>

definition monitor_inside :: "monitor_pc \<Rightarrow> bool" where
  "monitor_inside pc = (case pc of M_Begin m ms \<Rightarrow> True | M_Finish m ms \<Rightarrow> True | M_Unlock ms \<Rightarrow> True | _ \<Rightarrow> False)"

definition main_inside :: "main_pc \<Rightarrow> bool" where
  "main_inside pc = (case pc of R_Copy g \<Rightarrow> True | _ \<Rightarrow> False)"

lemma inside_simps [simp]:
  "monitor_inside (M_Begin m ms)" "monitor_inside (M_Finish m ms)" "monitor_inside (M_Unlock ms)"
  "\<not> monitor_inside M_Start" "\<not> monitor_inside M_Connect" "\<not> monitor_inside M_Loop" "\<not> monitor_inside M_Recv"
  "\<not> monitor_inside (M_Batch ms)" "\<not> monitor_inside (M_Lock m ms)" "\<not> monitor_inside M_End"
  "main_inside (R_Copy g)" "\<not> main_inside R_Start" "\<not> main_inside R_Loop" "\<not> main_inside R_Poll"
  "\<not> main_inside R_Handle" "\<not> main_inside R_Join" "\<not> main_inside R_Done"
  by (simp_all add: monitor_inside_def main_inside_def)

text \<open>The mutex names the thread that is inside.\<close>

definition lock_inv :: "threads \<Rightarrow> bool" where
  "lock_inv s \<longleftrightarrow> (monitor_inside (th_monitor s) \<longleftrightarrow> th_mutex s = Some Monitor)
     \<and> (main_inside (th_main s) \<longleftrightarrow> th_mutex s = Some Main)"

text \<open>The main thread gets past its first test of the loop only after the initialisation.\<close>

definition start_inv :: "threads \<Rightarrow> bool" where
  "start_inv s \<longleftrightarrow> (th_sock_ready s \<longrightarrow> th_monitor s \<noteq> M_Start \<and> th_monitor s \<noteq> M_Connect)
     \<and> (th_main s = R_Poll \<or> main_inside (th_main s) \<or> th_main s = R_Handle \<longrightarrow> th_sock_ready s)
     \<and> (th_main s = R_Loop \<longrightarrow> th_sock_ready s \<or> th_go_exit s)"

text \<open>\<open>dci_ca\<close> is the result of the messages so far, except between the two accesses of a message.\<close>

definition ca_holds :: "threads \<Rightarrow> bool" where
  "ca_holds s = (case th_monitor s of
       M_Start \<Rightarrow> th_delivered s = []
     | M_Finish m ms \<Rightarrow> \<exists>q. for_each apply_msg (th_delivered s) ngscope_dci_CA_init = Inr q \<and> begin_msg m q = Inr (th_ca s)
     | _ \<Rightarrow> for_each apply_msg (th_delivered s) ngscope_dci_CA_init = Inr (th_ca s))"

text \<open>A copy in progress will give what it would have given at once.\<close>

definition copy_inv :: "threads \<Rightarrow> bool" where
  "copy_inv s \<longleftrightarrow> (\<forall>g. th_main s = R_Copy g \<longrightarrow> th_since s = length (th_delivered s)
     \<and> copy_from g (th_ca s) (th_copy s) = copy_from New_dl (th_ca s) (th_entry s))"

definition log_ok :: "monitor_msg list \<Rightarrow> nat \<times> copy_state \<times> copy_state \<Rightarrow> bool" where
  "log_ok ms = (\<lambda>(k, e, l). k \<le> length ms
     \<and> (\<exists>q. for_each apply_msg (take k ms) ngscope_dci_CA_init = Inr q \<and> copy_from New_dl q e = Inr l))"

definition log_inv :: "threads \<Rightarrow> bool" where
  "log_inv s \<longleftrightarrow> sorted (map fst (th_log s)) \<and> list_all (log_ok (th_delivered s)) (th_log s)"

definition threads_inv :: "threads \<Rightarrow> bool" where
  "threads_inv s \<longleftrightarrow> lock_inv s \<and> start_inv s \<and> ca_holds s \<and> copy_inv s \<and> log_inv s"

lemma lock_inv_step: "thread_step s t \<Longrightarrow> lock_inv s \<Longrightarrow> lock_inv t"
  by (induction rule: thread_step.induct) (auto simp: lock_inv_def)

lemma start_inv_step: "thread_step s t \<Longrightarrow> start_inv s \<Longrightarrow> start_inv t"
  by (induction rule: thread_step.induct) (auto simp: start_inv_def)


lemma ca_holds_step: "thread_step s t \<Longrightarrow> lock_inv s \<Longrightarrow> ca_holds s \<Longrightarrow> ca_holds t"
  by (induction rule: thread_step.induct)
    (auto simp: ca_holds_def for_each_append apply_msg_def split: monitor_pc.splits)

lemma copy_inv_step: "thread_step s t \<Longrightarrow> lock_inv s \<Longrightarrow> start_inv s \<Longrightarrow> copy_inv s \<Longrightarrow> copy_inv t"
proof (induction rule: thread_step.induct)
  case (r_stage s g l)
  then have "copy_from g (th_ca s) (th_copy s) = copy_from (next_stage g) (th_ca s) l"
    by (simp add: copy_from_step)
  with r_stage show ?case by (auto simp: copy_inv_def)
qed (auto simp: copy_inv_def lock_inv_def start_inv_def)

lemma log_ok_append: "log_ok ms x \<Longrightarrow> log_ok (ms @ [m]) x"
  by (auto simp: log_ok_def split: prod.splits)

lemma log_ok_le: "list_all (log_ok ms) xs \<Longrightarrow> x \<in> set xs \<Longrightarrow> fst x \<le> length ms"
  by (cases x) (auto simp: list_all_iff log_ok_def)

lemma log_inv_step:
  "thread_step s t \<Longrightarrow> lock_inv s \<Longrightarrow> start_inv s \<Longrightarrow> ca_holds s \<Longrightarrow> copy_inv s \<Longrightarrow> log_inv s \<Longrightarrow> log_inv t"
proof (induction rule: thread_step.induct)
  case (m_finish s m ms q)
  then show ?case by (auto simp: log_inv_def list_all_iff intro: log_ok_append)
next
  case (r_unlock s)
  have "\<not> monitor_inside (th_monitor s)" "th_monitor s \<noteq> M_Start"
    using r_unlock by (auto simp: lock_inv_def start_inv_def)
  then have ca: "for_each apply_msg (th_delivered s) ngscope_dci_CA_init = Inr (th_ca s)"
    using r_unlock by (auto simp: ca_holds_def split: monitor_pc.splits)
  have since: "th_since s = length (th_delivered s)"
    and copy: "copy_from New_dl (th_ca s) (th_entry s) = Inr (th_copy s)"
    using r_unlock by (auto simp: copy_inv_def)
  have "log_ok (th_delivered s) (th_since s, th_entry s, th_copy s)"
    using ca copy by (simp add: log_ok_def since)
  moreover have "\<forall>x \<in> set (th_log s). fst x \<le> th_since s"
    using r_unlock log_ok_le since by (auto simp: log_inv_def)
  ultimately show ?case
    using r_unlock by (auto simp: log_inv_def sorted_append)
qed (auto simp: log_inv_def)

lemma threads_inv_init: "threads_inv (threads_init ca0 qs)"
  by (simp add: Let_def threads_inv_def threads_init_def lock_inv_def start_inv_def ca_holds_def copy_inv_def log_inv_def)

lemma threads_inv_step: "thread_step s t \<Longrightarrow> threads_inv s \<Longrightarrow> threads_inv t"
  unfolding threads_inv_def
  using lock_inv_step start_inv_step ca_holds_step copy_inv_step log_inv_step by blast

lemma threads_inv_reach: "threads_reach s t \<Longrightarrow> threads_inv s \<Longrightarrow> threads_inv t"
  by (induction rule: threads_reach.induct) (auto intro: threads_inv_step)


section \<open>What every interleaving guarantees\<close>

lemma reach_inv: "threads_reach (threads_init ca0 qs) s \<Longrightarrow> threads_inv s"
  using threads_inv_reach threads_inv_init by blast

lemma log_entry:
  assumes "threads_reach (threads_init ca0 qs) s" and "(k, e, l) \<in> set (th_log s)"
  shows "k \<le> length (th_delivered s)
    \<and> (\<exists>q. for_each apply_msg (take k (th_delivered s)) ngscope_dci_CA_init = Inr q
        \<and> copy_dci_data_from_struct q (l_dci_all e) (l_recent_dl e) (l_recent_ul e) = Inr (copied l))"
proof -
  have "log_inv s" using reach_inv [OF assms(1)] by (simp add: threads_inv_def)
  then show ?thesis using assms(2) by (fastforce simp: log_inv_def list_all_iff log_ok_def copy_stages_eq)
qed

text \<open>
  C4. The accesses of the two threads to \<open>dci_ca\<close> never overlap: at most one thread is inside its
  critical section, no step of the other thread while the main thread copies changes \<open>dci_ca\<close>, and
  the main thread never copies before \<open>dci_ca\<close> is initialised, although the initialisation does not
  take the lock.
\<close>

theorem threads_exclusive:
  assumes "threads_reach (threads_init ca0 qs) s"
  shows "\<not> (monitor_inside (th_monitor s) \<and> main_inside (th_main s))
    \<and> (main_inside (th_main s) \<longrightarrow>
        th_monitor s \<noteq> M_Start \<and> (\<forall>t. thread_step s t \<longrightarrow> th_ca t = th_ca s))"
proof -
  have inv: "lock_inv s" "start_inv s" using reach_inv [OF assms] by (simp_all add: threads_inv_def)
  have "th_ca t = th_ca s" if "main_inside (th_main s)" "thread_step s t" for t
    using that(2,1) inv by cases (auto simp: lock_inv_def start_inv_def)
  with inv show ?thesis by (auto simp: lock_inv_def start_inv_def)
qed

text \<open>
  C3. Every copy of the control messages that the main thread completes, in whatever order the two
  threads run, is what \<open>copy_dci_data_from_struct\<close> computes at one moment: from the state that some
  number of the messages, a prefix of those that the monitor delivered, makes of the initial one;
  and later copies see longer prefixes.
\<close>

theorem copies_see_prefixes:
  assumes "threads_reach (threads_init ca0 qs) s"
  shows "sorted (map fst (th_log s)) \<and> (\<forall>(k, e, l) \<in> set (th_log s). k \<le> length (th_delivered s)
    \<and> (\<exists>q. for_each apply_msg (take k (th_delivered s)) ngscope_dci_CA_init = Inr q
        \<and> copy_dci_data_from_struct q (l_dci_all e) (l_recent_dl e) (l_recent_ul e) = Inr (copied l)))"
proof -
  have "log_inv s" using reach_inv [OF assms] by (simp add: threads_inv_def)
  then have "sorted (map fst (th_log s))" by (simp add: log_inv_def)
  with log_entry [OF assms] show ?thesis by blast
qed


section \<open>From the messages to the arrays\<close>

text \<open>The messages for one cell.\<close>

definition cell_messages :: "nat \<Rightarrow> monitor_msg list \<Rightarrow> ue_dci_t list" where
  "cell_messages j ms = concat (map (\<lambda>m. case m of
     Dci ue cell_idx \<Rightarrow> if uint cell_idx = int j then [ue] else [] | Config cells prbs \<Rightarrow> []) ms)"

text \<open>Neither the update of the header nor a configuration changes the ring buffers.\<close>

lemma ca_update_header_keeps:
  "ca_update_header q = Inr q' \<Longrightarrow> cell_dci q' = cell_dci q \<and> nof_cell q' = nof_cell q"
  by (auto simp: ca_update_header_def bindE_eq_Inr split: if_splits prod.splits)

lemma store_prbs_keeps:
  assumes "store_prbs prbs (int n) cs = Inr cs'"
  shows "n \<le> length cs \<and> length cs' = length cs
    \<and> (\<forall>j < length cs. \<exists>p. cs' ! j = (cs ! j)\<lparr>cell_prb := p\<rparr>)"
  using assms
proof (induction n arbitrary: cs')
  case 0
  have "\<exists>p. c = c\<lparr>cell_prb := p\<rparr>" for c :: ngscope_dci_cell_t
    by (rule exI [of _ "cell_prb c"]) simp
  with 0 show ?case by (auto simp: store_prbs_def)
next
  case (Suc n)
  have split: "range_int 0 (int (Suc n)) = range_int 0 (int n) @ [int n]"
    unfolding range_int_nat by simp
  obtain cs1 p where cs1: "store_prbs prbs (int n) cs = Inr cs1" and n: "n < length cs1"
    and cs': "cs' = cs1[n := (cs1 ! n)\<lparr>cell_prb := p\<rparr>]"
    using Suc.prems
    by (auto simp: store_prbs_def split for_each_append bindE_eq_Inr aget_def aset_def
        simp del: of_nat_Suc split: if_splits)
  note IH = Suc.IH [OF cs1]
  have "\<exists>p. cs' ! j = (cs ! j)\<lparr>cell_prb := p\<rparr>" if j: "j < length cs" for j
  proof -
    obtain p' where "cs1 ! j = (cs ! j)\<lparr>cell_prb := p'\<rparr>" using IH j by blast
    then show ?thesis using n by (cases "j = n") (auto simp: cs')
  qed
  then show ?case using IH n by (simp add: cs')
qed

lemma cell_prb_irrelevant:
  "cell_inv (c\<lparr>cell_prb := p\<rparr>) = cell_inv c" "ring_contents (c\<lparr>cell_prb := p\<rparr>) = ring_contents c"
  by (simp_all add: cell_inv_def ring_contents_def)

text \<open>What a message that does not fail makes of the ring buffers.\<close>

lemma apply_msg_rings:
  assumes "apply_msg m q = Inr q'" and "ca_inv q" and "j < MAX_NOF_RF_DEV"
  shows "ca_inv q' \<and> ring_contents (cell_dci q' ! j)
    = (case m of Dci ue cell_idx \<Rightarrow>
        if uint cell_idx = int j then lastn (nat NOF_LOG_DCI) (ring_contents (cell_dci q ! j) @ [ue])
        else ring_contents (cell_dci q ! j)
      | Config cells prbs \<Rightarrow> ring_contents (cell_dci q ! j))"
proof (cases m)
  case (Dci ue cell_idx)
  define k where "k = nat (uint cell_idx)"
  have idx: "uint cell_idx = int k" using uint_ge_0 [of cell_idx] by (simp add: k_def)
  have len: "length (cell_dci q) = MAX_NOF_RF_DEV" using assms(2) by (simp add: ca_inv_def)
  obtain c where k: "k < MAX_NOF_RF_DEV" and c: "dci_cell_insert (cell_dci q ! k) ue = Inr c"
    and q': "ca_update_header (q\<lparr>cell_dci := (cell_dci q)[k := c]\<rparr>) = Inr q'"
    using assms(1) len by (auto simp: Dci apply_msg_def idx bindE_eq_Inr aget_def aset_def split: if_splits)
  note c' = dci_cell_insert_contents [OF ca_inv_cell [OF assms(2) k] c]
  have eq: "cell_dci q' = (cell_dci q)[k := c]" "nof_cell q' = nof_cell q"
    using ca_update_header_keeps [OF q'] by simp_all
  have "ca_inv q'" using assms(2) c'(1) k len by (auto simp: ca_inv_def eq list_all_length nth_list_update)
  then show ?thesis using c'(2) assms(3) len by (auto simp: Dci eq idx nth_list_update)
next
  case (Config cells prbs)
  define n where "n = nat (uint cells)"
  have idx: "uint cells = int n" using uint_ge_0 [of cells] by (simp add: n_def)
  obtain cs where cs: "store_prbs prbs (int n) (cell_dci q) = Inr cs"
    and q': "q' = q\<lparr>nof_cell := int n, cell_dci := cs\<rparr>"
    using assms(1) by (auto simp: Config apply_msg_def idx bindE_eq_Inr)
  note keeps = store_prbs_keeps [OF cs]
  have len: "length (cell_dci q) = MAX_NOF_RF_DEV" using assms(2) by (simp add: ca_inv_def)
  have same: "cell_inv (cs ! i) = cell_inv (cell_dci q ! i) \<and> ring_contents (cs ! i) = ring_contents (cell_dci q ! i)"
    if "i < length cs" for i
    using keeps that cell_prb_irrelevant by metis
  have "ca_inv q'" using assms(2) keeps same len by (auto simp: ca_inv_def q' list_all_length)
  then show ?thesis using same [of j] keeps len assms(3) by (simp add: Config q')
qed

lemma messages_rings:
  assumes "for_each apply_msg ms ngscope_dci_CA_init = Inr q"
  shows "ca_inv q \<and> (\<forall>j < MAX_NOF_RF_DEV. ring_contents (cell_dci q ! j) = lastn (nat NOF_LOG_DCI) (cell_messages j ms))"
  using assms
proof (induction ms arbitrary: q rule: rev_induct)
  case Nil
  then show ?case
    using ca_inv_init by (auto simp: ngscope_dci_CA_init_def ring_contents_init cell_messages_def)
next
  case (snoc m ms)
  then obtain q0 where q0: "for_each apply_msg ms ngscope_dci_CA_init = Inr q0" "apply_msg m q0 = Inr q"
    by (auto simp: for_each_append bindE_eq_Inr)
  note IH = snoc.IH [OF q0(1)]
  have inv: "ca_inv q" using apply_msg_rings [OF q0(2), of 0] IH by simp
  have "ring_contents (cell_dci q ! j) = lastn (nat NOF_LOG_DCI) (cell_messages j (ms @ [m]))"
    if j: "j < MAX_NOF_RF_DEV" for j
  proof -
    have rings: "ring_contents (cell_dci q0 ! j) = lastn (nat NOF_LOG_DCI) (cell_messages j ms)"
      using IH j by blast
    have "0 < nat NOF_LOG_DCI" by simp
    note step = lastn_snoc [OF this, of "cell_messages j ms"]
    show ?thesis
    proof (cases m)
      case (Dci ue c)
      have "ring_contents (cell_dci q ! j) = (if uint c = int j
          then lastn (nat NOF_LOG_DCI) (lastn (nat NOF_LOG_DCI) (cell_messages j ms) @ [ue])
          else lastn (nat NOF_LOG_DCI) (cell_messages j ms))"
        using apply_msg_rings [OF q0(2) _ j] IH rings by (simp only: Dci monitor_msg.case)
      also have "\<dots> = lastn (nat NOF_LOG_DCI) (cell_messages j (ms @ [m]))"
        by (simp only: step) (simp add: Dci cell_messages_def)
      finally show ?thesis .
    next
      case (Config cells prbs)
      have "ring_contents (cell_dci q ! j) = ring_contents (cell_dci q0 ! j)"
        using apply_msg_rings [OF q0(2) _ j] IH by (simp only: Config monitor_msg.case)
      then show ?thesis by (simp only: rings) (simp add: Config cell_messages_def)
    qed
  qed
  then show ?case using inv by blast
qed

lemma extract_multi_cell_each:
  assumes "for_each (\<lambda>i qs. bindE (ngscope_dci_extract_single_cell q i) (aset qs i)) (range_int 0 (int n)) qs = Inr qs'"
  shows "length qs' = length qs \<and> (\<forall>j < n. j < length qs \<and> ngscope_dci_extract_single_cell q (int j) = Inr (qs' ! j))
    \<and> (\<forall>j < length qs. n \<le> j \<longrightarrow> qs' ! j = qs ! j)"
  using assms
proof (induction n arbitrary: qs')
  case (Suc n)
  have split: "range_int 0 (int (Suc n)) = range_int 0 (int n) @ [int n]"
    unfolding range_int_nat by simp
  obtain qs1 where qs1: "for_each (\<lambda>i qs. bindE (ngscope_dci_extract_single_cell q i) (aset qs i)) (range_int 0 (int n)) qs = Inr qs1"
    and last: "bindE (ngscope_dci_extract_single_cell q (int n)) (aset qs1 (int n)) = Inr qs'"
    using Suc.prems by (auto simp: split for_each_append bindE_eq_Inr simp del: of_nat_Suc)
  obtain d where "ngscope_dci_extract_single_cell q (int n) = Inr d" "n < length qs1" "qs' = qs1[n := d]"
    using last by (auto simp: bindE_eq_Inr aset_def split: if_splits)
  then show ?case using Suc.IH [OF qs1] by (auto simp: less_Suc_eq nth_list_update)
qed simp

text \<open>
  C5. From the monitor to the analysis. The monitor delivers messages for all cells, and configurations,
  in whatever order, while the main thread copies. A copy that finds a retransmission puts into the
  arrays of every configured cell, in order, the messages of its prefix that are for that cell, at
  most the last 1000, and leaves the arrays of the other cells alone. (The monitor does not survive
  the message with which the ring of a configured cell wraps around, see the insertion; the rings of
  the other cells do.)
\<close>

theorem copy_holds_prefix:
  assumes "threads_reach (threads_init ca0 qs) s" and "(k, e, l) \<in> set (th_log s)" and "l_new_dl l \<or> l_new_ul l"
  shows "0 \<le> l_nof_cell l \<and> l_nof_cell l \<le> int MAX_NOF_RF_DEV \<and> length (l_dci_all l) = length (l_dci_all e)
    \<and> (\<forall>j. int j < l_nof_cell l \<longrightarrow>
        (let ms = lastn (nat NOF_LOG_DCI) (cell_messages j (take k (th_delivered s)))
         in j < length (l_dci_all l) \<and> nof_dci (l_dci_all l ! j) = int (length ms) \<and> arrays_hold (l_dci_all l ! j) ms))
    \<and> (\<forall>j < length (l_dci_all e). l_nof_cell l \<le> int j \<longrightarrow> l_dci_all l ! j = l_dci_all e ! j)"
proof -
  obtain q where q: "for_each apply_msg (take k (th_delivered s)) ngscope_dci_CA_init = Inr q"
    "copy_dci_data_from_struct q (l_dci_all e) (l_recent_dl e) (l_recent_ul e) = Inr (copied l)"
    using log_entry [OF assms(1,2)] by blast
  note rings = messages_rings [OF q(1)]
  define n where "n = nat (nof_cell q)"
  have n: "nof_cell q = int n" "n \<le> MAX_NOF_RF_DEV" using rings by (auto simp: n_def ca_inv_def)
  have copy: "ngscope_dci_extract_multi_cell q (l_dci_all e) = Inr (l_dci_all l)" "l_nof_cell l = int n"
    using q(2) assms(3) n(1) by (auto simp: copy_dci_data_from_struct_def bindE_eq_Inr copied_def split: if_splits)
  note each = extract_multi_cell_each [OF copy(1) [unfolded ngscope_dci_extract_multi_cell_def n(1)]]
  have "nof_dci (l_dci_all l ! j) = int (length ms) \<and> arrays_hold (l_dci_all l ! j) ms"
    if "j < n" and ms: "ms = lastn (nat NOF_LOG_DCI) (cell_messages j (take k (th_delivered s)))" for j ms
  proof -
    have j: "j < MAX_NOF_RF_DEV" using that(1) n(2) by simp
    have "ring_contents (cell_dci q ! j) = ms" using rings j ms by blast
    then show ?thesis
      using extract_single_cell_holds_ring [of q j] rings j each that(1) by fastforce
  qed
  then show ?thesis using each n copy(2) by (simp add: Let_def)
qed


section \<open>Undisturbed runs\<close>

text \<open>A message and a copy can each run to the end when nothing disturbs them.\<close>

lemma reach_trans: "threads_reach t u \<Longrightarrow> threads_reach s t \<Longrightarrow> threads_reach s u"
  by (induction rule: threads_reach.induct) (auto intro: threads_reach.step)

lemma reach_one: "thread_step s t \<Longrightarrow> threads_reach s t"
  by (rule threads_reach.step [OF threads_reach.start])

lemma run_message:
  assumes "th_failed s = None" "th_monitor s = M_Recv" "\<not> th_go_exit s" "th_mutex s = None"
    and "apply_msg m (th_ca s) = Inr q"
  shows "\<exists>t. threads_reach s t \<and> th_failed t = None \<and> th_monitor t = M_Recv \<and> \<not> th_go_exit t \<and> th_mutex t = None
    \<and> th_ca t = q \<and> th_main t = th_main s \<and> th_copy t = th_copy s \<and> th_log t = th_log s
    \<and> th_delivered t = th_delivered s @ [m]"
proof -
  obtain q1 where q1: "begin_msg m (th_ca s) = Inr q1" "finish_msg m q1 = Inr q"
    using assms(5) by (auto simp: apply_msg_def bindE_eq_Inr)
  let ?s1 = "s\<lparr>th_monitor := M_Batch [m]\<rparr>"
  let ?s2 = "?s1\<lparr>th_monitor := M_Lock m []\<rparr>"
  let ?s3 = "?s2\<lparr>th_mutex := Some Monitor, th_monitor := M_Begin m []\<rparr>"
  let ?s4 = "?s3\<lparr>th_ca := q1, th_monitor := M_Finish m []\<rparr>"
  let ?s5 = "?s4\<lparr>th_ca := q, th_delivered := th_delivered s @ [m], th_monitor := M_Unlock []\<rparr>"
  let ?s6 = "?s5\<lparr>th_mutex := None, th_monitor := M_Batch []\<rparr>"
  let ?s7 = "?s6\<lparr>th_monitor := M_Loop\<rparr>"
  let ?s8 = "?s7\<lparr>th_monitor := M_Recv\<rparr>"
  have "thread_step s ?s1" using assms thread_step.m_recv [of s "[m]"] by simp
  moreover have "thread_step ?s1 ?s2" using assms thread_step.m_batch [of ?s1 "[m]"] by simp
  moreover have "thread_step ?s2 ?s3" using assms thread_step.m_lock [of ?s2 m "[]"] by simp
  moreover have "thread_step ?s3 ?s4" using assms q1 thread_step.m_begin [of ?s3 m "[]" q1] by simp
  moreover have "thread_step ?s4 ?s5" using assms q1 thread_step.m_finish [of ?s4 m "[]" q] by simp
  moreover have "thread_step ?s5 ?s6" using assms thread_step.m_unlock [of ?s5 "[]"] by simp
  moreover have "thread_step ?s6 ?s7" using assms thread_step.m_batch [of ?s6 "[]"] by simp
  moreover have "thread_step ?s7 ?s8" using assms thread_step.m_loop [of ?s7] by simp
  ultimately have "threads_reach s ?s8" by (meson threads_reach.step threads_reach.start)
  then show ?thesis using assms by (intro exI [of _ ?s8]) simp
qed

lemma run_stages:
  "th_failed s = None \<Longrightarrow> th_main s = R_Copy g \<Longrightarrow> copy_from g (th_ca s) (th_copy s) = Inr l \<Longrightarrow>
   threads_reach s (s\<lparr>th_main := R_Copy Leave, th_copy := l\<rparr>)"
proof (induction "length (stages_from g)" arbitrary: g s)
  case 0
  then have "g = Leave" by (cases g) (simp_all add: stages_from_def)
  with 0 have "s\<lparr>th_main := R_Copy Leave, th_copy := l\<rparr> = s" by simp
  then show ?case using threads_reach.start by metis
next
  case (Suc n)
  then have g: "g \<noteq> Leave" "n = length (stages_from (next_stage g))"
    by (cases g; simp add: stages_from_def)+
  then obtain l1 where l1: "stage_op g (th_ca s) (th_copy s) = Inr l1"
    "copy_from (next_stage g) (th_ca s) l1 = Inr l"
    using Suc.prems(3) by (auto simp: copy_from_step bindE_eq_Inr)
  let ?s1 = "s\<lparr>th_copy := l1, th_main := R_Copy (next_stage g)\<rparr>"
  have "thread_step s ?s1" using Suc.prems(1,2) g(1) l1(1) by (rule thread_step.r_stage)
  moreover have "threads_reach ?s1 (?s1\<lparr>th_main := R_Copy Leave, th_copy := l\<rparr>)"
    using Suc.hyps(1) [OF g(2), of ?s1] Suc.prems l1(2) by simp
  ultimately show ?case using reach_trans reach_one by fastforce
qed

lemma run_copy:
  assumes "th_failed s = None" "th_main s = R_Loop" "\<not> th_go_exit s" "th_mutex s = None"
    and "copy_from New_dl (th_ca s) (th_copy s) = Inr l"
  shows "\<exists>t. threads_reach s t \<and> th_failed t = None \<and> th_main t = R_Loop \<and> \<not> th_go_exit t \<and> th_mutex t = None
    \<and> th_ca t = th_ca s \<and> th_monitor t = th_monitor s \<and> th_delivered t = th_delivered s \<and> th_copy t = l
    \<and> th_log t = th_log s @ [(length (th_delivered s), th_copy s, l)]"
proof -
  let ?s1 = "s\<lparr>th_main := R_Poll\<rparr>"
  let ?s2 = "?s1\<lparr>th_mutex := Some Main, th_main := R_Copy New_dl, th_since := length (th_delivered s), th_entry := th_copy s\<rparr>"
  let ?s3 = "?s2\<lparr>th_main := R_Copy Leave, th_copy := l\<rparr>"
  let ?s4 = "?s3\<lparr>th_mutex := None, th_main := R_Handle, th_log := th_log s @ [(length (th_delivered s), th_copy s, l)]\<rparr>"
  let ?s5 = "?s4\<lparr>th_copy := l\<lparr>l_dci_all := l_dci_all l\<rparr>, th_main := R_Loop\<rparr>"
  have "thread_step s ?s1" using assms thread_step.r_loop [of s] by simp
  moreover have "thread_step ?s1 ?s2" using assms thread_step.r_lock [of ?s1] by simp
  moreover have "threads_reach ?s2 ?s3" using assms run_stages [of ?s2 New_dl l] by simp
  moreover have "thread_step ?s3 ?s4" using assms thread_step.r_unlock [of ?s3] by simp
  moreover have "thread_step ?s4 ?s5" using assms thread_step.r_handle [of ?s4 "l_dci_all l"] by simp
  ultimately have "threads_reach s ?s5" by (meson threads_reach.step threads_reach.start reach_trans)
  then show ?thesis using assms by (intro exI [of _ ?s5]) simp
qed


section \<open>A run with two copies\<close>

text \<open>
  Two retransmissions arrive, and the main thread copies after each: the first copy sets the tracker,
  the second one extracts both messages.
\<close>

definition reTx_msg :: "u64 \<Rightarrow> monitor_msg" where
  "reTx_msg t = Dci (zero_ue_dci\<lparr>ue_time_stamp := t, ue_dl_reTx := 1\<rparr>) 0"

definition one_cell :: "u64 \<Rightarrow> nat \<Rightarrow> ngscope_dci_CA_t \<Rightarrow> bool" where
  "one_cell t n q \<longleftrightarrow> ca_inv q \<and> nof_cell q = 1 \<and> header (cell_dci q ! 0) = int n
     \<and> recent_dl_reTx_t_us (cell_dci q ! 0) = t \<and> recent_ul_reTx_t_us (cell_dci q ! 0) = 0"

lemma one_cell_init: "one_cell 0 0 ngscope_dci_CA_init"
  using ca_inv_init by (simp add: one_cell_def ngscope_dci_CA_init_def ngscope_dci_cell_init_def)

lemma one_cell_apply:
  assumes "one_cell t n q" and "n < 998"
  shows "\<exists>q'. apply_msg (reTx_msg u) q = Inr q' \<and> one_cell u (Suc n) q'"
proof -
  let ?ue = "zero_ue_dci\<lparr>ue_time_stamp := u, ue_dl_reTx := 1\<rparr>"
  have q: "ca_inv q" "nof_cell q = 1" "header (cell_dci q ! 0) = int n" "recent_ul_reTx_t_us (cell_dci q ! 0) = 0"
    using assms(1) by (simp_all add: one_cell_def)
  obtain q1 c where q1: "ngscope_dci_CA_insert q ?ue 0 = ca_update_header q1" "ca_inv q1" "nof_cell q1 = 1"
    "cell_dci q1 = (cell_dci q)[0 := c]" "dci_cell_insert (cell_dci q ! 0) ?ue = Inr c"
    "header c = (header (cell_dci q ! 0) + 1) mod NOF_LOG_DCI"
    using CA_insert_step [OF q(1), of 0 ?ue] q(2) by auto
  have cell: "cell_dci q1 ! 0 = c" using q(1) q1(4) by (simp add: ca_inv_def)
  have hc: "header c = int (Suc n)" using q1(6) q(3) assms(2) by simp
  obtain q' where q': "ca_update_header q1 = Inr q'" "cell_dci q' = cell_dci q1" "nof_cell q' = 1"
    using ca_update_header_cases [OF q1(2)] q1(3) cell hc by auto
  have "cell_inv (cell_dci q ! 0)" using ca_inv_cell [OF q(1), of 0] by simp
  then have "recent_dl_reTx_t_us c = u" "recent_ul_reTx_t_us c = 0"
    using dci_cell_insert_eq [of "cell_dci q ! 0" ?ue] q1(5) q(4) by (auto simp: zero_ue_dci_def)
  moreover have "ca_inv q'" using q' q1(2,3) by (simp add: ca_inv_def)
  ultimately have "one_cell u (Suc n) q'" using q' cell hc by (simp add: one_cell_def)
  then show ?thesis using q1(1) q'(1) by (simp add: reTx_msg_def apply_msg_Dci)
qed


lemma one_cell_prefix: "one_cell t n q \<Longrightarrow> prefixE 1 (cell_dci q) = Inr [cell_dci q ! 0]"
  by (cases "cell_dci q") (auto simp: one_cell_def ca_inv_def prefixE_def)

lemma one_cell_aget: "one_cell t n q \<Longrightarrow> aget (cell_dci q) 0 = Inr (cell_dci q ! 0)"
  by (auto simp: one_cell_def ca_inv_def aget_def)

text \<open>Before the tracker is set nothing is found; afterwards a new time is.\<close>

lemma one_cell_copy:
  assumes "one_cell t n q" and "t \<noteq> 0" and "l_recent_dl l = u # us" and "l_recent_ul l = 0 # us'"
    and "l_dci_all l = [x]" and "u = 0 \<or> u \<noteq> t"
  shows "\<exists>l'. copy_from New_dl q l = Inr l' \<and> l_new_dl l' = (u \<noteq> 0) \<and> l_recent_dl l' = t # us
    \<and> l_recent_ul l' = 0 # us' \<and> l_nof_cell l' = 1 \<and> (\<exists>y. l_dci_all l' = [y])"
proof -
  have q: "nof_cell q = 1" "recent_dl_reTx_t_us (cell_dci q ! 0) = t" "recent_ul_reTx_t_us (cell_dci q ! 0) = 0"
    "ca_inv q" using assms(1) by (simp_all add: one_cell_def)
  obtain d where d: "ngscope_dci_extract_single_cell q 0 = Inr d"
    using extract_single_cell_holds_ring [OF q(4), of 0] by auto
  have dl: "stage_op New_dl q l = Inr (l\<lparr>l_new_dl := u \<noteq> 0, l_recent_dl := (if u = 0 then t else u) # us\<rparr>)"
    using assms(2,6) q
    by (auto simp: ngscope_dci_new_dl_reTx_def one_cell_prefix [OF assms(1)] assms(3) guardE_def)
  have ul: "stage_op New_ul q l1 = Inr (l1\<lparr>l_new_ul := False\<rparr>)" if "l_recent_ul l1 = 0 # us'" for l1
    using q that by (simp add: ngscope_dci_new_ul_reTx_def one_cell_prefix [OF assms(1)] guardE_def)
  have ex: "stage_op Extract q l1 = Inr (l1\<lparr>l_dci_all := [if l_new_dl l1 then d else x]\<rparr>)"
    if "l_dci_all l1 = [x]" "\<not> l_new_ul l1" for l1
    using q that d by (cases l1) (simp add: ngscope_dci_extract_multi_cell_def range_int_def aset_def)
  have cp: "stage_op Copy_dl q l1 = Inr (l1\<lparr>l_recent_dl := t # us\<rparr>)"
    if "l_recent_dl l1 = (if l_new_dl l1 then u else t) # us" for l1
    using q that
    by (cases l1) (simp add: ngscope_dci_copy_dl_reTx_def copy_reTx_def range_int_def aset_def one_cell_aget [OF assms(1)])
  show ?thesis using dl ul ex cp assms(3-6) q
    by (cases "u = 0") (simp_all add: copy_from_def stages_from_def del: stage_op.simps(1-4))
qed


lemma run_one_copy:
  assumes "th_failed s = None" "th_monitor s = M_Recv" "th_main s = R_Loop" "\<not> th_go_exit s" "th_mutex s = None"
    and "one_cell v n (th_ca s)" "n < 998" "t \<noteq> 0" "u = 0 \<or> u \<noteq> t"
    and "l_recent_dl (th_copy s) = u # us" "l_recent_ul (th_copy s) = 0 # us'" "l_dci_all (th_copy s) = [x]"
  shows "\<exists>s'. threads_reach s s' \<and> th_failed s' = None \<and> th_monitor s' = M_Recv \<and> th_main s' = R_Loop
    \<and> \<not> th_go_exit s' \<and> th_mutex s' = None \<and> one_cell t (Suc n) (th_ca s')
    \<and> l_recent_dl (th_copy s') = t # us \<and> l_recent_ul (th_copy s') = 0 # us' \<and> (\<exists>y. l_dci_all (th_copy s') = [y])
    \<and> l_nof_cell (th_copy s') = 1 \<and> l_new_dl (th_copy s') = (u \<noteq> 0) \<and> th_delivered s' = th_delivered s @ [reTx_msg t]
    \<and> th_log s' = th_log s @ [(Suc (length (th_delivered s)), th_copy s, th_copy s')]"
proof -
  obtain q where q: "apply_msg (reTx_msg t) (th_ca s) = Inr q" "one_cell t (Suc n) q"
    using one_cell_apply [OF assms(6,7)] by blast
  obtain s1 where s1: "threads_reach s s1" "th_failed s1 = None" "th_monitor s1 = M_Recv" "\<not> th_go_exit s1"
    "th_mutex s1 = None" "th_ca s1 = q" "th_main s1 = R_Loop" "th_copy s1 = th_copy s" "th_log s1 = th_log s"
    "th_delivered s1 = th_delivered s @ [reTx_msg t]"
    using run_message [OF assms(1,2,4,5) q(1)] assms(3) by metis
  obtain l where l: "copy_from New_dl q (th_copy s1) = Inr l" "l_new_dl l = (u \<noteq> 0)" "l_recent_dl l = t # us"
    "l_recent_ul l = 0 # us'" "l_nof_cell l = 1" "\<exists>y. l_dci_all l = [y]"
    using one_cell_copy [OF q(2) assms(8), of "th_copy s1"] assms(9-12) s1(8) by metis
  obtain s2 where "threads_reach s1 s2" "th_failed s2 = None" "th_main s2 = R_Loop" "\<not> th_go_exit s2"
    "th_mutex s2 = None" "th_ca s2 = q" "th_monitor s2 = M_Recv" "th_delivered s2 = th_delivered s1" "th_copy s2 = l"
    "th_log s2 = th_log s1 @ [(length (th_delivered s1), th_copy s1, l)]"
    using run_copy [OF s1(2,7,4,5)] s1(3,6) l(1) by metis
  then show ?thesis using s1 l q(2) reach_trans by (intro exI [of _ s2]) auto
qed

lemma run_start:
  "\<exists>s. threads_reach (threads_init ca0 qs) s \<and> th_failed s = None \<and> th_monitor s = M_Recv \<and> th_main s = R_Loop
    \<and> \<not> th_go_exit s \<and> th_mutex s = None \<and> th_ca s = ngscope_dci_CA_init
    \<and> th_copy s = th_copy (threads_init ca0 qs) \<and> th_delivered s = [] \<and> th_log s = []"
proof -
  let ?s0 = "threads_init ca0 qs"
  let ?s1 = "?s0\<lparr>th_ca := ngscope_dci_CA_init, th_monitor := M_Connect\<rparr>"
  let ?s2 = "?s1\<lparr>th_sock_ready := True, th_monitor := M_Loop\<rparr>"
  let ?s3 = "?s2\<lparr>th_monitor := M_Recv\<rparr>"
  let ?s4 = "?s3\<lparr>th_main := R_Loop\<rparr>"
  have s0: "th_failed ?s0 = None" "th_monitor ?s0 = M_Start" "th_main ?s0 = R_Start" "\<not> th_go_exit ?s0"
    "th_mutex ?s0 = None" "th_delivered ?s0 = []" "th_log ?s0 = []"
    by (simp_all add: threads_init_def Let_def)
  have "thread_step ?s0 ?s1" using s0 thread_step.m_init [of ?s0] by simp
  moreover have "thread_step ?s1 ?s2" using s0 thread_step.m_connect [of ?s1] by simp
  moreover have "thread_step ?s2 ?s3" using s0 thread_step.m_loop [of ?s2] by simp
  moreover have "thread_step ?s3 ?s4" using s0 thread_step.r_start [of ?s3] by simp
  ultimately have "threads_reach ?s0 ?s4" by (meson threads_reach.step threads_reach.start)
  then show ?thesis using s0 by (intro exI [of _ ?s4]) simp
qed

lemma run_two_copies:
  "\<exists>s e1 e2. threads_reach (threads_init ngscope_dci_CA_init [zero_dci]) s \<and> th_delivered s = [reTx_msg 5, reTx_msg 7]
    \<and> th_log s = [(1, e1, e2), (2, e2, th_copy s)] \<and> l_new_dl (th_copy s) \<and> l_nof_cell (th_copy s) = 1
    \<and> (\<exists>x y. l_dci_all e2 = [x] \<and> l_dci_all (th_copy s) = [y])"
proof -
  let ?s0 = "threads_init ngscope_dci_CA_init [zero_dci]"
  obtain s1 where s1: "threads_reach ?s0 s1" "th_failed s1 = None" "th_monitor s1 = M_Recv" "th_main s1 = R_Loop"
    "\<not> th_go_exit s1" "th_mutex s1 = None" "th_ca s1 = ngscope_dci_CA_init" "th_copy s1 = th_copy ?s0"
    "th_delivered s1 = []" "th_log s1 = []"
    using run_start by blast
  have c: "l_recent_dl (th_copy s1) = 0 # replicate 3 0" "l_recent_ul (th_copy s1) = 0 # replicate 3 0"
    "l_dci_all (th_copy s1) = [zero_dci]"
    by (simp_all add: s1(8) threads_init_def Let_def numeral_eq_Suc)
  have one: "one_cell 0 0 (th_ca s1)" using one_cell_init s1(7) by simp
  obtain s2 x where s2: "threads_reach s1 s2" "th_failed s2 = None" "th_monitor s2 = M_Recv" "th_main s2 = R_Loop"
    "\<not> th_go_exit s2" "th_mutex s2 = None" "one_cell 5 1 (th_ca s2)"
    "l_recent_dl (th_copy s2) = 5 # replicate 3 0" "l_recent_ul (th_copy s2) = 0 # replicate 3 0"
    "l_dci_all (th_copy s2) = [x]" "th_delivered s2 = [reTx_msg 5]" "th_log s2 = [(1, th_copy s1, th_copy s2)]"
    using run_one_copy [OF s1(2-6) one _ _ _ c, of 5] s1(9,10) by auto
  obtain s3 y where "threads_reach s2 s3" "l_dci_all (th_copy s3) = [y]" "l_new_dl (th_copy s3)" "l_nof_cell (th_copy s3) = 1"
    "th_delivered s3 = [reTx_msg 5, reTx_msg 7]"
    "th_log s3 = [(1, th_copy s1, th_copy s2), (2, th_copy s2, th_copy s3)]"
    using run_one_copy [OF s2(2-6,7) _ _ _ s2(8-10), of 7] s2(11,12) by auto
  then show ?thesis using s1(1) s2(1,10) reach_trans by blast
qed

theorem threads_exclusive_witness:
  "\<exists>s. threads_reach (threads_init ngscope_dci_CA_init [zero_dci]) s \<and> th_delivered s \<noteq> []
    \<and> \<not> (monitor_inside (th_monitor s) \<and> main_inside (th_main s))"
  using run_two_copies threads_exclusive [of ngscope_dci_CA_init "[zero_dci]"] by (metis list.distinct(1))

theorem copies_see_prefixes_witness:
  "\<exists>s. threads_reach (threads_init ngscope_dci_CA_init [zero_dci]) s \<and> length (th_log s) = 2
    \<and> sorted (map fst (th_log s))"
proof -
  obtain s e1 e2 where s: "threads_reach (threads_init ngscope_dci_CA_init [zero_dci]) s"
    "th_log s = [(1, e1, e2), (2, e2, th_copy s)]"
    using run_two_copies by blast
  then show ?thesis using copies_see_prefixes [OF s(1)] by (intro exI [of _ s]) simp
qed

theorem copy_holds_prefix_witness:
  "\<exists>s k e l. threads_reach (threads_init ngscope_dci_CA_init [zero_dci]) s \<and> (k, e, l) \<in> set (th_log s)
    \<and> l_nof_cell l = 1 \<and> nof_dci (l_dci_all l ! 0) = 2 \<and> arrays_hold (l_dci_all l ! 0)
        [zero_ue_dci\<lparr>ue_time_stamp := 5, ue_dl_reTx := 1\<rparr>, zero_ue_dci\<lparr>ue_time_stamp := 7, ue_dl_reTx := 1\<rparr>]"
proof -
  obtain s e1 e2 where s: "threads_reach (threads_init ngscope_dci_CA_init [zero_dci]) s"
    "th_delivered s = [reTx_msg 5, reTx_msg 7]" "th_log s = [(1, e1, e2), (2, e2, th_copy s)]"
    "l_new_dl (th_copy s)" "l_nof_cell (th_copy s) = 1"
    using run_two_copies by blast
  have log: "(2, e2, th_copy s) \<in> set (th_log s)" by (simp add: s(3))
  have "lastn (nat NOF_LOG_DCI) (cell_messages 0 (take 2 (th_delivered s)))
      = [zero_ue_dci\<lparr>ue_time_stamp := 5, ue_dl_reTx := 1\<rparr>, zero_ue_dci\<lparr>ue_time_stamp := 7, ue_dl_reTx := 1\<rparr>]"
    by (simp add: s(2) reTx_msg_def cell_messages_def lastn_short)
  then show ?thesis
    using copy_holds_prefix [OF s(1) log] s(1,4,5) log
    by (intro exI [of _ s] exI [of _ 2] exI [of _ e2] exI [of _ "th_copy s"]) (auto simp: Let_def)
qed

end
