(* ===== verification/Receiver_Setup.thy ===== *)
theory Receiver_Setup
  imports Tcp_Header C_Strings
begin

text \<open>
  What the receiver programs do before and after their loops: the log files of
  \<open>src/ngscope_debug_def.cc\<close> and of the programs themselves, the listening socket of
  \<open>src/ngscope_sock.cc\<close>, the packets that open the path through a NAT, the port and the signal handler
  (\<open>src/receiver.cc\<close>, \<open>src/copa_recv.cc\<close>, \<open>src/copa_rx_fix.cc\<close>, \<open>src/dci_copa_rx.cc\<close>).

  The file system is its open handles and whether the directory \<open>./data\<close> exists. A handle is a number,
  NULL is \<open>None\<close>. Whether a file in that directory can be opened is a parameter.
\<close>


section \<open>Files\<close>

record file_system =
  fs_data_dir :: bool
  fs_next :: nat
  fs_open :: "nat list"

definition mkdir_data :: "file_system \<Rightarrow> file_system" where
  "mkdir_data fs = fs\<lparr>fs_data_dir := True\<rparr>"

definition fopen :: "(string \<Rightarrow> bool) \<Rightarrow> string \<Rightarrow> file_system \<Rightarrow> nat option \<times> file_system" where
  "fopen can path fs =
     (if fs_data_dir fs \<and> can path
      then (Some (fs_next fs), fs\<lparr>fs_next := Suc (fs_next fs), fs_open := fs_next fs # fs_open fs\<rparr>)
      else (None, fs))"

text \<open>Closing NULL, or a handle that is not open, is undefined.\<close>

definition fclose :: "nat option \<Rightarrow> file_system \<Rightarrow> file_system res" where
  "fclose h fs = (case h of
     None \<Rightarrow> Inl NullDeref
   | Some n \<Rightarrow> if n \<in> set (fs_open fs) then Inr (fs\<lparr>fs_open := remove1 n (fs_open fs)\<rparr>) else Inl UninitRead)"

text \<open>A log is emptied and opened again for appending.\<close>

definition open_log :: "(string \<Rightarrow> bool) \<Rightarrow> string \<Rightarrow> file_system \<Rightarrow> (nat option \<times> file_system) res" where
  "open_log can path fs = (case fopen can path fs of (h, fs1) \<Rightarrow>
     bindE (fclose h fs1) (\<lambda>fs2. Inr (fopen can path fs2)))"


section \<open>The debug files\<close>

definition CLIENT_RX :: bool where "CLIENT_RX = True"
definition CLIENT_DELAY :: bool where "CLIENT_DELAY = True"
definition CLIENT_RETX :: bool where "CLIENT_RETX = True"
definition CLIENT_DL_reTx :: bool where "CLIENT_DL_reTx = True"
definition CLIENT_UL_reTx :: bool where "CLIENT_UL_reTx = False"
definition CLIENT_DCI_RX_DL_RETX :: bool where "CLIENT_DCI_RX_DL_RETX = True"
definition CLIENT_DCI_RX_UL_RETX :: bool where "CLIENT_DCI_RX_UL_RETX = False"

lemmas debug_flags = CLIENT_RX_def CLIENT_DELAY_def CLIENT_RETX_def CLIENT_DL_reTx_def CLIENT_UL_reTx_def
  CLIENT_DCI_RX_DL_RETX_def CLIENT_DCI_RX_UL_RETX_def

record client_fd_t =
  fd_client_rx :: "nat option"
  fd_client_delay :: "nat option"
  fd_client_reTx :: "nat option"
  fd_client_DL_reTx :: "nat option"
  fd_client_UL_reTx :: "nat option"
  fd_client_DCI_RX_DL_RETX :: "nat option"
  fd_client_DCI_RX_UL_RETX :: "nat option"

definition init_log :: "(string \<Rightarrow> bool) \<Rightarrow> bool \<Rightarrow> string \<Rightarrow> (nat option \<Rightarrow> client_fd_t \<Rightarrow> client_fd_t)
    \<Rightarrow> client_fd_t \<times> file_system \<Rightarrow> (client_fd_t \<times> file_system) res" where
  "init_log can flag path store = (\<lambda>(c, fs).
     if flag then bindE (open_log can path fs) (\<lambda>(h, fs'). Inr (store h c, fs')) else Inr (c, fs))"

definition ngscope_debug_client_fd_init :: "(string \<Rightarrow> bool) \<Rightarrow> client_fd_t \<Rightarrow> file_system
    \<Rightarrow> (client_fd_t \<times> file_system) res" where
  "ngscope_debug_client_fd_init can c fs =
     bindE (init_log can CLIENT_RX ''./data/client_pkt_rx'' (\<lambda>h c. c\<lparr>fd_client_rx := h\<rparr>) (c, mkdir_data fs)) (\<lambda>x.
     bindE (init_log can CLIENT_DELAY ''./data/client_pkt_delay_fix'' (\<lambda>h c. c\<lparr>fd_client_delay := h\<rparr>) x) (\<lambda>x.
     bindE (init_log can CLIENT_RETX ''./data/client_dci_pkt_reTx'' (\<lambda>h c. c\<lparr>fd_client_reTx := h\<rparr>) x) (\<lambda>x.
     bindE (init_log can CLIENT_DL_reTx ''./data/client_DL_reTx'' (\<lambda>h c. c\<lparr>fd_client_DL_reTx := h\<rparr>) x) (\<lambda>x.
     bindE (init_log can CLIENT_UL_reTx ''./data/client_UL_reTx'' (\<lambda>h c. c\<lparr>fd_client_UL_reTx := h\<rparr>) x) (\<lambda>x.
     bindE (init_log can CLIENT_DCI_RX_DL_RETX ''./data/client_DCI_rx_DL_reTx''
       (\<lambda>h c. c\<lparr>fd_client_DCI_RX_DL_RETX := h\<rparr>) x) (\<lambda>x.
     init_log can CLIENT_DCI_RX_UL_RETX ''./data/client_DCI_rx_UL_reTx''
       (\<lambda>h c. c\<lparr>fd_client_DCI_RX_UL_RETX := h\<rparr>) x))))))"

definition close_log :: "bool \<Rightarrow> nat option \<Rightarrow> file_system \<Rightarrow> file_system res" where
  "close_log flag h fs = (if flag then fclose h fs else Inr fs)"

definition ngscope_debug_client_fd_close :: "client_fd_t \<Rightarrow> file_system \<Rightarrow> file_system res" where
  "ngscope_debug_client_fd_close c fs =
     bindE (close_log CLIENT_RX (fd_client_rx c) fs) (\<lambda>fs.
     bindE (close_log CLIENT_DELAY (fd_client_delay c) fs) (\<lambda>fs.
     bindE (close_log CLIENT_RETX (fd_client_reTx c) fs) (\<lambda>fs.
     bindE (close_log CLIENT_DL_reTx (fd_client_DL_reTx c) fs) (\<lambda>fs.
     bindE (close_log CLIENT_UL_reTx (fd_client_UL_reTx c) fs) (\<lambda>fs.
     bindE (close_log CLIENT_DCI_RX_DL_RETX (fd_client_DCI_RX_DL_RETX c) fs) (\<lambda>fs.
     close_log CLIENT_DCI_RX_UL_RETX (fd_client_DCI_RX_UL_RETX c) fs))))))"


section \<open>The files of the programs\<close>

text \<open>Opening several logs one after the other, and closing handles.\<close>

fun open_logs :: "(string \<Rightarrow> bool) \<Rightarrow> string list \<Rightarrow> file_system \<Rightarrow> (nat option list \<times> file_system) res" where
  "open_logs can [] fs = Inr ([], fs)"
| "open_logs can (p # ps) fs =
     bindE (open_log can p fs) (\<lambda>(h, fs1). bindE (open_logs can ps fs1) (\<lambda>(hs, fs2). Inr (h # hs, fs2)))"

definition dci_copa_rx_files :: "(string \<Rightarrow> bool) \<Rightarrow> client_fd_t \<Rightarrow> file_system \<Rightarrow> file_system res" where
  "dci_copa_rx_files can c fs =
     bindE (ngscope_debug_client_fd_init can c fs) (\<lambda>(c, fs). ngscope_debug_client_fd_close c fs)"

text \<open>The two echoing programs: their own logs come before the debug files, and one is not closed.\<close>

definition copa_recv_files :: "(string \<Rightarrow> bool) \<Rightarrow> client_fd_t \<Rightarrow> file_system \<Rightarrow> file_system res" where
  "copa_recv_files can c fs =
     bindE (open_log can ''./data/client_ack_log'' fs) (\<lambda>(fd_ack, fs).
     bindE (open_log can ''./data/sending_interval.txt'' fs) (\<lambda>(fd_t_dif, fs).
     bindE (ngscope_debug_client_fd_init can c fs) (\<lambda>(c, fs).
     bindE (ngscope_debug_client_fd_close c fs) (fclose fd_ack))))"

definition receiver_files :: "(string \<Rightarrow> bool) \<Rightarrow> client_fd_t \<Rightarrow> file_system \<Rightarrow> file_system res" where
  "receiver_files can c fs =
     bindE (ngscope_debug_client_fd_init can c (mkdir_data fs)) (\<lambda>(c, fs).
     bindE (open_logs can [''./data/dci_sync_delay_sum'', ''./data/dci_sync_offset'', ''./data/cleaned_delay'',
       ''./data/client_ack_log''] fs) (\<lambda>(hs, fs).
     bindE (ngscope_debug_client_fd_init can c fs) (\<lambda>(c, fs).
     for_each fclose [hs ! 2, hs ! 0, hs ! 1, hs ! 3] fs)))"


lemma open_log_ok:
  "fs_data_dir fs \<Longrightarrow> can path \<Longrightarrow> open_log can path fs = Inr (Some (Suc (fs_next fs)),
     fs\<lparr>fs_next := Suc (Suc (fs_next fs)), fs_open := Suc (fs_next fs) # fs_open fs\<rparr>)"
  by (simp add: open_log_def fopen_def fclose_def)

lemma open_log_fails: "\<not> fs_data_dir fs \<or> \<not> can path \<Longrightarrow> open_log can path fs = Inl NullDeref"
  by (auto simp: open_log_def fopen_def fclose_def)

lemma init_log_ok:
  "fs_data_dir fs \<Longrightarrow> can path \<Longrightarrow> init_log can True path store (c, fs) = Inr (store (Some (Suc (fs_next fs))) c,
     fs\<lparr>fs_next := Suc (Suc (fs_next fs)), fs_open := Suc (fs_next fs) # fs_open fs\<rparr>)"
  "init_log can False path store x = Inr x"
  by (cases x) (simp_all add: init_log_def open_log_ok)

text \<open>The handles that the debug files get, from the number \<open>n\<close> on.\<close>

definition debug_handles :: "nat \<Rightarrow> nat list" where
  "debug_handles n = [n + 9, n + 7, n + 5, n + 3, n + 1]"

lemma debug_init_opens:
  assumes "\<forall>p. can p"
  shows "\<exists>c' fs'. ngscope_debug_client_fd_init can c fs = Inr (c', fs') \<and> fs_data_dir fs'
    \<and> fs_next fs' = fs_next fs + 10 \<and> fs_open fs' = debug_handles (fs_next fs) @ fs_open fs
    \<and> (\<forall>fs'' xs. fs_open fs'' = debug_handles (fs_next fs) @ xs \<longrightarrow>
          ngscope_debug_client_fd_close c' fs'' = Inr (fs''\<lparr>fs_open := xs\<rparr>))"
  using assms
  by (simp add: ngscope_debug_client_fd_init_def init_log_ok debug_flags mkdir_data_def debug_handles_def
      ngscope_debug_client_fd_close_def close_log_def fclose_def)

lemma debug_init_fails:
  assumes "\<not> can ''./data/client_pkt_rx''"
  shows "ngscope_debug_client_fd_init can c fs = Inl NullDeref"
  using assms by (simp add: ngscope_debug_client_fd_init_def init_log_def debug_flags open_log_fails)

lemma open_four_logs:
  assumes "\<forall>p. can p" and "fs_data_dir fs"
  shows "open_logs can [p0, p1, p2, p3] fs = Inr ([Some (fs_next fs + 1), Some (fs_next fs + 3),
      Some (fs_next fs + 5), Some (fs_next fs + 7)],
    fs\<lparr>fs_next := fs_next fs + 8,
      fs_open := [fs_next fs + 7, fs_next fs + 5, fs_next fs + 3, fs_next fs + 1] @ fs_open fs\<rparr>)"
  using assms by (simp add: open_log_ok numeral_eq_Suc)

text \<open>
  The log files of the receiver programs. With a directory in which every file can be opened the
  receiver with delay correction closes what it opened; the echoing receivers leave one file open; and
  \<open>receiver.cc\<close>, which at its end initialises the debug files a second time instead of closing them,
  leaves ten open. On the first run, before \<open>./data\<close> exists, the echoing receivers close a null
  pointer, while the others create the directory first.
\<close>

theorem receiver_files_balance:
  assumes "\<forall>p. can p"
  shows "(\<exists>fs'. dci_copa_rx_files can c fs = Inr fs' \<and> fs_open fs' = fs_open fs)
    \<and> (if fs_data_dir fs
       then \<exists>fs' h. copa_recv_files can c fs = Inr fs' \<and> fs_open fs' = h # fs_open fs
       else copa_recv_files can c fs = Inl NullDeref)
    \<and> (\<exists>fs' hs. receiver_files can c fs = Inr fs' \<and> fs_open fs' = hs @ fs_open fs \<and> length hs = 10)"
proof (intro conjI)
  obtain c' fs' where "ngscope_debug_client_fd_init can c fs = Inr (c', fs')"
    "fs_open fs' = debug_handles (fs_next fs) @ fs_open fs"
    "ngscope_debug_client_fd_close c' fs' = Inr (fs'\<lparr>fs_open := fs_open fs\<rparr>)"
    using debug_init_opens [OF assms, of c fs] by blast
  then show "\<exists>fs'. dci_copa_rx_files can c fs = Inr fs' \<and> fs_open fs' = fs_open fs"
    by (simp add: dci_copa_rx_files_def)
next
  show "if fs_data_dir fs then \<exists>fs' h. copa_recv_files can c fs = Inr fs' \<and> fs_open fs' = h # fs_open fs
    else copa_recv_files can c fs = Inl NullDeref"
  proof (cases "fs_data_dir fs")
    case True
    define n where "n = fs_next fs"
    define fs2 where "fs2 = fs\<lparr>fs_next := Suc (Suc (Suc (Suc n))), fs_open := Suc (Suc (Suc n)) # Suc n # fs_open fs\<rparr>"
    obtain c' fs' where "ngscope_debug_client_fd_init can c fs2 = Inr (c', fs')"
      "ngscope_debug_client_fd_close c' fs' = Inr (fs'\<lparr>fs_open := fs_open fs2\<rparr>)"
      using debug_init_opens [OF assms, of c fs2] by blast
    then show ?thesis
      using True assms by (simp add: copa_recv_files_def open_log_ok fs2_def n_def fclose_def)
  qed (simp add: copa_recv_files_def open_log_fails)
next
  obtain c1 fs1 where 1: "ngscope_debug_client_fd_init can c (mkdir_data fs) = Inr (c1, fs1)" "fs_data_dir fs1"
    "fs_open fs1 = debug_handles (fs_next fs) @ fs_open fs"
    using debug_init_opens [OF assms, of c "mkdir_data fs"] by (auto simp: mkdir_data_def)
  define m where "m = fs_next fs1"
  define fs2 where "fs2 = fs1\<lparr>fs_next := m + 8, fs_open := [m + 7, m + 5, m + 3, m + 1] @ fs_open fs1\<rparr>"
  obtain c3 fs3 where 3: "ngscope_debug_client_fd_init can c1 fs2 = Inr (c3, fs3)"
    "fs_open fs3 = debug_handles (m + 8) @ [m + 7, m + 5, m + 3, m + 1] @ fs_open fs1"
    using debug_init_opens [OF assms, of c1 fs2] by (auto simp: fs2_def)
  have logs: "open_logs can [''./data/dci_sync_delay_sum'', ''./data/dci_sync_offset'', ''./data/cleaned_delay'',
      ''./data/client_ack_log''] fs1 = Inr ([Some (m + 1), Some (m + 3), Some (m + 5), Some (m + 7)], fs2)"
    unfolding open_four_logs [OF assms 1(2)] by (simp add: m_def fs2_def)
  have "receiver_files can c fs = Inr (fs3\<lparr>fs_open := debug_handles (m + 8) @ fs_open fs1\<rparr>)"
    using 1(1) logs 3 by (simp add: receiver_files_def fclose_def debug_handles_def)
  then show "\<exists>fs' hs. receiver_files can c fs = Inr fs' \<and> fs_open fs' = hs @ fs_open fs \<and> length hs = 10"
    using 1(3) by (simp add: debug_handles_def)
qed

theorem receiver_files_balance_witness:
  "\<exists>fs'. receiver_files (\<lambda>p. True) \<lparr>fd_client_rx = None, fd_client_delay = None, fd_client_reTx = None,
      fd_client_DL_reTx = None, fd_client_UL_reTx = None, fd_client_DCI_RX_DL_RETX = None,
      fd_client_DCI_RX_UL_RETX = None\<rparr> \<lparr>fs_data_dir = False, fs_next = 3, fs_open = []\<rparr> = Inr fs'
    \<and> length (fs_open fs') = 10"
  using receiver_files_balance [of "\<lambda>p. True" _ "\<lparr>fs_data_dir = False, fs_next = 3, fs_open = []\<rparr>"]
  by fastforce


section \<open>The listening socket\<close>

text \<open>What the system calls return, in their order.\<close>

record listen_calls =
  ls_socket :: int
  ls_bind :: int
  ls_setsockopt :: int
  ls_listen :: int
  ls_accept :: int

text \<open>
  The result is the number of clients and what is stored through the two pointers; \<open>None\<close> stands for a
  variable that was not written.
\<close>

definition accept_slave_connect :: "listen_calls \<Rightarrow> int option \<times> int option \<Rightarrow> int \<times> int option \<times> int option" where
  "accept_slave_connect os = (\<lambda>(server_fd, client_fd).
     if ls_socket os < 0 then (0, server_fd, client_fd)
     else let server_fd = Some (ls_socket os) in
       if ls_bind os < 0 then (0, server_fd, client_fd)
       else if ls_setsockopt os < 0 then (0, server_fd, client_fd)
       else if ls_listen os < 0 then (0, server_fd, client_fd)
       else if ls_accept os > 0 then (1, server_fd, Some (ls_accept os))
       else (0, server_fd, client_fd))"

text \<open>
  \<open>receiver.cc\<close> prints the number of clients and starts the thread of the monitor in any case; the
  thread reads the variable of the client.
\<close>

definition receiver_client_sock :: "listen_calls \<Rightarrow> int res" where
  "receiver_client_sock os = (case accept_slave_connect os (None, None) of (nof_sock, server, client) \<Rightarrow>
     (case client of None \<Rightarrow> Inl UninitRead | Some fd \<Rightarrow> Inr fd))"

lemma receiver_client_sock_outcome:
  "receiver_client_sock os =
     (if fst (accept_slave_connect os (None, None)) = 1 then Inr (ls_accept os) else Inl UninitRead)"
  by (simp add: receiver_client_sock_def accept_slave_connect_def Let_def)


section \<open>First packets, port and signals\<close>

text \<open>
  Four packets to a fixed server open the path through a NAT; only the time stamp of the header is set
  (\<open>ms\<close>), the rest is what the buffer on the stack holds.
\<close>

definition hello_packets :: "real \<Rightarrow> tcp_header \<Rightarrow> tcp_header list" where
  "hello_packets ms stack = replicate 4 (stack\<lparr>h_receiver_timestamp := ms\<rparr>)"

definition rx_port :: "string list \<Rightarrow> int" where
  "rx_port argv = (if length argv = 2 then atoi (argv ! 1) else 9004)"

lemma rx_port_given: "rx_port [prog, ''8080''] = 8080"
  by (simp add: rx_port_def) code_simp

text \<open>The handler sets \<open>go_exit\<close> for SIGINT (2) and ends the program for SIGSEGV (11).\<close>

definition sig_int_handler :: "int \<Rightarrow> bool \<Rightarrow> bool res" where
  "sig_int_handler signo go_exit =
     (if signo = 2 then Inr True else if signo = 11 then Inl ExitFailure else Inr go_exit)"

lemma interrupt_ends_loops: "sig_int_handler 2 go_exit = Inr True"
  by (simp add: sig_int_handler_def)

end
