(* ===== verification/Socket_Class.thy ===== *)
theory Socket_Class
  imports Prelude
begin

text \<open>
  The clock (\<open>src/ngscope_ts.cc\<close>, \<open>timestamp_ns\<close> of \<open>src/ctcp.hh\<close>) and the older socket class of
  \<open>src/socket.hh\<close> and \<open>src/socket.cc\<close>. The operating system is a parameter: what \<open>clock_gettime\<close> and
  the calls on sockets return. An address of the network layer is a type variable; the descriptor of a
  socket does not matter and is left out. The messages on the error stream are left out.
\<close>


section \<open>Clock\<close>

text \<open>Seconds and nanoseconds; \<open>None\<close> when \<open>clock_gettime\<close> fails.\<close>

type_synonym timespec = "int \<times> int"

definition timespec_ns :: "timespec \<Rightarrow> u64" where
  "timespec_ns ts = (case ts of (tv_sec, tv_nsec) \<Rightarrow> of_int (tv_sec * 1000000000 + tv_nsec))"

definition clock_ns :: "timespec option \<Rightarrow> u64 res" where
  "clock_ns clk = (case clk of None \<Rightarrow> Inl ExitFailure | Some ts \<Rightarrow> Inr (timespec_ns ts))"

text \<open>The three functions of \<open>ngscope_ts.cc\<close> return an \<open>int64_t\<close>.\<close>

definition timestamp_ns :: "timespec option \<Rightarrow> int res" where
  "timestamp_ns clk = bindE (clock_ns clk) (\<lambda>ns. Inr (long_of ns))"

definition timestamp_us :: "timespec option \<Rightarrow> int res" where
  "timestamp_us clk = bindE (clock_ns clk) (\<lambda>ns. Inr (long_of (ns div 1000)))"

definition timestamp_ms :: "timespec option \<Rightarrow> int res" where
  "timestamp_ms clk = bindE (clock_ns clk) (\<lambda>ns. Inr (long_of (ns div 1000000)))"

definition valid_time :: "timespec \<Rightarrow> bool" where
  "valid_time ts = (case ts of (s, n) \<Rightarrow> 0 \<le> s \<and> s < 9000000000 \<and> 0 \<le> n \<and> n < 1000000000)"

lemma timespec_ns_exact:
  assumes "valid_time (s, n)"
  shows "uint (timespec_ns (s, n)) = s * 1000000000 + n"
proof -
  define k where "k = s * 1000000000 + n"
  have "0 \<le> k" "k < 2 ^ 64" using assms by (auto simp: valid_time_def k_def)
  then have "uint (word_of_int k :: u64) = k" by (simp add: uint_word_of_int_eq take_bit_eq_mod)
  then show ?thesis unfolding timespec_ns_def k_def by (simp only: prod.case)
qed

lemma long_of_div:
  assumes "uint (x :: u64) < 2 ^ 63" and "uint k = c" and "0 < c"
  shows "long_of (x div k) = uint x div c"
proof -
  have d: "uint (x div k) = uint x div c" using assms(2) by (simp add: uint_div)
  have "uint x div c \<le> uint x" using assms(3) zdiv_mono2 [of "uint x" 1 c] by simp
  then show ?thesis using assms(1) d long_of_small [of "x div k"] by simp
qed

text \<open>
  Up to the year 2255 the three clocks agree: they are the same time in their units, rounded down,
  and do not run backwards when the clock of the system does not.
\<close>

theorem clocks_agree:
  assumes "valid_time (s, n)"
  shows "timestamp_ns (Some (s, n)) = Inr (s * 1000000000 + n)"
    and "timestamp_us (Some (s, n)) = Inr (s * 1000000 + n div 1000)"
    and "timestamp_ms (Some (s, n)) = Inr (s * 1000 + n div 1000000)"
proof -
  note ns = timespec_ns_exact [OF assms]
  have small: "uint (timespec_ns (s, n)) < 2 ^ 63" using assms unfolding ns by (auto simp: valid_time_def)
  show "timestamp_ns (Some (s, n)) = Inr (s * 1000000000 + n)"
    using long_of_small [OF small] ns by (simp add: timestamp_ns_def clock_ns_def)
  have "(s * 1000000000 + n) div 1000 = s * 1000000 + n div 1000"
    "(s * 1000000000 + n) div 1000000 = s * 1000 + n div 1000000"
    using div_mult_self3 [of 1000 "s * 1000000" n] div_mult_self3 [of 1000000 "s * 1000" n]
    by (simp_all add: ac_simps)
  then show "timestamp_us (Some (s, n)) = Inr (s * 1000000 + n div 1000)"
    and "timestamp_ms (Some (s, n)) = Inr (s * 1000 + n div 1000000)"
    using long_of_div [OF small, of 1000 1000] long_of_div [OF small, of 1000000 1000000] ns
    by (simp_all add: timestamp_us_def timestamp_ms_def clock_ns_def)
qed


section \<open>Addresses and packets\<close>

record 'a address =
  sin_port :: u16
  sin_addr :: 'a

text \<open>\<open>inet_aton\<close> is \<open>None\<close> for a string that is not an address.\<close>

definition Address :: "(string \<Rightarrow> 'a option) \<Rightarrow> string \<Rightarrow> u16 \<Rightarrow> 'a address res" where
  "Address inet_aton ip port = (case inet_aton ip of
     None \<Rightarrow> Inl ExitFailure | Some a \<Rightarrow> Inr \<lparr>sin_port = port, sin_addr = a\<rparr>)"

record 'a socket_packet =
  sp_addr :: "'a address"
  sp_payload :: "u8 list"
  sp_timestamp :: u64

definition Packet_untimed :: "'a address \<Rightarrow> u8 list \<Rightarrow> 'a socket_packet" where
  "Packet_untimed addr payload = \<lparr>sp_addr = addr, sp_payload = payload, sp_timestamp = 0\<rparr>"

definition Packet_timed :: "'a address \<Rightarrow> u8 list \<Rightarrow> timespec \<Rightarrow> 'a socket_packet" where
  "Packet_timed addr payload ts = \<lparr>sp_addr = addr, sp_payload = payload, sp_timestamp = timespec_ns ts\<rparr>"


section \<open>The socket\<close>

definition Socket :: "int \<Rightarrow> int \<Rightarrow> int res" where
  "Socket socket_res setsockopt_res = bindE (guardE (\<not> socket_res < 0) ExitFailure) (\<lambda>_.
     bindE (guardE (\<not> setsockopt_res < 0) ExitFailure) (\<lambda>_. Inr socket_res))"

text \<open>\<open>connect\<close>, \<open>bind\<close> and \<open>bind_to_device\<close> end the program when the call fails.\<close>

definition sock_connect :: "int \<Rightarrow> unit res" where
  "sock_connect connect_res = guardE (\<not> connect_res < 0) ExitFailure"

definition sock_bind :: "int \<Rightarrow> unit res" where
  "sock_bind bind_res = guardE (\<not> bind_res < 0) ExitFailure"

definition sock_bind_to_device :: "int \<Rightarrow> unit res" where
  "sock_bind_to_device setsockopt_res = guardE (\<not> setsockopt_res < 0) ExitFailure"

text \<open>A send that fails or is short is reported only on the error stream (the result).\<close>

definition sock_send :: "(u8 list \<Rightarrow> 'a address \<Rightarrow> int) \<Rightarrow> 'a socket_packet \<Rightarrow> bool" where
  "sock_send sendto p = (sendto (sp_payload p) (sp_addr p) \<noteq> int (length (sp_payload p)))"

text \<open>
  What \<open>recvmsg\<close> delivers: \<open>None\<close> for an error, or the sender, the datagram and the first control
  message, if there is one, with its level and type and its time. The system cuts the datagram at the
  size of the buffer.
\<close>

abbreviation BUF_SIZE :: nat where "BUF_SIZE \<equiv> 2048"

record 'a recvmsg_result =
  rm_from :: "'a address"
  rm_datagram :: "u8 list"
  rm_control :: "(bool \<times> bool \<times> timespec) option"

definition sock_recv :: "'a recvmsg_result option \<Rightarrow> 'a socket_packet res" where
  "sock_recv r = (case r of
     None \<Rightarrow> Inl ExitFailure
   | Some m \<Rightarrow> let payload = take BUF_SIZE (rm_datagram m) in
       bindE (guardE (\<not> length payload > BUF_SIZE) ExitFailure) (\<lambda>_.
       case rm_control m of
         None \<Rightarrow> Inl AssertFailed
       | Some (socket_level, timestampns, ts) \<Rightarrow>
           bindE (guardE socket_level AssertFailed) (\<lambda>_. bindE (guardE timestampns AssertFailed) (\<lambda>_.
           Inr (Packet_timed (rm_from m) payload ts)))))"

text \<open>
  The outcome of a receive. The test for an oversize datagram never holds, since the system does not
  deliver more than the buffer holds: a longer datagram is cut silently.
\<close>

theorem sock_recv_outcome:
  "sock_recv (Some m) =
     (case rm_control m of
        Some (True, True, ts) \<Rightarrow> Inr \<lparr>sp_addr = rm_from m, sp_payload = take BUF_SIZE (rm_datagram m),
          sp_timestamp = timespec_ns ts\<rparr>
      | _ \<Rightarrow> Inl AssertFailed)"
  by (auto simp: sock_recv_def Let_def guardE_def Packet_timed_def split: option.splits prod.splits bool.splits)

end
