(* ===== verification/Pcc_Client.thy ===== *)
theory Pcc_Client
  imports Prelude
begin

text \<open>
  The client of the PCC controller (\<open>src/pcc-tcp.cc\<close>, \<open>src/pcc-tcp.hh\<close>). The UDT library is a parameter:
  whether the addresses resolve and the connection is made, what each call of \<open>UDT::send\<close> returns (-1
  is \<open>UDT::ERROR\<close>) and whether each call of \<open>UDT::perfmon\<close> succeeds. A loop whose results are used up is
  still running: \<open>None\<close>. The library is documented to send at least one byte and no more than it is given.
\<close>


section \<open>Sending\<close>

record pcc_tcp =
  pt_dstaddr :: string
  pt_dstport :: int

definition PCC_TCP :: "string \<Rightarrow> int \<Rightarrow> pcc_tcp" where
  "PCC_TCP ipaddr port = \<lparr>pt_dstaddr = ipaddr, pt_dstport = port\<rparr>"

text \<open>The loop: the parts sent, each its offset in the buffer and its length, and the bytes sent.\<close>

fun pcc_send_loop :: "int \<Rightarrow> int \<Rightarrow> int list \<Rightarrow> ((int \<times> int) list \<times> int) option" where
  "pcc_send_loop size_v ssize rs =
     (if ssize < size_v then
        case rs of
          [] \<Rightarrow> None
        | ss # rs' \<Rightarrow>
            if ss = - 1 then Some ([], ssize)
            else map_option (\<lambda>(parts, n). ((ssize, ss) # parts, n)) (pcc_send_loop size_v (ssize + ss) rs')
      else Some ([], ssize))"

declare pcc_send_loop.simps [simp del]

datatype pcc_outcome =
    BadLocalAddress
  | BadPeerAddress
  | ConnectFailed
  | Transfer "(int \<times> int) list" int

record udt_calls =
  udt_local_ok :: bool
  udt_peer_ok :: "string \<Rightarrow> int \<Rightarrow> bool"
  udt_connect :: int
  udt_sends :: "int list"

text \<open>
  The flow size becomes an \<open>int\<close>; a negative one makes \<open>new char[size]\<close> throw.
\<close>

definition pcc_send_data :: "udt_calls \<Rightarrow> real \<Rightarrow> bool \<Rightarrow> pcc_tcp \<Rightarrow> pcc_outcome res option" where
  "pcc_send_data os flow_size byte_switched p =
     (if \<not> byte_switched then Some (Inl AssertFailed)
      else if \<not> udt_local_ok os then Some (Inr BadLocalAddress)
      else if \<not> udt_peer_ok os (pt_dstaddr p) (pt_dstport p) then Some (Inr BadPeerAddress)
      else if udt_connect os = - 1 then Some (Inr ConnectFailed)
      else let size_v = trunc_real flow_size in
        if size_v < 0 then Some (Inl UncaughtException)
        else map_option (\<lambda>(parts, n). Inr (Transfer parts n)) (pcc_send_loop size_v 0 (udt_sends os)))"


section \<open>The transfer\<close>

text \<open>The parts lie one after the other from \<open>i\<close> to \<open>n\<close>.\<close>

fun contiguous :: "int \<Rightarrow> (int \<times> int) list \<Rightarrow> int \<Rightarrow> bool" where
  "contiguous i [] n \<longleftrightarrow> i = n"
| "contiguous i ((off, len) # parts) n \<longleftrightarrow> off = i \<and> 0 < len \<and> contiguous (i + len) parts n"

text \<open>What the library promises: each result is an error or between 1 and the bytes left.\<close>

fun udt_sends_ok :: "int \<Rightarrow> int \<Rightarrow> int list \<Rightarrow> bool" where
  "udt_sends_ok size_v ssize [] \<longleftrightarrow> True"
| "udt_sends_ok size_v ssize (ss # rs) \<longleftrightarrow> ssize < size_v \<longrightarrow> ss = - 1
     \<or> (1 \<le> ss \<and> ssize + ss \<le> size_v \<and> udt_sends_ok size_v (ssize + ss) rs)"

lemma pcc_send_loop_result:
  assumes "udt_sends_ok size_v ssize rs" and "ssize \<le> size_v" and "size_v - ssize \<le> int (length rs)"
  shows "\<exists>parts n. pcc_send_loop size_v ssize rs = Some (parts, n) \<and> contiguous ssize parts n
    \<and> n \<le> size_v \<and> (- 1 \<notin> set rs \<longrightarrow> n = size_v)"
  using assms
proof (induction rs arbitrary: ssize)
  case Nil
  then show ?case by (simp add: pcc_send_loop.simps)
next
  case (Cons ss rs)
  show ?case
  proof (cases "ssize < size_v \<and> ss \<noteq> - 1")
    case True
    then have ss: "1 \<le> ss" "ssize + ss \<le> size_v" "udt_sends_ok size_v (ssize + ss) rs"
      using Cons.prems(1) by auto
    then have "size_v - (ssize + ss) \<le> int (length rs)" using Cons.prems(3) by simp
    then obtain parts n where "pcc_send_loop size_v (ssize + ss) rs = Some (parts, n)"
      "contiguous (ssize + ss) parts n" "n \<le> size_v" "- 1 \<notin> set rs \<longrightarrow> n = size_v"
      using Cons.IH [OF ss(3,2)] by blast
    then show ?thesis using True ss(1) by (subst pcc_send_loop.simps) auto
  next
    case False
    then show ?thesis using Cons.prems(2) by (subst pcc_send_loop.simps) auto
  qed
qed

text \<open>
  A transfer ends, at the latest after as many calls as bytes: the parts lie one after the other
  from the start of the buffer, and without an error of the library they cover all of it.
\<close>

theorem pcc_transfer_complete:
  assumes "udt_local_ok os" and "udt_peer_ok os (pt_dstaddr p) (pt_dstport p)" and "udt_connect os \<noteq> - 1"
    and "0 \<le> size_v" and "udt_sends_ok size_v 0 (udt_sends os)" and "size_v \<le> int (length (udt_sends os))"
  shows "\<exists>parts n. pcc_send_data os (of_int size_v) True p = Some (Inr (Transfer parts n))
    \<and> contiguous 0 parts n \<and> n \<le> size_v \<and> (- 1 \<notin> set (udt_sends os) \<longrightarrow> n = size_v)"
proof -
  have "trunc_real (of_int size_v) = size_v" using assms(4) by (simp add: trunc_real_def)
  then show ?thesis
    using pcc_send_loop_result [of size_v 0 "udt_sends os"] assms by (auto simp: pcc_send_data_def)
qed

theorem pcc_transfer_complete_witness:
  "\<exists>parts. pcc_send_data \<lparr>udt_local_ok = True, udt_peer_ok = (\<lambda>a p. True), udt_connect = 0, udt_sends = [2, 1, 1]\<rparr>
      3 True (PCC_TCP ''10.0.0.1'' 9000) = Some (Inr (Transfer parts 3)) \<and> contiguous 0 parts 3"
  using pcc_transfer_complete [of "\<lparr>udt_local_ok = True, udt_peer_ok = (\<lambda>a p. True), udt_connect = 0, udt_sends = [2, 1, 1]\<rparr>"
      "PCC_TCP ''10.0.0.1'' 9000" 3]
  by auto


section \<open>The monitor\<close>

text \<open>It samples ten times a second until \<open>perfmon\<close> fails; the result is the number of samples.\<close>

fun monitor :: "bool list \<Rightarrow> nat option" where
  "monitor [] = None"
| "monitor (ok # oks) = (if ok then map_option Suc (monitor oks) else Some 0)"

lemma monitor_ends_with_connection:
  "monitor oks = Some n \<longleftrightarrow> n < length oks \<and> \<not> oks ! n \<and> (\<forall>i < n. oks ! i)"
proof (induction oks arbitrary: n)
  case (Cons ok oks)
  then show ?case by (cases n) (auto simp: less_Suc_eq_0_disj)
qed simp

end
