(* ===== verification/Spec2Isabelle.thy ===== *)
theory Spec2Isabelle
  imports Ngscope_Dci_Udp Receivers Packet_List_Heap Sender Cubic Pcc Memory_Variants Prober Udp_Socket
    Backup_Sync Feedback Receiver_Threads Receiver_Setup Socket_Class Pcc_Client
begin

text \<open>
  A verification library for the congestion-control testbed in \<open>src/\<close>: a UDP sender that runs one of
  several congestion controllers (\<open>sender.cc\<close>), and a receiver that corrects the measured delays by
  what a monitor of the LTE control channel reports (\<open>dci_copa_rx.cc\<close>, the \<open>ngscope_*\<close> files).

  The sender. \<open>sender.cc\<close> reads the command line and couples a controller with the flow sender
  \<open>CTCP\<close> and a traffic generator. The controllers implement the callbacks of \<open>ccc.hh\<close>; the flow
  sender calls \<open>onPktSent\<close>, \<open>onACK\<close> and \<open>onTimeout\<close> and reads back the window and the pacing.
    \<^item> \<open>Sender\<close>: options, choice and configuration of the controller (\<open>sender_main\<close>).
    \<^item> \<open>Traffic_Generator\<close>: parameters and the loop over the flows (\<open>traffic-generator.hh\<close>).
    \<^item> \<open>Ctcp\<close>, \<open>Tcp_Header\<close>: handshake and send loop of a flow over any controller (\<open>ctcp.hh\<close>).
    \<^item> \<open>Congctrls\<close>: the interface of a controller as the record \<open>ccc\<close> of its operations, and the TCP and
      blast controllers (\<open>congctrls.hh\<close>, \<open>ccc.hh\<close>).
    \<^item> \<open>Markovian_CC\<close>, \<open>Markovian_Config\<close>: Copa and its configuration string (\<open>markoviancc.cc\<close>, \<open>.hh\<close>),
      over \<open>Rtt_Window\<close> (\<open>rtt-window.cc\<close>) and \<open>Estimators\<close> (\<open>estimators.cc\<close>, \<open>.hh\<close>).
    \<^item> \<open>Remy_Memory\<close>, \<open>Whisker\<close>, \<open>Whisker_Tree\<close>, \<open>Remy_Dna\<close>, \<open>Remy\<close>: the signals, the rules, the tree of
      rules, its stored form, and the Remy controller (\<open>memory-default.*\<close>, \<open>memoryrange.*\<close>,
      \<open>whisker.*\<close>, \<open>whiskertree.*\<close>, \<open>rat.*\<close>, \<open>remycc.*\<close>).
    \<^item> \<open>Cubic_Root\<close>, \<open>Cubic\<close>: the integer cube root and the controller of TCP Cubic (\<open>cubiccc.*\<close>).
    \<^item> \<open>Pcc\<close>: the PCC controller for the UDT library, a state machine over monitor intervals (\<open>pcc.h\<close>).
    \<^item> \<open>Pcc_Client\<close>: the client of that controller over the UDT library (\<open>pcc-tcp.*\<close>).
    \<^item> \<open>Memory_Variants\<close>: the two other sets of signals for the Remy controller
      (\<open>memory-with-loss-signal.*\<close>, \<open>memory-without-slow-rewma.*\<close>).
    \<^item> \<open>Udp_Socket\<close>: what the socket class does around the calls of the system (\<open>udp-socket.*\<close>);
      \<open>Socket_Class\<close>: the older one and the clocks (\<open>socket.*\<close>, \<open>ngscope_ts.cc\<close>).
    \<^item> \<open>Prober\<close>: the program that measures the delays of groups of probes (\<open>prober.cc\<close>).

  The receiver. One thread parses the datagrams of the monitor into ring buffers, one per cell; the
  other queues the packets of the flow, detects retransmissions of the radio link in both streams,
  aligns their clocks, subtracts the delay that they cause and acknowledges.
    \<^item> \<open>Ngscope_Util\<close>: arrays, TTIs on a circle of 10240, correlation (\<open>ngscope_util.cc\<close>).
    \<^item> \<open>Ngscope_Dci\<close>: ring buffers and their extraction (\<open>ngscope_dci.cc\<close>); \<open>Ngscope_Dci_Recv\<close>: the
      parser of datagrams, \<open>Ngscope_Dci_Udp\<close>: the thread that receives them (\<open>ngscope_dci_recv.cc\<close>).
    \<^item> \<open>Ngscope_Sync\<close>: alignment of the two clocks (\<open>ngscope_sync.cc\<close>).
    \<^item> \<open>Ngscope_ReTx\<close>: the re-ordering buffer of the radio link (\<open>ngscope_reTx.cc\<close>).
    \<^item> \<open>Ngscope_Packet_List\<close>: the list of packets of the last second (\<open>ngscope_packet_list.cc\<close>) as
      a value; \<open>Packet_List_Heap\<close>: the same operations on nodes and pointers, which implement them.
    \<^item> \<open>Ngscope_Client\<close>: queueing, analysis, acknowledging, and the loop of the receiver
      (\<open>ngscope_client.cc\<close>, \<open>dci_copa_rx.cc\<close>).
    \<^item> \<open>Receivers\<close>: the receivers that echo every packet, acknowledge in batches, or analyse without
      correcting (\<open>copa_recv.cc\<close>, \<open>copa_rx_fix.cc\<close>, \<open>receiver.cc\<close>).
    \<^item> \<open>Receiver_Threads\<close>: the two threads, their lock, start-up and end as a step relation, whose steps
      apply the operations of \<open>Ngscope_Dci\<close> to the shared state one after the other; the effect of a
      parsed datagram is a sequence of its messages (\<open>recv_datagram_apply\<close>). What each copy sees holds for
      every interleaving.
    \<^item> \<open>Receiver_Setup\<close>: log files, listening socket, first packets, port and signal handler of the
      receivers (\<open>ngscope_debug_def.*\<close>, \<open>ngscope_sock.cc\<close> and the programs).
    \<^item> \<open>Backup_Sync\<close>: the earlier synchronisation and delay correction (\<open>backup/ngscope_sync.cc\<close>).

  Both ends. \<open>Feedback\<close> follows one corrected packet from the list of the receiver through the header
  of its acknowledgement and the flow sender to the sample in the window of Copa.

  Conventions (\<open>Prelude\<close>, \<open>C_Strings\<close>). A fallible operation returns \<open>'a res\<close>, whose left values name
  the failure: a read out of bounds, a division by zero, a failed assertion, an exit. A loop that need
  not end returns an option, \<open>None\<close> standing for not returning. Unsigned C integers are words; signed
  ones are mathematical integers, wrapped where the code relies on it and otherwise assumed not to
  overflow. A \<open>double\<close> is a real number, so rounding is not modelled. Sockets, clocks and
  random numbers are the environment: arguments of a step, one per iteration of a loop. Outside
  \<open>Receiver_Threads\<close> each thread is modelled alone.

  What the lemmas show. Per component: which operations fail and when, an invariant and that the
  operations keep it, and the functional result (what the ring buffers hold, which packets are
  acknowledged, which rule is used). The locale \<open>congestion_controller\<close> of \<open>Congctrls\<close> is the contract
  between the flow sender and a controller; its interpretations on Copa and on the TCP controller carry
  the properties of the send loop in \<open>Ctcp\<close> over to them. The locale \<open>bounded_log\<close> of \<open>Ngscope_Dci\<close> is the
  contract of a ring buffer, interpreted on the ring of a cell. Loops over the environment take the list of its values, so
  their length is the bound; every theorem on them holds for all lengths.

  Not modelled. Console output, the contents of log files, printing functions; the system calls below
  \<open>Udp_Socket\<close>, \<open>Socket_Class\<close> and \<open>Receiver_Setup\<close>, whose results are arguments of the model; random
  numbers (\<open>random.cc\<close>); the kernel TCP (\<open>kernelTCP.hh\<close>), which starts an external program; the UDT library
  (\<open>udt/\<close>, headers only), a parameter of \<open>Pcc_Client\<close>; the Python binding, the NAT server and the test
  programs; the generated protocol-buffer code; the classes of \<open>utilities.*\<close> that repeat the estimators,
  and \<open>utility.hh\<close>, which no file uses.
\<close>

end
